(* ===== verification/Prelude.thy ===== *)
theory Prelude
  imports Main "HOL-Library.Word"
begin

text \<open>
  Shared material of the development: the outcome of kernel code (a value, a crash, or a
  loop that never ends), the combinators that sequence it, the one loop combinator with its
  total-correctness and divergence rules, byte-addressed memory with page-sized reads and
  writes, the 32-bit arithmetic of C's \<open>int\<close>, and small facts on lists and maps.
\<close>

named_theorems kmon_simps \<open>evaluation of the sequencing combinators\<close>
named_theorems page_mem \<open>page-sized reads and writes of byte memory\<close>

section \<open>Types\<close>

type_synonym u8 = "8 word"
type_synonym u16 = "16 word"
type_synonym u32 = "32 word"
type_synonym u64 = "64 word"

section \<open>Outcomes of kernel code\<close>

text \<open>
  What stops the code: \<open>BUG\<close> is a failed \<open>BUG_ON\<close> or a reached \<open>BUG()\<close>, \<open>VM_BUG\<close> a failed
  \<open>VM_BUG_ON_PAGE\<close>, \<open>NullDeref\<close> the use of a null pointer, \<open>OutOfBounds\<close> an access outside
  an object, \<open>BadFree\<close> the release of something that is not a live object of that
  allocator, \<open>UseAfterFree\<close> the use of an object that has been released, \<open>Die\<close> the
  termination of the user-space server by \<open>die\<close>.
\<close>

datatype fault = BUG | VM_BUG | NullDeref | OutOfBounds | BadFree | UseAfterFree | Die

text \<open>
  A piece of code takes the state to \<open>Ret r s\<close> (returns \<open>r\<close> in state \<open>s\<close>), \<open>Crash f\<close>, or
  \<open>Hang\<close> (never returns).
\<close>

type_synonym ('s, 'a) kmon = "'s \<Rightarrow> (fault + 'a \<times> 's) option"

abbreviation Ret :: "'a \<Rightarrow> 's \<Rightarrow> (fault + 'a \<times> 's) option" where
  "Ret r s \<equiv> Some (Inr (r, s))"

abbreviation Crash :: "fault \<Rightarrow> (fault + 'a \<times> 's) option" where
  "Crash f \<equiv> Some (Inl f)"

abbreviation Hang :: "(fault + 'a \<times> 's) option" where
  "Hang \<equiv> None"

definition kret :: "'a \<Rightarrow> ('s, 'a) kmon" where
  "kret r s = Ret r s"

definition kcrash :: "fault \<Rightarrow> ('s, 'a) kmon" where
  "kcrash f s = Crash f"

definition khang :: "('s, 'a) kmon" where
  "khang s = Hang"

definition kbind :: "('s, 'a) kmon \<Rightarrow> ('a \<Rightarrow> ('s, 'b) kmon) \<Rightarrow> ('s, 'b) kmon" where
  "kbind m f s =
     (case m s of
        None \<Rightarrow> Hang
      | Some (Inl e) \<Rightarrow> Crash e
      | Some (Inr (r, s')) \<Rightarrow> f r s')"

definition kthen :: "('s, 'a) kmon \<Rightarrow> ('s, 'b) kmon \<Rightarrow> ('s, 'b) kmon" where
  "kthen m n = kbind m (\<lambda>_. n)"

definition kgets :: "('s \<Rightarrow> 'a) \<Rightarrow> ('s, 'a) kmon" where
  "kgets f s = Ret (f s) s"

definition kmodify :: "('s \<Rightarrow> 's) \<Rightarrow> ('s, unit) kmon" where
  "kmodify f s = Ret () (f s)"

definition bug_on :: "bool \<Rightarrow> ('s, unit) kmon" where
  "bug_on b = (if b then kcrash BUG else kret ())"

lemma kret_run [simp, kmon_simps]: "kret r s = Ret r s"
  by (simp add: kret_def)

lemma kcrash_run [simp, kmon_simps]: "kcrash f s = Crash f"
  by (simp add: kcrash_def)

lemma khang_run [simp, kmon_simps]: "khang s = Hang"
  by (simp add: khang_def)

lemma kgets_run [simp, kmon_simps]: "kgets f s = Ret (f s) s"
  by (simp add: kgets_def)

lemma kmodify_run [simp, kmon_simps]: "kmodify f s = Ret () (f s)"
  by (simp add: kmodify_def)

lemma bug_on_run [simp, kmon_simps]: "bug_on b s = (if b then Crash BUG else Ret () s)"
  by (simp add: bug_on_def)

lemma kbind_Ret [simp, kmon_simps]: "m s = Ret r s' \<Longrightarrow> kbind m f s = f r s'"
  by (simp add: kbind_def)

lemma kbind_Crash [simp, kmon_simps]: "m s = Crash e \<Longrightarrow> kbind m f s = Crash e"
  by (simp add: kbind_def)

lemma kbind_Hang [simp, kmon_simps]: "m s = Hang \<Longrightarrow> kbind m f s = Hang"
  by (simp add: kbind_def)

lemma kthen_Ret [simp, kmon_simps]: "m s = Ret r s' \<Longrightarrow> kthen m n s = n s'"
  by (simp add: kthen_def)

lemma kthen_Crash [simp, kmon_simps]: "m s = Crash e \<Longrightarrow> kthen m n s = Crash e"
  by (simp add: kthen_def)

lemma kthen_Hang [simp, kmon_simps]: "m s = Hang \<Longrightarrow> kthen m n s = Hang"
  by (simp add: kthen_def)

lemma kbind_eq_Ret:
  "kbind m f s = Ret r t \<longleftrightarrow> (\<exists>r1 s1. m s = Ret r1 s1 \<and> f r1 s1 = Ret r t)"
  by (auto simp: kbind_def split: option.splits sum.splits)

lemma kthen_eq_Ret:
  "kthen m n s = Ret r t \<longleftrightarrow> (\<exists>r1 s1. m s = Ret r1 s1 \<and> n s1 = Ret r t)"
  by (simp add: kthen_def kbind_eq_Ret)

subsection \<open>Loops\<close>

text \<open>
  The loop \<open>while (b) c\<close> over the loop's local variables \<open>x\<close> and the state \<open>s\<close>. A loop
  that never ends is \<open>Hang\<close>, the least value of the recursion.
\<close>

partial_function (option) whileK ::
    "('x \<Rightarrow> 's \<Rightarrow> bool) \<Rightarrow> ('x \<Rightarrow> ('s, 'x) kmon) \<Rightarrow> 'x \<Rightarrow> ('s, 'x) kmon" where
  "whileK b c x s =
     (if b x s
      then (case c x s of
              None \<Rightarrow> Hang
            | Some o1 \<Rightarrow>
                (case o1 of
                   Inl e \<Rightarrow> Crash e
                 | Inr xs' \<Rightarrow> whileK b c (fst xs') (snd xs')))
      else Ret x s)"

lemma whileK_stop: "\<not> b x s \<Longrightarrow> whileK b c x s = Ret x s"
  by (simp add: whileK.simps)

lemma whileK_step: "b x s \<Longrightarrow> c x s = Ret x' s' \<Longrightarrow> whileK b c x s = whileK b c x' s'"
  by (subst whileK.simps) simp

lemma whileK_crash: "b x s \<Longrightarrow> c x s = Crash e \<Longrightarrow> whileK b c x s = Crash e"
  by (subst whileK.simps) simp

text \<open>
  Total correctness: an invariant that every iteration keeps while a well-founded measure
  decreases gives a loop that returns, in a state with the invariant and a false guard.
\<close>

lemma whileK_total:
  fixes I :: "'x \<Rightarrow> 's \<Rightarrow> bool" and m :: "'x \<Rightarrow> 's \<Rightarrow> 'm"
  assumes wf: "wf r"
    and init: "I x s"
    and step: "\<And>x s. I x s \<Longrightarrow> b x s \<Longrightarrow>
      \<exists>x' s'. c x s = Ret x' s' \<and> I x' s' \<and> (m x' s', m x s) \<in> r"
  shows "\<exists>x' s'. whileK b c x s = Ret x' s' \<and> I x' s' \<and> \<not> b x' s'"
  using init
proof (induction "m x s" arbitrary: x s rule: wf_induct_rule [OF wf])
  case 1
  show ?case
  proof (cases "b x s")
    case True
    obtain x' s' where c: "c x s = Ret x' s'" and I: "I x' s'" and d: "(m x' s', m x s) \<in> r"
      using step [OF 1(2) True] by blast
    show ?thesis
      using 1(1) [OF d I] whileK_step [of b x s c x' s', OF True c] by simp
  next
    case False
    then show ?thesis using 1(2) by (simp add: whileK_stop)
  qed
qed

text \<open>Divergence: a loop whose guard an invariant keeps true never returns.\<close>

lemma whileK_hangs:
  fixes I :: "'x \<Rightarrow> 's \<Rightarrow> bool"
  assumes "I x s"
    and step: "\<And>x s. I x s \<Longrightarrow> b x s \<and> (\<exists>x' s'. c x s = Ret x' s' \<and> I x' s')"
  shows "whileK b c x s = Hang"
proof (rule ccontr)
  assume "whileK b c x s \<noteq> Hang"
  then obtain v where ret: "whileK b c x s = Some v" by auto
  have "\<not> I x s"
  proof (rule whileK.raw_induct
      [where P = "\<lambda>b' c' x s v. b' = b \<and> c' = c \<longrightarrow> \<not> I x s" and xa = "(((b, c), x), s)" and y = v,
        simplified])
    fix wh :: "('x \<Rightarrow> 's \<Rightarrow> bool) \<Rightarrow> ('x \<Rightarrow> ('s, 'x) kmon) \<Rightarrow> 'x \<Rightarrow> ('s, 'x) kmon"
      and b' c' x s v
    assume IH: "\<And>b' c' x s v. wh b' c' x s = Some v \<Longrightarrow> b' = b \<and> c' = c \<longrightarrow> \<not> I x s"
      and eq: "(if b' x s then (case c' x s of None \<Rightarrow> Hang
          | Some o1 \<Rightarrow> (case o1 of Inl e \<Rightarrow> Crash e | Inr xs' \<Rightarrow> wh b' c' (fst xs') (snd xs')))
        else Ret x s) = Some v"
    show "b' = b \<and> c' = c \<longrightarrow> \<not> I x s"
    proof (intro impI notI)
      assume bc: "b' = b \<and> c' = c" and "I x s"
      then obtain x' s' where "b x s" "c x s = Ret x' s'" "I x' s'"
        using step by blast
      with eq bc have "wh b c x' s' = Some v" by simp
      then show False using IH \<open>I x' s'\<close> by blast
    qed
  qed (rule ret)
  with assms(1) show False by simp
qed

section \<open>C integers\<close>

text \<open>
  \<open>atomic_t\<close> and \<open>int\<close> are 32-bit two's complement. A value is kept as an \<open>int\<close> and every
  operation that may leave the range wraps it back.
\<close>

definition wrap32 :: "int \<Rightarrow> int" where
  "wrap32 x = (x + 2 ^ 31) mod 2 ^ 32 - 2 ^ 31"

lemma wrap32_id: "- (2 ^ 31) \<le> x \<Longrightarrow> x < 2 ^ 31 \<Longrightarrow> wrap32 x = x"
  by (simp add: wrap32_def)

lemma wrap32_range: "- (2 ^ 31) \<le> wrap32 x \<and> wrap32 x < 2 ^ 31"
  by (simp add: wrap32_def)

section \<open>Byte-addressed memory and pages\<close>

text \<open>
  A page holds 4096 bytes: a function on 12-bit offsets. Memory is a function on 64-bit
  addresses. \<open>mem_read\<close> and \<open>mem_write\<close> copy one page at any address, with the address
  arithmetic of 64-bit pointers.
\<close>

definition PAGE_SHIFT :: nat where
  "PAGE_SHIFT = 12"

definition PAGE_SIZE :: u64 where
  "PAGE_SIZE = 4096"

type_synonym page_data = "12 word \<Rightarrow> u8"
type_synonym bytemem = "u64 \<Rightarrow> u8"

definition mem_read :: "bytemem \<Rightarrow> u64 \<Rightarrow> page_data" where
  "mem_read m a i = m (a + ucast i)"

definition mem_write :: "bytemem \<Rightarrow> u64 \<Rightarrow> page_data \<Rightarrow> bytemem" where
  "mem_write m a d x = (if x - a < PAGE_SIZE then d (ucast (x - a)) else m x)"

lemma ucast_12_64_lt: "(ucast (i :: 12 word) :: u64) < 4096"
proof -
  have "unat (ucast i :: u64) = unat i"
    by transfer (simp add: take_bit_take_bit)
  also have "\<dots> < 4096" using unsigned_less [of i, where 'a = nat] by simp
  finally show ?thesis by (simp add: word_less_nat_alt)
qed

lemma ucast_12_64_12 [simp]: "ucast (ucast (i :: 12 word) :: u64) = i"
  by transfer simp

lemma mem_read_write_same [simp, page_mem]: "mem_read (mem_write m a d) a = d"
  by (rule ext) (simp add: mem_read_def mem_write_def PAGE_SIZE_def ucast_12_64_lt)

text \<open>Two page-sized ranges that do not meet: each start is at least a page away from the other.\<close>

definition pages_apart :: "u64 \<Rightarrow> u64 \<Rightarrow> bool" where
  "pages_apart a b \<longleftrightarrow> PAGE_SIZE \<le> a - b \<and> PAGE_SIZE \<le> b - a"

lemma pages_apart_sym: "pages_apart a b = pages_apart b a"
  by (auto simp: pages_apart_def)

lemma pages_apart_offset [simp]: "pages_apart (c + a) (c + b) = pages_apart a b"
  by (simp add: pages_apart_def)

lemma mem_read_write_apart [page_mem]:
  assumes "pages_apart a b"
  shows "mem_read (mem_write m a d) b = mem_read m b"
proof (rule ext)
  fix i :: "12 word"
  let ?k = "ucast i :: u64"
  have k: "unat ?k < 4096" using ucast_12_64_lt [of i] by (simp add: word_less_nat_alt)
  have "\<not> b + ?k - a < 4096"
  proof
    assume lt: "b + ?k - a < 4096"
    define d1 where "d1 = b - a"
    have d1: "4096 \<le> unat d1" "4096 \<le> unat (- d1)"
      using assms by (simp_all add: pages_apart_def PAGE_SIZE_def d1_def word_le_nat_alt)
    have "(unat d1 + unat (- d1)) mod 2 ^ 64 = 0"
      using unat_word_ariths(1) [of d1 "- d1"] by simp
    then have neg: "unat d1 + unat (- d1) = 2 ^ 64"
      using d1 unsigned_less [of d1, where 'a = nat] unsigned_less [of "- d1", where 'a = nat]
      by (auto simp: mod_eq_0_iff_dvd dest: dvd_imp_le)
    have "b + ?k - a = d1 + ?k" by (simp add: d1_def)
    with lt have "d1 + ?k < 4096" by (simp only:)
    then have "unat (d1 + ?k) < 4096" by (simp add: word_less_nat_alt)
    moreover have "unat (d1 + ?k) = unat d1 + unat ?k"
      using neg d1 k by (subst unat_add_lem [THEN iffD1]) auto
    ultimately show False using d1 by simp
  qed
  then show "mem_read (mem_write m a d) b i = mem_read m b i"
    by (simp add: mem_read_def mem_write_def PAGE_SIZE_def)
qed

lemma mem_write_read_id [simp]: "mem_write m a (mem_read m a) = m"
proof (rule ext)
  fix x
  have "ucast (ucast (x - a) :: 12 word) = x - a" if "x - a < 4096" for x a :: u64
  proof -
    have "unat (x - a) < 4096" using that by (simp add: word_less_nat_alt)
    then have "unat (ucast (ucast (x - a) :: 12 word) :: u64) = unat (x - a)"
      by (simp add: unsigned_ucast_eq unsigned_take_bit_eq take_bit_nat_eq_self)
    then show ?thesis by (simp add: word_unat_eq_iff)
  qed
  then show "mem_write m a (mem_read m a) x = m x"
    by (simp add: mem_write_def mem_read_def PAGE_SIZE_def)
qed

section \<open>Maps and lists\<close>

lemma map_upd_Some_delete [simp]: "m k = None \<Longrightarrow> (m(k \<mapsto> v))(k := None) = m"
  by (auto simp: fun_eq_iff)

lemma zip_take_length: "zip (take (length ys) xs) ys = zip xs ys"
  by (induction xs ys rule: list_induct2') auto

lemma Least_shift:
  fixes P :: "nat \<Rightarrow> bool"
  assumes "\<not> P c" "\<exists>k. P (c + k)"
  shows "(LEAST k. P (Suc c + k)) < (LEAST k. P (c + k))"
proof -
  obtain k where "P (c + k)" using assms(2) ..
  then have "(LEAST k. P (c + k)) = Suc (LEAST m. P (c + Suc m))"
    using assms(1) by (intro Least_Suc) auto
  then show ?thesis by simp
qed

end
