(* ===== verification/Kernel_Page.thy ===== *)
theory Kernel_Page
  imports Prelude
begin

text \<open>
  The part of the kernel's memory management that both drivers touch: page frames with
  their contents and the three page flags the drivers test and set, the assertion
  \<open>VM_BUG_ON_PAGE\<close>, and completions. Frames are named by their number; the state of each
  driver extends \<open>kmem\<close>.
\<close>

section \<open>Page frames\<close>

record page =
  pg_data :: page_data
  PageSwapCache :: bool
  PageLocked :: bool
  PageUptodate :: bool

type_synonym pfn = nat

record kmem =
  frames :: "pfn \<Rightarrow> page"

definition upd_frame :: "pfn \<Rightarrow> (page \<Rightarrow> page) \<Rightarrow> 'a kmem_scheme \<Rightarrow> 'a kmem_scheme" where
  "upd_frame p f s = s\<lparr>frames := (frames s)(p := f (frames s p))\<rparr>"

definition SetPageUptodate :: "page \<Rightarrow> page" where
  "SetPageUptodate pg = pg\<lparr>PageUptodate := True\<rparr>"

definition unlock_page :: "page \<Rightarrow> page" where
  "unlock_page pg = pg\<lparr>PageLocked := False\<rparr>"

text \<open>
  \<open>VM_BUG_ON_PAGE\<close> tests its condition only in kernels built with \<open>CONFIG_DEBUG_VM\<close>
  (the shipped configuration does not set it), so the switch is a parameter.
\<close>

definition vm_bug_on_page :: "bool \<Rightarrow> (page \<Rightarrow> bool) \<Rightarrow> pfn \<Rightarrow> ('a kmem_scheme, unit) kmon" where
  "vm_bug_on_page debug_vm cond p s =
     (if debug_vm \<and> cond (frames s p) then Crash VM_BUG else Ret () s)"

lemma frames_upd_frame [simp]:
  "frames (upd_frame p f s) q = (if q = p then f (frames s p) else frames s q)"
  by (simp add: upd_frame_def)

text \<open>Whatever the memory management does to a frame between swap operations.\<close>

definition set_frame :: "pfn \<Rightarrow> page \<Rightarrow> 'a kmem_scheme \<Rightarrow> 'a kmem_scheme" where
  "set_frame p v s = upd_frame p (\<lambda>_. v) s"

text \<open>A page the swap code hands to a backend for reading: in the swap cache, locked, not yet valid.\<close>

definition read_target :: "page \<Rightarrow> bool" where
  "read_target pg \<longleftrightarrow> PageSwapCache pg \<and> PageLocked pg \<and> \<not> PageUptodate pg"

text \<open>The page after a finished read: the data, valid and unlocked.\<close>

definition page_filled :: "page_data \<Rightarrow> page \<Rightarrow> page" where
  "page_filled d pg = pg\<lparr>pg_data := d, PageLocked := False, PageUptodate := True\<rparr>"

lemma page_filled_sel [simp]:
  "pg_data (page_filled d pg) = d" "PageLocked (page_filled d pg) = False"
  "PageUptodate (page_filled d pg) = True" "PageSwapCache (page_filled d pg) = PageSwapCache pg"
  by (simp_all add: page_filled_def)

lemma unlock_uptodate_filled [simp]:
  "unlock_page (SetPageUptodate (pg\<lparr>pg_data := d\<rparr>)) = page_filled d pg"
  by (simp add: unlock_page_def SetPageUptodate_def page_filled_def)

lemma vm_bug_on_page_pass [simp]:
  "\<not> cond (frames s p) \<Longrightarrow> vm_bug_on_page d cond p s = Ret () s"
  by (simp add: vm_bug_on_page_def)

section \<open>Completions\<close>

text \<open>
  \<open>struct completion\<close> holds the count of \<open>complete\<close> calls not yet consumed;
  \<open>complete_all\<close> sets it to half the range of \<open>unsigned int\<close>, which is never used up here.
\<close>

type_synonym completion = nat

definition init_completion :: completion where
  "init_completion = 0"

definition complete :: "completion \<Rightarrow> completion" where
  "complete c = Suc c"

definition complete_all :: "completion \<Rightarrow> completion" where
  "complete_all c = c + 2147483647"

definition completion_done :: "completion \<Rightarrow> bool" where
  "completion_done c \<longleftrightarrow> c \<noteq> 0"

end
