(* ===== verification/Rdma_State.thy ===== *)
theory Rdma_State
  imports Kernel_Page
begin

text \<open>
  The data of the RDMA backend (\<open>src/code/drivers/fastswap_rdma.h\<close> and the globals of
  \<open>fastswap_rdma.c\<close>) and the environment it runs in: the allocators, the DMA mapping layer
  and the verbs provider are parameters, collected in the record \<open>rdma_env\<close>; what the
  driver relies on is stated as predicates on that record.
\<close>

section \<open>Data\<close>

datatype qp_type = QP_READ_SYNC | QP_READ_ASYNC | QP_WRITE_SYNC

datatype dma_dir = DMA_TO_DEVICE | DMA_FROM_DEVICE

datatype ib_wr_opcode = IB_WR_RDMA_WRITE | IB_WR_RDMA_READ

text \<open>The three functions the driver installs as \<open>cqe.done\<close>.\<close>

datatype cqe_fn = Write_done | Read_done | Recv_remotemr_done

type_synonym req_ptr = nat
type_synonym qid = nat

text \<open>
  \<open>struct rdma_req\<close>; the list head is never used. \<open>cqe_done\<close> is unset until the caller of
  \<open>get_req_for_page\<close> or \<open>get_req_for_buf\<close> assigns it.
\<close>

record rdma_req =
  req_done :: completion
  cqe_done :: "cqe_fn option"
  dma :: u64
  req_page :: "pfn option"

record sswap_rdma_memregion =
  baseaddr :: u64
  key :: u32

text \<open>The device and its protection domain; the domain is named by its local DMA key.\<close>

record sswap_rdma_dev =
  dev :: nat
  pd_local_dma_lkey :: u32

text \<open>
  \<open>struct rdma_queue\<close>. Handles of the connection manager and the verbs layer are numbers, a
  null pointer is \<open>None\<close>. \<open>q_ctrl\<close> says whether the back pointer to the controller is set.
\<close>

record rdma_queue =
  qp :: "nat option"
  cq :: "nat option"
  cq_lock :: bool
  qtype :: qp_type
  q_ctrl :: bool
  cm_id :: "nat option"
  cm_error :: int
  cm_done :: completion
  pending :: int

record sockaddr_in =
  sin_family :: nat
  sin_port :: u16
  s_addr :: "u8 list"

text \<open>\<open>struct sswap_rdma_ctrl\<close>; \<open>queues\<close> is null when its allocation failed.\<close>

record sswap_rdma_ctrl =
  rdev :: "sswap_rdma_dev option"
  queues :: "rdma_queue list option"
  servermr :: sswap_rdma_memregion
  addr_in :: sockaddr_in
  srcaddr_in :: sockaddr_in

text \<open>The work request that \<open>sswap_rdma_post_rdma\<close> builds, with its one scatter entry.\<close>

record send_wr =
  wr_cqe :: req_ptr
  sge_addr :: u64
  sge_length :: u64
  sge_lkey :: u32
  opcode :: ib_wr_opcode
  remote_addr :: u64
  rkey :: u32

record recv_wr =
  rwr_cqe :: req_ptr
  rsge_addr :: u64
  rsge_length :: nat
  rsge_lkey :: u32

text \<open>A work completion: the request it belongs to and its status (0 is \<open>IB_WC_SUCCESS\<close>).\<close>

record ib_wc =
  wc_cqe :: req_ptr
  wc_status :: nat

text \<open>What a DMA address stands for: a page frame, or the controller's \<open>servermr\<close>.\<close>

datatype dma_buf = DmaPage pfn | DmaServermr

text \<open>
  The state. \<open>gctrl\<close>, \<open>numcpus\<close>, \<open>numqueues\<close> and \<open>req_cache\<close> are the module's globals,
  \<open>this_cpu\<close> the processor the code runs on, \<open>reqs\<close> the live objects of the request cache.
  \<open>dma_maps\<close> holds the live DMA mappings and \<open>dma_warn\<close> counts the unmappings whose
  direction is not the one of the mapping. \<open>sq\<close> and \<open>rq\<close> record, per queue, the requests
  handed to the verbs layer and not yet reported complete, \<open>farmem\<close> is the server's memory
  and \<open>clock\<close> the passing of time.
\<close>

record kst = kmem +
  gctrl :: "sswap_rdma_ctrl option"
  numcpus :: int
  numqueues :: int
  req_cache :: bool
  this_cpu :: u32
  reqs :: "req_ptr \<rightharpoonup> rdma_req"
  dma_maps :: "u64 \<rightharpoonup> dma_buf \<times> dma_dir"
  dma_warn :: nat
  sq :: "qid \<Rightarrow> send_wr list"
  rq :: "qid \<Rightarrow> recv_wr list"
  farmem :: bytemem
  clock :: nat

section \<open>The environment\<close>

text \<open>
  \<^item> \<open>debug_vm\<close>: whether \<open>VM_BUG_ON_PAGE\<close> is compiled in;
  \<^item> \<open>kmem_cache_alloc\<close>: the object returned, from the time and the live objects;
  \<^item> \<open>ib_dma_map_page\<close>, \<open>ib_dma_map_single\<close>: the DMA address given to a buffer, from the
    time, the live mappings and the direction; \<open>ib_dma_mapping_error\<close>;
  \<^item> \<open>ib_post_send\<close>, \<open>ib_post_recv\<close>: the return code, from the time, the queue, its
    outstanding requests and the new one;
  \<^item> \<open>ib_poll_cq\<close>: the completions a queue delivers, from the time, its outstanding
    requests and the budget;
  \<^item> \<open>dma_residue\<close>: what the target page of a failed transfer holds, from its old contents;
  \<^item> \<open>iommu_strict\<close>: whether the device is kept from writing through a mapping made for
    \<open>DMA_TO_DEVICE\<close>;
  \<^item> \<open>recv_message\<close>: the bytes the server sends on the first queue.
\<close>

record rdma_env =
  debug_vm :: bool
  kmem_cache_alloc :: "nat \<Rightarrow> (req_ptr \<Rightarrow> bool) \<Rightarrow> req_ptr option"
  ib_dma_map_page :: "nat \<Rightarrow> (u64 \<Rightarrow> bool) \<Rightarrow> pfn \<Rightarrow> dma_dir \<Rightarrow> u64"
  ib_dma_map_single :: "nat \<Rightarrow> (u64 \<Rightarrow> bool) \<Rightarrow> dma_dir \<Rightarrow> u64"
  ib_dma_mapping_error :: "u64 \<Rightarrow> bool"
  ib_post_send :: "nat \<Rightarrow> qid \<Rightarrow> send_wr list \<Rightarrow> send_wr \<Rightarrow> int"
  ib_post_recv :: "nat \<Rightarrow> qid \<Rightarrow> recv_wr list \<Rightarrow> recv_wr \<Rightarrow> int"
  ib_poll_cq :: "nat \<Rightarrow> qid \<Rightarrow> send_wr list \<Rightarrow> recv_wr list \<Rightarrow> nat \<Rightarrow> ib_wc list"
  dma_residue :: "send_wr \<Rightarrow> page_data \<Rightarrow> page_data"
  iommu_strict :: bool
  recv_message :: "u8 list"

section \<open>Access to the queues\<close>

text \<open>
  \<open>&gctrl->queues[q]\<close> and \<open>q->ctrl\<close>: dereferencing a null controller or a null queue array
  is a null dereference, an index outside the array is out of bounds.
\<close>

definition get_q :: "qid \<Rightarrow> (kst, rdma_queue) kmon" where
  "get_q q s =
     (case gctrl s of
        None \<Rightarrow> Crash NullDeref
      | Some c \<Rightarrow>
          (case queues c of
             None \<Rightarrow> Crash NullDeref
           | Some qs \<Rightarrow> if q < length qs then Ret (qs ! q) s else Crash OutOfBounds))"

definition map_q :: "qid \<Rightarrow> (rdma_queue \<Rightarrow> rdma_queue) \<Rightarrow> sswap_rdma_ctrl \<Rightarrow> sswap_rdma_ctrl" where
  "map_q q f c = c\<lparr>queues := map_option (\<lambda>qs. qs[q := f (qs ! q)]) (queues c)\<rparr>"

definition upd_q :: "qid \<Rightarrow> (rdma_queue \<Rightarrow> rdma_queue) \<Rightarrow> (kst, unit) kmon" where
  "upd_q q f = kthen (get_q q) (kmodify (\<lambda>s. s\<lparr>gctrl := map_option (map_q q f) (gctrl s)\<rparr>))"

text \<open>\<open>ctrl->rdev\<close>, \<open>q->ctrl->rdev\<close>, and the queue's handles passed to the verbs layer.\<close>

definition get_ctrl_rdev :: "(kst, sswap_rdma_dev) kmon" where
  "get_ctrl_rdev s =
     (case gctrl s of
        None \<Rightarrow> Crash NullDeref
      | Some c \<Rightarrow> (case rdev c of None \<Rightarrow> Crash NullDeref | Some d \<Rightarrow> Ret d s))"

definition get_rdev :: "qid \<Rightarrow> (kst, sswap_rdma_dev) kmon" where
  "get_rdev q =
     kbind (get_q q) (\<lambda>qu. if q_ctrl qu then get_ctrl_rdev else kcrash NullDeref)"

definition get_qp :: "qid \<Rightarrow> (kst, nat) kmon" where
  "get_qp q = kbind (get_q q) (\<lambda>qu. case qp qu of None \<Rightarrow> kcrash NullDeref | Some h \<Rightarrow> kret h)"

definition get_cq :: "qid \<Rightarrow> (kst, nat) kmon" where
  "get_cq q = kbind (get_q q) (\<lambda>qu. case cq qu of None \<Rightarrow> kcrash NullDeref | Some h \<Rightarrow> kret h)"

definition get_servermr :: "qid \<Rightarrow> (kst, sswap_rdma_memregion) kmon" where
  "get_servermr q =
     kbind (get_q q) (\<lambda>qu.
     kbind (kgets gctrl) (\<lambda>c.
       case c of
         None \<Rightarrow> kcrash NullDeref
       | Some ct \<Rightarrow> if q_ctrl qu then kret (servermr ct) else kcrash NullDeref))"

definition atomic_read_pending :: "qid \<Rightarrow> (kst, int) kmon" where
  "atomic_read_pending q = kbind (get_q q) (\<lambda>qu. kret (pending qu))"

definition atomic_inc_pending :: "qid \<Rightarrow> (kst, unit) kmon" where
  "atomic_inc_pending q = upd_q q (\<lambda>qu. qu\<lparr>pending := wrap32 (pending qu + 1)\<rparr>)"

definition atomic_dec_pending :: "qid \<Rightarrow> (kst, unit) kmon" where
  "atomic_dec_pending q = upd_q q (\<lambda>qu. qu\<lparr>pending := wrap32 (pending qu - 1)\<rparr>)"

text \<open>A spin lock that is already held on this processor is waited for without end.\<close>

definition spin_lock_irqsave :: "qid \<Rightarrow> (kst, unit) kmon" where
  "spin_lock_irqsave q =
     kbind (get_q q) (\<lambda>qu.
       if cq_lock qu then khang else upd_q q (\<lambda>qu. qu\<lparr>cq_lock := True\<rparr>))"

definition spin_unlock_irqrestore :: "qid \<Rightarrow> (kst, unit) kmon" where
  "spin_unlock_irqrestore q = upd_q q (\<lambda>qu. qu\<lparr>cq_lock := False\<rparr>)"

definition cpu_relax :: "(kst, unit) kmon" where
  "cpu_relax = kmodify (\<lambda>s. s\<lparr>clock := Suc (clock s)\<rparr>)"

end
