(* ===== verification/Rdma_Data.thy ===== *)
theory Rdma_Data
  imports Rdma_State
begin

text \<open>
  The data path of \<open>src/code/drivers/fastswap_rdma.c\<close>: requests and their DMA mappings,
  posting of RDMA reads and writes, the completion handlers, the polling loops with their
  back pressure, and the operations exported to \<open>fastswap.c\<close>. The verbs layer is the
  environment of \<open>Rdma_State\<close>.
\<close>

section \<open>Constants\<close>

definition QP_MAX_SEND_WR :: int where
  "QP_MAX_SEND_WR = 4096"

section \<open>Choosing a queue\<close>

text \<open>
  Indices are \<open>unsigned int\<close>; comparisons and sums with the signed \<open>numcpus\<close> convert it to
  unsigned.
\<close>

definition get_queue_type :: "int \<Rightarrow> u32 \<Rightarrow> ('s, qp_type) kmon" where
  "get_queue_type ncpus idx =
     (if idx < word_of_int ncpus then kret QP_READ_SYNC
      else if idx < word_of_int (ncpus * 2) then kret QP_READ_ASYNC
      else if idx < word_of_int (ncpus * 3) then kret QP_WRITE_SYNC
      else kcrash BUG)"

fun queue_index :: "int \<Rightarrow> u32 \<Rightarrow> qp_type \<Rightarrow> u32" where
  "queue_index ncpus cpuid QP_READ_SYNC = cpuid"
| "queue_index ncpus cpuid QP_READ_ASYNC = cpuid + word_of_int ncpus"
| "queue_index ncpus cpuid QP_WRITE_SYNC = cpuid + word_of_int (ncpus * 2)"

definition sswap_rdma_get_queue :: "u32 \<Rightarrow> qp_type \<Rightarrow> (kst, qid) kmon" where
  "sswap_rdma_get_queue cpuid type s =
     (if gctrl s = None then Crash BUG
      else Ret (unat (queue_index (numcpus s) cpuid type)) s)"

section \<open>Requests\<close>

text \<open>
  The test \<open>if (unlikely(!req))\<close> looks at the address of the caller's variable, which is
  never null, so its branch is never taken: a failed allocation is dereferenced by
  \<open>(*req)->page = page\<close>. On a mapping error the code releases that same address instead of
  the object.
\<close>

definition get_req_for_page :: "rdma_env \<Rightarrow> pfn \<Rightarrow> dma_dir \<Rightarrow> (kst, int \<times> req_ptr) kmon" where
  "get_req_for_page E page dir s =
     (case kmem_cache_alloc E (clock s) (\<lambda>r. reqs s r \<noteq> None) of
        None \<Rightarrow> Crash NullDeref
      | Some req \<Rightarrow>
          (let a = ib_dma_map_page E (clock s) (\<lambda>x. dma_maps s x \<noteq> None) page dir;
               r = \<lparr>req_done = init_completion, cqe_done = None, dma = a, req_page = Some page\<rparr>;
               s1 = s\<lparr>reqs := (reqs s)(req \<mapsto> r)\<rparr>
           in if ib_dma_mapping_error E a then Crash BadFree
              else Ret (0, req) (s1\<lparr>dma_maps := (dma_maps s)(a \<mapsto> (DmaPage page, dir))\<rparr>)))"

definition get_req_for_buf :: "rdma_env \<Rightarrow> dma_dir \<Rightarrow> (kst, int \<times> req_ptr) kmon" where
  "get_req_for_buf E dir s =
     (case kmem_cache_alloc E (clock s) (\<lambda>r. reqs s r \<noteq> None) of
        None \<Rightarrow> Crash NullDeref
      | Some req \<Rightarrow>
          (let a = ib_dma_map_single E (clock s) (\<lambda>x. dma_maps s x \<noteq> None) dir;
               r = \<lparr>req_done = init_completion, cqe_done = None, dma = a, req_page = None\<rparr>;
               s1 = s\<lparr>reqs := (reqs s)(req \<mapsto> r)\<rparr>
           in if ib_dma_mapping_error E a then Crash BadFree
              else Ret (0, req) (s1\<lparr>dma_maps := (dma_maps s)(a \<mapsto> (DmaServermr, dir))\<rparr>)))"

text \<open>Access to the object behind a request pointer.\<close>

definition get_req :: "req_ptr \<Rightarrow> (kst, rdma_req) kmon" where
  "get_req r s = (case reqs s r of None \<Rightarrow> Crash UseAfterFree | Some x \<Rightarrow> Ret x s)"

definition upd_req :: "req_ptr \<Rightarrow> (rdma_req \<Rightarrow> rdma_req) \<Rightarrow> (kst, unit) kmon" where
  "upd_req r f = kbind (get_req r) (\<lambda>x. kmodify (\<lambda>s. s\<lparr>reqs := (reqs s)(r \<mapsto> f x)\<rparr>))"

definition kmem_cache_free :: "req_ptr \<Rightarrow> (kst, unit) kmon" where
  "kmem_cache_free r s =
     (if reqs s r = None then Crash BadFree else Ret () (s\<lparr>reqs := (reqs s)(r := None)\<rparr>))"

definition ib_dma_unmap :: "u64 \<Rightarrow> dma_dir \<Rightarrow> (kst, unit) kmon" where
  "ib_dma_unmap a dir s =
     (case dma_maps s a of
        None \<Rightarrow> Crash BadFree
      | Some (b, d) \<Rightarrow>
          Ret () (s\<lparr>dma_maps := (dma_maps s)(a := None),
                   dma_warn := dma_warn s + (if d = dir then 0 else 1)\<rparr>))"

section \<open>Completion handlers\<close>

text \<open>The status of the completion is only logged.\<close>

definition sswap_rdma_write_done :: "qid \<Rightarrow> ib_wc \<Rightarrow> (kst, unit) kmon" where
  "sswap_rdma_write_done q wc =
     kbind (get_rdev q) (\<lambda>ibdev.
     kbind (get_req (wc_cqe wc)) (\<lambda>req.
     kthen (ib_dma_unmap (dma req) DMA_TO_DEVICE)
    (kthen (atomic_dec_pending q)
           (kmem_cache_free (wc_cqe wc)))))"

definition sswap_rdma_read_done :: "qid \<Rightarrow> ib_wc \<Rightarrow> (kst, unit) kmon" where
  "sswap_rdma_read_done q wc =
     kbind (get_rdev q) (\<lambda>ibdev.
     kbind (get_req (wc_cqe wc)) (\<lambda>req.
     kthen (ib_dma_unmap (dma req) DMA_FROM_DEVICE)
    (case req_page req of
       None \<Rightarrow> kcrash NullDeref
     | Some page \<Rightarrow>
         kthen (kmodify (upd_frame page SetPageUptodate))
        (kthen (kmodify (upd_frame page unlock_page))
        (kthen (upd_req (wc_cqe wc) (\<lambda>r. r\<lparr>req_done := complete (req_done r)\<rparr>))
        (kthen (atomic_dec_pending q)
               (kmem_cache_free (wc_cqe wc))))))))"

definition sswap_rdma_recv_remotemr_done :: "qid \<Rightarrow> ib_wc \<Rightarrow> (kst, unit) kmon" where
  "sswap_rdma_recv_remotemr_done q wc =
     kbind (get_rdev q) (\<lambda>ibdev.
     kbind (get_req (wc_cqe wc)) (\<lambda>qe.
       if wc_status wc \<noteq> 0 then kret ()
       else kthen (ib_dma_unmap (dma qe) DMA_FROM_DEVICE)
                  (upd_req (wc_cqe wc) (\<lambda>r. r\<lparr>req_done := complete_all (req_done r)\<rparr>))))"

section \<open>Posting\<close>

definition sswap_rdma_post_rdma ::
    "rdma_env \<Rightarrow> qid \<Rightarrow> req_ptr \<Rightarrow> u64 \<Rightarrow> ib_wr_opcode \<Rightarrow> (kst, int) kmon" where
  "sswap_rdma_post_rdma E q qe roffset op =
     kbind (get_req qe) (\<lambda>req.
     kthen (bug_on (dma req = 0))
    (kbind (get_rdev q) (\<lambda>d.
     kbind (get_servermr q) (\<lambda>mr.
     kthen (atomic_inc_pending q)
    (kthen (get_qp q)
    (\<lambda>s. let wr = \<lparr>wr_cqe = qe, sge_addr = dma req, sge_length = PAGE_SIZE,
                   sge_lkey = pd_local_dma_lkey d, opcode = op,
                   remote_addr = baseaddr mr + roffset, rkey = key mr\<rparr>;
             ret = ib_post_send E (clock s) q (sq s q) wr
         in if ret = 0 then Ret ret (s\<lparr>sq := (sq s)(q := sq s q @ [wr])\<rparr>)
            else Ret ret s))))))"

definition sswap_rdma_post_recv :: "rdma_env \<Rightarrow> qid \<Rightarrow> req_ptr \<Rightarrow> nat \<Rightarrow> (kst, int) kmon" where
  "sswap_rdma_post_recv E q qe bufsize =
     kbind (get_req qe) (\<lambda>req.
     kbind (get_rdev q) (\<lambda>d.
     kthen (get_qp q)
     (\<lambda>s. let wr = \<lparr>rwr_cqe = qe, rsge_addr = dma req, rsge_length = bufsize,
                   rsge_lkey = pd_local_dma_lkey d\<rparr>;
             ret = ib_post_recv E (clock s) q (rq s q) wr
         in if ret = 0 then Ret ret (s\<lparr>rq := (rq s)(q := rq s q @ [wr])\<rparr>)
            else Ret ret s)))"

section \<open>The verbs layer delivers completions\<close>

text \<open>
  The effect of a finished transfer, by the definition of RDMA read and write: a
  successful write puts the mapped page at the remote address, a successful read puts the
  remote page into the mapped one; a failed transfer leaves the residue the environment
  gives. A device that is kept from writing through a mapping leaves the page as it was. A successful receive puts the message into the buffer it was posted with.
\<close>

definition nic_transfer :: "rdma_env \<Rightarrow> send_wr \<Rightarrow> bool \<Rightarrow> kst \<Rightarrow> kst" where
  "nic_transfer E wr ok s =
     (case dma_maps s (sge_addr wr) of
        Some (DmaPage p, d) \<Rightarrow>
          (case opcode wr of
             IB_WR_RDMA_WRITE \<Rightarrow>
               s\<lparr>farmem := mem_write (farmem s) (remote_addr wr)
                   (if ok then pg_data (frames s p)
                    else dma_residue E wr (mem_read (farmem s) (remote_addr wr)))\<rparr>
           | IB_WR_RDMA_READ \<Rightarrow>
               upd_frame p (\<lambda>pg. pg\<lparr>pg_data :=
                   (if iommu_strict E \<and> d = DMA_TO_DEVICE then pg_data pg
                    else if ok then mem_read (farmem s) (remote_addr wr)
                    else dma_residue E wr (pg_data pg))\<rparr>) s)
      | _ \<Rightarrow> s)"

text \<open>The message of 16 bytes: little-endian base address and key, and padding.\<close>

definition le_word :: "u8 list \<Rightarrow> nat" where
  "le_word bs = foldr (\<lambda>b n. unat b + 256 * n) bs 0"

definition memregion_of_bytes :: "u8 list \<Rightarrow> sswap_rdma_memregion" where
  "memregion_of_bytes bs =
     \<lparr>baseaddr = of_nat (le_word (take 8 bs)), key = of_nat (le_word (take 4 (drop 8 bs)))\<rparr>"

definition nic_receive :: "rdma_env \<Rightarrow> recv_wr \<Rightarrow> bool \<Rightarrow> kst \<Rightarrow> kst" where
  "nic_receive E wr ok s =
     (case dma_maps s (rsge_addr wr) of
        Some (DmaServermr, d) \<Rightarrow>
          (if ok then s\<lparr>gctrl := map_option
             (\<lambda>c. c\<lparr>servermr := memregion_of_bytes (recv_message E)\<rparr>) (gctrl s)\<rparr> else s)
      | _ \<Rightarrow> s)"

definition nic_complete :: "rdma_env \<Rightarrow> qid \<Rightarrow> ib_wc \<Rightarrow> kst \<Rightarrow> kst" where
  "nic_complete E q wc s =
     (case find (\<lambda>w. wr_cqe w = wc_cqe wc) (sq s q) of
        Some wr \<Rightarrow>
          (nic_transfer E wr (wc_status wc = 0) s)\<lparr>sq := (sq s)(q := remove1 wr (sq s q))\<rparr>
      | None \<Rightarrow>
          (case find (\<lambda>w. rwr_cqe w = wc_cqe wc) (rq s q) of
             Some wr \<Rightarrow>
               (nic_receive E wr (wc_status wc = 0) s)\<lparr>rq := (rq s)(q := remove1 wr (rq s q))\<rparr>
           | None \<Rightarrow> s))"

text \<open>The call of \<open>wc->wr_cqe->done(cq, wc)\<close>.\<close>

definition cqe_dispatch :: "qid \<Rightarrow> ib_wc \<Rightarrow> (kst, unit) kmon" where
  "cqe_dispatch q wc =
     kbind (get_req (wc_cqe wc)) (\<lambda>req.
       case cqe_done req of
         None \<Rightarrow> kcrash NullDeref
       | Some Write_done \<Rightarrow> sswap_rdma_write_done q wc
       | Some Read_done \<Rightarrow> sswap_rdma_read_done q wc
       | Some Recv_remotemr_done \<Rightarrow> sswap_rdma_recv_remotemr_done q wc)"

fun process_wcs :: "rdma_env \<Rightarrow> qid \<Rightarrow> ib_wc list \<Rightarrow> (kst, unit) kmon" where
  "process_wcs E q [] = kret ()"
| "process_wcs E q (wc # wcs) =
     kthen (kmodify (nic_complete E q wc)) (kthen (cqe_dispatch q wc) (process_wcs E q wcs))"

definition ib_process_cq_direct :: "rdma_env \<Rightarrow> qid \<Rightarrow> nat \<Rightarrow> (kst, int) kmon" where
  "ib_process_cq_direct E q budget =
     kthen (get_cq q)
    (kbind (kgets (\<lambda>s. ib_poll_cq E (clock s) q (sq s q) (rq s q) budget)) (\<lambda>wcs.
     kthen (process_wcs E q wcs) (kret (int (length wcs)))))"

section \<open>Polling\<close>

text \<open>The value a loop guard reads: the counter of a queue that exists.\<close>

definition q_pending :: "qid \<Rightarrow> kst \<Rightarrow> int" where
  "q_pending q s = (case atomic_read_pending q s of Some (Inr (n, _)) \<Rightarrow> n | _ \<Rightarrow> 0)"

definition poll_target :: "rdma_env \<Rightarrow> qid \<Rightarrow> int \<Rightarrow> (kst, int) kmon" where
  "poll_target E q target =
     kthen (get_q q)
     (whileK (\<lambda>completed s. completed < target \<and> q_pending q s > 0)
        (\<lambda>completed.
           kthen (spin_lock_irqsave q)
          (kbind (ib_process_cq_direct E q (nat (target - completed))) (\<lambda>n.
           kthen (spin_unlock_irqrestore q)
          (kthen cpu_relax
                 (kret (completed + n))))))
        0)"

definition drain_queue :: "rdma_env \<Rightarrow> qid \<Rightarrow> (kst, int) kmon" where
  "drain_queue E q =
     kthen (get_q q)
    (kthen (whileK (\<lambda>_ s. q_pending q s > 0)
        (\<lambda>_.
           kthen (spin_lock_irqsave q)
          (kthen (ib_process_cq_direct E q 16)
          (kthen (spin_unlock_irqrestore q)
                 cpu_relax)))
        ())
     (kret 1))"

text \<open>\<open>ndelay\<close> lets time pass; the loop spins until the request's completion is signalled.\<close>

definition req_is_done :: "req_ptr \<Rightarrow> kst \<Rightarrow> bool" where
  "req_is_done qe s = (case reqs s qe of None \<Rightarrow> False | Some r \<Rightarrow> completion_done (req_done r))"

definition sswap_rdma_wait_completion :: "rdma_env \<Rightarrow> qid \<Rightarrow> req_ptr \<Rightarrow> (kst, unit) kmon" where
  "sswap_rdma_wait_completion E q qe =
     kthen cpu_relax
    (kthen (get_req qe)
     (whileK (\<lambda>_ s. \<not> req_is_done qe s)
        (\<lambda>_. kthen cpu_relax (kthen (ib_process_cq_direct E q 1) (kret ()))) ()))"

section \<open>Reads and writes\<close>

definition back_pressure :: "rdma_env \<Rightarrow> qid \<Rightarrow> int \<Rightarrow> int \<Rightarrow> (kst, unit) kmon" where
  "back_pressure E q limit target =
     kthen (get_q q)
     (whileK (\<lambda>_ s. q_pending q s \<ge> limit)
        (\<lambda>_. kbind (atomic_read_pending q) (\<lambda>inflight.
             kthen (bug_on (inflight > QP_MAX_SEND_WR))
            (kthen (poll_target E q target) (kret ())))) ())"

definition write_queue_add :: "rdma_env \<Rightarrow> qid \<Rightarrow> pfn \<Rightarrow> u64 \<Rightarrow> (kst, int) kmon" where
  "write_queue_add E q page roffset =
     kbind (get_rdev q) (\<lambda>d.
     kthen (back_pressure E q (QP_MAX_SEND_WR - 8) 2048)
    (kbind (get_req_for_page E page DMA_TO_DEVICE) (\<lambda>(ret, req).
       if ret \<noteq> 0 then kret ret
       else kthen (upd_req req (\<lambda>r. r\<lparr>cqe_done := Some Write_done\<rparr>))
                  (sswap_rdma_post_rdma E q req roffset IB_WR_RDMA_WRITE))))"

definition begin_read :: "rdma_env \<Rightarrow> qid \<Rightarrow> pfn \<Rightarrow> u64 \<Rightarrow> (kst, int) kmon" where
  "begin_read E q page roffset =
     kbind (get_rdev q) (\<lambda>d.
     kthen (back_pressure E q QP_MAX_SEND_WR 8)
    (kbind (get_req_for_page E page DMA_TO_DEVICE) (\<lambda>(ret, req).
       if ret \<noteq> 0 then kret ret
       else kthen (upd_req req (\<lambda>r. r\<lparr>cqe_done := Some Read_done\<rparr>))
                  (sswap_rdma_post_rdma E q req roffset IB_WR_RDMA_READ))))"

definition sswap_rdma_write :: "rdma_env \<Rightarrow> pfn \<Rightarrow> u64 \<Rightarrow> (kst, int) kmon" where
  "sswap_rdma_write E page roffset =
     kthen (vm_bug_on_page (debug_vm E) (\<lambda>pg. \<not> PageSwapCache pg) page)
    (kbind (kgets this_cpu) (\<lambda>cpu.
     kbind (sswap_rdma_get_queue cpu QP_WRITE_SYNC) (\<lambda>q.
     kbind (write_queue_add E q page roffset) (\<lambda>ret.
     kthen (bug_on (ret \<noteq> 0))
    (kthen (drain_queue E q)
           (kret ret))))))"

definition check_read_target :: "rdma_env \<Rightarrow> pfn \<Rightarrow> (kst, unit) kmon" where
  "check_read_target E page =
     kthen (vm_bug_on_page (debug_vm E) (\<lambda>pg. \<not> PageSwapCache pg) page)
    (kthen (vm_bug_on_page (debug_vm E) (\<lambda>pg. \<not> PageLocked pg) page)
           (vm_bug_on_page (debug_vm E) PageUptodate page))"

definition sswap_rdma_read_async :: "rdma_env \<Rightarrow> pfn \<Rightarrow> u64 \<Rightarrow> (kst, int) kmon" where
  "sswap_rdma_read_async E page roffset =
     kthen (check_read_target E page)
    (kbind (kgets this_cpu) (\<lambda>cpu.
     kbind (sswap_rdma_get_queue cpu QP_READ_ASYNC) (\<lambda>q.
     begin_read E q page roffset)))"

definition sswap_rdma_read_sync :: "rdma_env \<Rightarrow> pfn \<Rightarrow> u64 \<Rightarrow> (kst, int) kmon" where
  "sswap_rdma_read_sync E page roffset =
     kthen (check_read_target E page)
    (kbind (kgets this_cpu) (\<lambda>cpu.
     kbind (sswap_rdma_get_queue cpu QP_READ_SYNC) (\<lambda>q.
     begin_read E q page roffset)))"

definition sswap_rdma_poll_load :: "rdma_env \<Rightarrow> int \<Rightarrow> (kst, int) kmon" where
  "sswap_rdma_poll_load E cpu =
     kbind (sswap_rdma_get_queue (word_of_int cpu) QP_READ_SYNC) (\<lambda>q. drain_queue E q)"

text \<open>
  The softirq that serves the completion queue of the asynchronous reads
  (\<open>IB_POLL_SOFTIRQ\<close>): it delivers what the queue holds and runs the handlers.
\<close>

definition async_softirq :: "rdma_env \<Rightarrow> u32 \<Rightarrow> nat \<Rightarrow> (kst, int) kmon" where
  "async_softirq E cpu budget =
     kbind (sswap_rdma_get_queue cpu QP_READ_ASYNC) (\<lambda>q.
     kbind (ib_process_cq_direct E q budget) (\<lambda>n.
     kthen cpu_relax (kret n)))"

section \<open>Receiving the server's memory region\<close>

definition sswap_rdma_recv_remotemr :: "rdma_env \<Rightarrow> (kst, int) kmon" where
  "sswap_rdma_recv_remotemr E =
     kbind get_ctrl_rdev (\<lambda>d.
     kbind (get_req_for_buf E DMA_FROM_DEVICE) (\<lambda>(ret, qe).
       if ret \<noteq> 0 then kret ret
       else
         kthen (upd_req qe (\<lambda>r. r\<lparr>cqe_done := Some Recv_remotemr_done\<rparr>))
        (kbind (sswap_rdma_post_recv E 0 qe 16) (\<lambda>ret.
           if ret \<noteq> 0 then kthen (kmem_cache_free qe) (kret ret)
           else kthen (sswap_rdma_wait_completion E 0 qe)
               (kthen (kmem_cache_free qe) (kret ret))))))"

end
