(* ===== verification/Rdma_Inv.thy ===== *)
theory Rdma_Inv
  imports Rdma_Data
begin

text \<open>
  The invariant of the RDMA data path and the effect of one completion. \<open>finish\<close> describes,
  as a function on states, what the verbs layer and the completion handlers do together
  when the oldest request of a queue completes; the lemmas show that the code does exactly
  that and that the invariant survives.
\<close>

named_theorems rdma_simps \<open>evaluation of the queue accessors\<close>

section \<open>Queues as a list\<close>

definition qlist :: "kst \<Rightarrow> rdma_queue list" where
  "qlist s =
     (case gctrl s of
        None \<Rightarrow> []
      | Some c \<Rightarrow> (case queues c of None \<Rightarrow> [] | Some qs \<Rightarrow> qs))"

definition qof :: "qid \<Rightarrow> kst \<Rightarrow> rdma_queue" where
  "qof q s = qlist s ! q"

definition setq :: "qid \<Rightarrow> (rdma_queue \<Rightarrow> rdma_queue) \<Rightarrow> kst \<Rightarrow> kst" where
  "setq q f s = s\<lparr>gctrl := map_option (map_q q f) (gctrl s)\<rparr>"

abbreviation nq :: "kst \<Rightarrow> nat" where
  "nq s \<equiv> length (qlist s)"

lemma get_q_ok [rdma_simps]: "q < nq s \<Longrightarrow> get_q q s = Ret (qof q s) s"
  by (auto simp: get_q_def qlist_def qof_def split: option.splits)

lemma upd_q_ok [rdma_simps]: "q < nq s \<Longrightarrow> upd_q q f s = Ret () (setq q f s)"
  by (simp add: upd_q_def get_q_ok setq_def)

lemma qlist_setq [simp]: "qlist (setq q f s) = (qlist s)[q := f (qof q s)]"
  by (auto simp: qlist_def setq_def map_q_def qof_def split: option.splits)

lemma qof_setq [simp]: "q < nq s \<Longrightarrow> qof q' (setq q f s) = (if q' = q then f (qof q s) else qof q' s)"
  by (auto simp: qof_def nth_list_update)

lemma qof_setq_other [simp]: "q' \<noteq> q \<Longrightarrow> qof q' (setq q f s) = qof q' s"
  by (simp add: qof_def)

lemma setq_sel [simp]:
  "frames (setq q f s) = frames s" "numcpus (setq q f s) = numcpus s"
  "numqueues (setq q f s) = numqueues s" "req_cache (setq q f s) = req_cache s"
  "this_cpu (setq q f s) = this_cpu s" "reqs (setq q f s) = reqs s"
  "dma_maps (setq q f s) = dma_maps s" "dma_warn (setq q f s) = dma_warn s"
  "sq (setq q f s) = sq s" "rq (setq q f s) = rq s" "farmem (setq q f s) = farmem s"
  "clock (setq q f s) = clock s"
  by (simp_all add: setq_def)

lemma setq_setq [simp]: "setq q f (setq q g s) = setq q (\<lambda>x. f (g x)) s" if "q < nq s"
  using that
  by (cases "gctrl s"; cases "queues (the (gctrl s))")
    (auto simp: setq_def map_q_def qlist_def)

lemma qlist_upd [simp]:
  "qlist (s\<lparr>frames := a1\<rparr>) = qlist s" "qlist (s\<lparr>reqs := a2\<rparr>) = qlist s"
  "qlist (s\<lparr>dma_maps := a3\<rparr>) = qlist s" "qlist (s\<lparr>dma_warn := a4\<rparr>) = qlist s"
  "qlist (s\<lparr>sq := a5\<rparr>) = qlist s" "qlist (s\<lparr>farmem := a6\<rparr>) = qlist s"
  "qlist (s\<lparr>clock := a7\<rparr>) = qlist s" "qlist (s\<lparr>rq := a8\<rparr>) = qlist s"
  by (simp_all add: qlist_def)

lemma qlist_upd_frame [simp]: "qlist (upd_frame p f s) = qlist s"
  by (simp add: upd_frame_def)

lemma qof_upd [simp]:
  "qof q (s\<lparr>frames := a1\<rparr>) = qof q s" "qof q (s\<lparr>reqs := a2\<rparr>) = qof q s"
  "qof q (s\<lparr>dma_maps := a3\<rparr>) = qof q s" "qof q (s\<lparr>dma_warn := a4\<rparr>) = qof q s"
  "qof q (s\<lparr>sq := a5\<rparr>) = qof q s" "qof q (s\<lparr>farmem := a6\<rparr>) = qof q s"
  "qof q (s\<lparr>clock := a7\<rparr>) = qof q s" "qof q (s\<lparr>rq := a8\<rparr>) = qof q s"
  "qof q (upd_frame p f s) = qof q s"
  by (simp_all add: qof_def)

lemma upd_frame_sel [simp]:
  "gctrl (upd_frame p f s) = gctrl s" "numcpus (upd_frame p f s) = numcpus s"
  "numqueues (upd_frame p f s) = numqueues s" "req_cache (upd_frame p f s) = req_cache s"
  "this_cpu (upd_frame p f s) = this_cpu s" "reqs (upd_frame p f s) = reqs s"
  "dma_maps (upd_frame p f s) = dma_maps s" "dma_warn (upd_frame p f s) = dma_warn s"
  "sq (upd_frame p f s) = sq s" "rq (upd_frame p f s) = rq s" "farmem (upd_frame p f s) = farmem s"
  "clock (upd_frame p f s) = clock s"
  by (simp_all add: upd_frame_def)

text \<open>What every queue operation keeps of the controller: its device and the server's region.\<close>

definition dev_of :: "kst \<Rightarrow> sswap_rdma_dev option" where
  "dev_of s = (case gctrl s of None \<Rightarrow> None | Some c \<Rightarrow> rdev c)"

definition mr_of :: "kst \<Rightarrow> sswap_rdma_memregion" where
  "mr_of s = (case gctrl s of None \<Rightarrow> \<lparr>baseaddr = 0, key = 0\<rparr> | Some c \<Rightarrow> servermr c)"

lemma dev_of_setq [simp]: "dev_of (setq q f s) = dev_of s" "mr_of (setq q f s) = mr_of s"
  by (simp_all add: dev_of_def mr_of_def setq_def map_q_def split: option.splits)

lemma dev_of_cong: "gctrl s = gctrl t \<Longrightarrow> dev_of s = dev_of t" "gctrl s = gctrl t \<Longrightarrow> mr_of s = mr_of t"
  "gctrl s = gctrl t \<Longrightarrow> qlist s = qlist t" "gctrl s = gctrl t \<Longrightarrow> qof q s = qof q t"
  by (simp_all add: dev_of_def mr_of_def qlist_def qof_def)

lemma dev_of_upd [simp]:
  "dev_of (s\<lparr>frames := a1\<rparr>) = dev_of s" "dev_of (s\<lparr>reqs := a2\<rparr>) = dev_of s"
  "dev_of (s\<lparr>dma_maps := a3\<rparr>) = dev_of s" "dev_of (s\<lparr>dma_warn := a4\<rparr>) = dev_of s"
  "dev_of (s\<lparr>sq := a5\<rparr>) = dev_of s" "dev_of (s\<lparr>farmem := a6\<rparr>) = dev_of s"
  "dev_of (s\<lparr>clock := a7\<rparr>) = dev_of s"
  "mr_of (s\<lparr>frames := a1\<rparr>) = mr_of s" "mr_of (s\<lparr>reqs := a2\<rparr>) = mr_of s"
  "mr_of (s\<lparr>dma_maps := a3\<rparr>) = mr_of s" "mr_of (s\<lparr>dma_warn := a4\<rparr>) = mr_of s"
  "mr_of (s\<lparr>sq := a5\<rparr>) = mr_of s" "mr_of (s\<lparr>farmem := a6\<rparr>) = mr_of s"
  "mr_of (s\<lparr>clock := a7\<rparr>) = mr_of s"
  "dev_of (s\<lparr>rq := a8\<rparr>) = dev_of s" "mr_of (s\<lparr>rq := a8\<rparr>) = mr_of s"
  by (simp_all add: dev_of_def mr_of_def)

lemma gctrl_setq_None [simp]: "gctrl (setq q f s) = None \<longleftrightarrow> gctrl s = None"
  by (simp add: setq_def)

lemma nq_pos_gctrl: "q < nq s \<Longrightarrow> gctrl s \<noteq> None"
  by (auto simp: qlist_def split: option.splits)

section \<open>The invariant\<close>

fun done_of :: "ib_wr_opcode \<Rightarrow> cqe_fn" where
  "done_of IB_WR_RDMA_WRITE = Write_done"
| "done_of IB_WR_RDMA_READ = Read_done"

text \<open>A posted request owns a live request object, whose page is mapped at the address posted.\<close>

definition wr_ok :: "kst \<Rightarrow> send_wr \<Rightarrow> bool" where
  "wr_ok s w \<longleftrightarrow>
     (\<exists>x p. reqs s (wr_cqe w) = Some x \<and> dma x = sge_addr w \<and> req_page x = Some p
        \<and> cqe_done x = Some (done_of (opcode w))
        \<and> dma_maps s (sge_addr w) = Some (DmaPage p, DMA_TO_DEVICE)
        \<and> (opcode w = IB_WR_RDMA_READ \<longrightarrow> read_target (frames s p))
        \<and> sge_length w = PAGE_SIZE \<and> rkey w = key (mr_of s))"

text \<open>
  The pool: requests are posted once, every live request is posted on some queue, and live
  requests have DMA addresses and pages of their own. So nothing is leaked or shared.
\<close>

definition pool_ok :: "kst \<Rightarrow> bool" where
  "pool_ok s \<longleftrightarrow>
     (\<forall>q. distinct (map wr_cqe (sq s q)))
   \<and> (\<forall>q q' w w'. w \<in> set (sq s q) \<and> w' \<in> set (sq s q') \<and> wr_cqe w = wr_cqe w' \<longrightarrow> q = q')
   \<and> (\<forall>r x. reqs s r = Some x \<longrightarrow> (\<exists>q w. w \<in> set (sq s q) \<and> wr_cqe w = r))
   \<and> (\<forall>q w. w \<in> set (sq s q) \<longrightarrow> wr_ok s w)
   \<and> (\<forall>r x r' x'. reqs s r = Some x \<and> reqs s r' = Some x'
        \<and> (dma x = dma x' \<or> req_page x = req_page x') \<longrightarrow> r = r')
   \<and> (\<forall>a v. dma_maps s a = Some v \<longrightarrow> (\<exists>r x. reqs s r = Some x \<and> dma x = a))"

text \<open>A queue in service: its handles are set and its counter is the number of posted requests.\<close>

definition queue_ok :: "qid set \<Rightarrow> kst \<Rightarrow> qid \<Rightarrow> bool" where
  "queue_ok L s q \<longleftrightarrow>
     q_ctrl (qof q s) \<and> qp (qof q s) \<noteq> None \<and> cq (qof q s) \<noteq> None
   \<and> cq_lock (qof q s) = (q \<in> L)
   \<and> pending (qof q s) = int (length (sq s q)) \<and> int (length (sq s q)) \<le> QP_MAX_SEND_WR
   \<and> rq s q = []"

text \<open>
  The invariant while the locks of the queues in \<open>L\<close> are held. The number of processors is
  at most \<open>CONFIG_NR_CPUS\<close> of the shipped kernel configuration.
\<close>

definition rdma_core :: "qid set \<Rightarrow> kst \<Rightarrow> bool" where
  "rdma_core L s \<longleftrightarrow>
     dev_of s \<noteq> None \<and> 0 < numcpus s \<and> numcpus s \<le> 8192 \<and> numqueues s = numcpus s * 3
   \<and> int (nq s) = numqueues s
   \<and> (\<forall>q < nq s. queue_ok L s q)
   \<and> (\<forall>q \<ge> nq s. sq s q = [])
   \<and> pool_ok s
   \<and> (\<forall>q w. w \<in> set (sq s q) \<longrightarrow>
        opcode w = (if int q < 2 * numcpus s then IB_WR_RDMA_READ else IB_WR_RDMA_WRITE))"

text \<open>Between operations no lock is held and every write queue is empty.\<close>

definition rdma_inv :: "kst \<Rightarrow> bool" where
  "rdma_inv s \<longleftrightarrow> rdma_core {} s \<and> (\<forall>q. 2 * numcpus s \<le> int q \<longrightarrow> sq s q = [])"

text \<open>The pages that requests in flight refer to.\<close>

definition busy :: "kst \<Rightarrow> pfn set" where
  "busy s = {p. \<exists>r x. reqs s r = Some x \<and> req_page x = Some p}"

section \<open>One completion\<close>

definition wr_pfn :: "kst \<Rightarrow> send_wr \<Rightarrow> pfn" where
  "wr_pfn s w = (case dma_maps s (sge_addr w) of Some (DmaPage p, _) \<Rightarrow> p | _ \<Rightarrow> 0)"

text \<open>What a read puts into its page.\<close>

definition read_result :: "rdma_env \<Rightarrow> kst \<Rightarrow> send_wr \<Rightarrow> bool \<Rightarrow> page_data" where
  "read_result E s w ok =
     (if iommu_strict E then pg_data (frames s (wr_pfn s w))
      else if ok then mem_read (farmem s) (remote_addr w)
      else dma_residue E w (pg_data (frames s (wr_pfn s w))))"

definition write_result :: "rdma_env \<Rightarrow> kst \<Rightarrow> send_wr \<Rightarrow> bool \<Rightarrow> page_data" where
  "write_result E s w ok =
     (if ok then pg_data (frames s (wr_pfn s w))
      else dma_residue E w (mem_read (farmem s) (remote_addr w)))"

definition finish :: "rdma_env \<Rightarrow> qid \<Rightarrow> send_wr \<Rightarrow> bool \<Rightarrow> kst \<Rightarrow> kst" where
  "finish E q w ok s =
     setq q (\<lambda>qu. qu\<lparr>pending := pending qu - 1\<rparr>)
      (s\<lparr>sq := (sq s)(q := tl (sq s q)),
         reqs := (reqs s)(wr_cqe w := None),
         dma_maps := (dma_maps s)(sge_addr w := None),
         dma_warn := dma_warn s + (if opcode w = IB_WR_RDMA_READ then 1 else 0),
         farmem := (if opcode w = IB_WR_RDMA_READ then farmem s
                    else mem_write (farmem s) (remote_addr w) (write_result E s w ok)),
         frames := (if opcode w = IB_WR_RDMA_READ
                    then (frames s)(wr_pfn s w :=
                           page_filled (read_result E s w ok) (frames s (wr_pfn s w)))
                    else frames s)\<rparr>)"

lemma finish_sel [simp]:
  "sq (finish E q w ok s) = (sq s)(q := tl (sq s q))"
  "rq (finish E q w ok s) = rq s"
  "reqs (finish E q w ok s) = (reqs s)(wr_cqe w := None)"
  "dma_maps (finish E q w ok s) = (dma_maps s)(sge_addr w := None)"
  "dma_warn (finish E q w ok s) = dma_warn s + (if opcode w = IB_WR_RDMA_READ then 1 else 0)"
  "farmem (finish E q w ok s) = (if opcode w = IB_WR_RDMA_READ then farmem s
     else mem_write (farmem s) (remote_addr w) (write_result E s w ok))"
  "frames (finish E q w ok s) = (if opcode w = IB_WR_RDMA_READ
     then (frames s)(wr_pfn s w := page_filled (read_result E s w ok) (frames s (wr_pfn s w)))
     else frames s)"
  "numcpus (finish E q w ok s) = numcpus s" "numqueues (finish E q w ok s) = numqueues s"
  "req_cache (finish E q w ok s) = req_cache s" "this_cpu (finish E q w ok s) = this_cpu s"
  "clock (finish E q w ok s) = clock s"
  "qlist (finish E q w ok s) = (qlist s)[q := (qof q s)\<lparr>pending := pending (qof q s) - 1\<rparr>]"
  by (simp_all add: finish_def)

lemma finish_gctrl:
  "dev_of (finish E q w ok s) = dev_of s" "mr_of (finish E q w ok s) = mr_of s"
  by (simp_all add: finish_def)

lemma qof_finish:
  "q < nq s \<Longrightarrow> qof q' (finish E q w ok s) =
     (if q' = q then (qof q s)\<lparr>pending := pending (qof q s) - 1\<rparr> else qof q' s)"
  by (auto simp: qof_def nth_list_update)

lemma pool_okD:
  assumes "pool_ok s"
  shows "distinct (map wr_cqe (sq s q))"
    and "w \<in> set (sq s q) \<Longrightarrow> w' \<in> set (sq s q') \<Longrightarrow> wr_cqe w = wr_cqe w' \<Longrightarrow> q = q'"
    and "reqs s r = Some x \<Longrightarrow> \<exists>q w. w \<in> set (sq s q) \<and> wr_cqe w = r"
    and "w \<in> set (sq s q) \<Longrightarrow> wr_ok s w"
    and "reqs s r = Some x \<Longrightarrow> reqs s r' = Some x' \<Longrightarrow> dma x = dma x' \<Longrightarrow> r = r'"
    and "reqs s r = Some x \<Longrightarrow> reqs s r' = Some x' \<Longrightarrow> req_page x = req_page x' \<Longrightarrow> r = r'"
    and "dma_maps s a = Some v \<Longrightarrow> \<exists>r x. reqs s r = Some x \<and> dma x = a"
  using assms unfolding pool_ok_def by blast+

text \<open>A request posted on one queue is not the one at the head of another, nor further back.\<close>

lemma pool_other_cqe:
  assumes "pool_ok s" "sq s q = w # rest" "w' \<in> set (((sq s)(q := rest)) q')"
  shows "wr_cqe w' \<noteq> wr_cqe w" "w' \<in> set (sq s q')"
proof -
  show "w' \<in> set (sq s q')" using assms(2,3) by (auto split: if_splits)
  show "wr_cqe w' \<noteq> wr_cqe w"
  proof
    assume eq: "wr_cqe w' = wr_cqe w"
    have "q' = q"
      using pool_okD(2) [OF assms(1), of w' q' w q] \<open>w' \<in> set (sq s q')\<close> assms(2) eq by simp
    then have "w' \<in> set rest" using assms(3) by simp
    moreover have "wr_cqe w \<notin> wr_cqe ` set rest"
      using pool_okD(1) [OF assms(1), of q] assms(2) by simp
    ultimately show False using eq by (metis imageI)
  qed
qed

lemma pool_ok_finish:
  assumes P: "pool_ok s" and hd: "sq s q = w # rest"
  shows "pool_ok (finish E q w ok s)"
proof -
  note D = pool_okD [OF P]
  have w: "w \<in> set (sq s q)" using hd by simp
  obtain x p where x: "reqs s (wr_cqe w) = Some x" "dma x = sge_addr w" "req_page x = Some p"
      "dma_maps s (sge_addr w) = Some (DmaPage p, DMA_TO_DEVICE)"
    using D(4) [OF w] by (auto simp: wr_ok_def)
  have pfn: "wr_pfn s w = p" using x(4) by (simp add: wr_pfn_def)
  have ok: "wr_ok (finish E q w ok s) w'" if "w' \<in> set (((sq s)(q := rest)) q')" for w' q'
  proof -
    note n = pool_other_cqe [OF P hd that]
    obtain y p' where y: "reqs s (wr_cqe w') = Some y" "dma y = sge_addr w'" "req_page y = Some p'"
        "cqe_done y = Some (done_of (opcode w'))"
        "dma_maps s (sge_addr w') = Some (DmaPage p', DMA_TO_DEVICE)"
        "opcode w' = IB_WR_RDMA_READ \<Longrightarrow> read_target (frames s p')"
        "sge_length w' = PAGE_SIZE" "rkey w' = key (mr_of s)"
      using D(4) [OF n(2)] by (auto simp: wr_ok_def)
    have "sge_addr w' \<noteq> sge_addr w" "p' \<noteq> p"
      using D(5) [OF y(1) x(1)] D(6) [OF y(1) x(1)] n(1) x y by auto
    with y n(1) pfn show ?thesis by (auto simp: wr_ok_def finish_gctrl)
  qed
  show ?thesis
    unfolding pool_ok_def
  proof (intro conjI allI impI)
    show "distinct (map wr_cqe (sq (finish E q w ok s) q'))" for q'
      using D(1) [of q'] D(1) [of q] hd by simp
  next
    fix q1 q2 w1 w2
    assume "w1 \<in> set (sq (finish E q w ok s) q1) \<and> w2 \<in> set (sq (finish E q w ok s) q2)
      \<and> wr_cqe w1 = wr_cqe w2"
    then show "q1 = q2" using D(2) hd pool_other_cqe(2) [OF P hd] by (metis finish_sel(1) list.sel(3))
  next
    fix r y
    assume "reqs (finish E q w ok s) r = Some y"
    then have r: "reqs s r = Some y" "r \<noteq> wr_cqe w" by (auto split: if_splits)
    then obtain q' w' where w': "w' \<in> set (sq s q')" "wr_cqe w' = r" using D(3) by blast
    then have "w' \<in> set (((sq s)(q := rest)) q')" using hd r(2) by auto
    then show "\<exists>q' w'. w' \<in> set (sq (finish E q w ok s) q') \<and> wr_cqe w' = r"
      using w'(2) hd by (metis finish_sel(1) list.sel(3))
  next
    fix q' w'
    assume "w' \<in> set (sq (finish E q w ok s) q')"
    then show "wr_ok (finish E q w ok s) w'" using ok hd by simp
  next
    fix r1 x1 r2 x2
    assume "reqs (finish E q w ok s) r1 = Some x1 \<and> reqs (finish E q w ok s) r2 = Some x2
      \<and> (dma x1 = dma x2 \<or> req_page x1 = req_page x2)"
    then show "r1 = r2" using D(5,6) by (auto split: if_splits)
  next
    fix a v
    assume "dma_maps (finish E q w ok s) a = Some v"
    then have "dma_maps s a = Some v" "a \<noteq> sge_addr w" by (auto split: if_splits)
    then obtain r y where "reqs s r = Some y" "dma y = a" using D(7) by blast
    moreover have "r \<noteq> wr_cqe w" using calculation x(1,2) \<open>a \<noteq> sge_addr w\<close> by auto
    ultimately show "\<exists>r x. reqs (finish E q w ok s) r = Some x \<and> dma x = a" by auto
  qed
qed

lemma rdma_coreD:
  assumes "rdma_core L s"
  shows "dev_of s \<noteq> None" "0 < numcpus s" "numcpus s \<le> 8192" "numqueues s = numcpus s * 3"
    and "int (nq s) = numcpus s * 3"
    and "q < nq s \<Longrightarrow> queue_ok L s q"
    and "sq s q \<noteq> [] \<Longrightarrow> q < nq s"
    and "pool_ok s"
    and "w \<in> set (sq s q) \<Longrightarrow>
      opcode w = (if int q < 2 * numcpus s then IB_WR_RDMA_READ else IB_WR_RDMA_WRITE)"
  using assms not_less unfolding rdma_core_def by (auto dest: leI)

lemma queue_okD:
  assumes "queue_ok L s q"
  shows "q_ctrl (qof q s)" "qp (qof q s) \<noteq> None" "cq (qof q s) \<noteq> None"
    "cq_lock (qof q s) = (q \<in> L)" "pending (qof q s) = int (length (sq s q))"
    "int (length (sq s q)) \<le> QP_MAX_SEND_WR" "rq s q = []"
  using assms by (simp_all add: queue_ok_def)

lemma rdma_core_finish:
  assumes C: "rdma_core L s" and hd: "sq s q = w # rest"
  shows "rdma_core L (finish E q w ok s)"
proof -
  note D = rdma_coreD [OF C]
  have q: "q < nq s" using D(7) [of q] hd by simp
  have Q: "queue_ok L (finish E q w ok s) q'" if "q' < nq s" for q'
    using D(6) [OF that] D(6) [OF q] hd by (auto simp: queue_ok_def qof_finish [OF q])
  have B: "sq s q' = []" if "nq s \<le> q'" for q'
    using D(7) [of q'] that by (metis not_less)
  show ?thesis
    unfolding rdma_core_def
  proof (intro conjI allI impI)
    fix q' w'
    assume "w' \<in> set (sq (finish E q w ok s) q')"
    then have "w' \<in> set (sq s q')" using pool_other_cqe(2) [OF D(8) hd] hd by (metis finish_sel(1) list.sel(3))
    then show "opcode w' = (if int q' < 2 * numcpus (finish E q w ok s)
      then IB_WR_RDMA_READ else IB_WR_RDMA_WRITE)" using D(9) by simp
  qed (use D Q B q pool_ok_finish [OF D(8) hd] in \<open>auto simp: finish_gctrl\<close>)
qed

lemma get_rdev_ok [rdma_simps]:
  "q < nq s \<Longrightarrow> q_ctrl (qof q s) \<Longrightarrow> dev_of s = Some d \<Longrightarrow> get_rdev q s = Ret d s"
  by (auto simp: get_rdev_def get_q_ok get_ctrl_rdev_def dev_of_def split: option.splits)

lemma get_servermr_ok [rdma_simps]:
  "q < nq s \<Longrightarrow> q_ctrl (qof q s) \<Longrightarrow> get_servermr q s = Ret (mr_of s) s"
  using nq_pos_gctrl [of q s]
  by (auto simp: get_servermr_def get_q_ok mr_of_def split: option.splits)

lemma get_handles_ok [rdma_simps]:
  "q < nq s \<Longrightarrow> qp (qof q s) = Some h \<Longrightarrow> get_qp q s = Ret h s"
  "q < nq s \<Longrightarrow> cq (qof q s) = Some h \<Longrightarrow> get_cq q s = Ret h s"
  by (simp_all add: get_qp_def get_cq_def get_q_ok)

lemma nic_transfer_sel [simp]:
  "gctrl (nic_transfer E w ok s) = gctrl s" "numcpus (nic_transfer E w ok s) = numcpus s"
  "numqueues (nic_transfer E w ok s) = numqueues s" "req_cache (nic_transfer E w ok s) = req_cache s"
  "this_cpu (nic_transfer E w ok s) = this_cpu s" "reqs (nic_transfer E w ok s) = reqs s"
  "dma_maps (nic_transfer E w ok s) = dma_maps s" "dma_warn (nic_transfer E w ok s) = dma_warn s"
  "sq (nic_transfer E w ok s) = sq s" "rq (nic_transfer E w ok s) = rq s"
  "clock (nic_transfer E w ok s) = clock s"
  by (auto simp: nic_transfer_def split: option.splits dma_buf.splits ib_wr_opcode.splits)

lemma qlist_nic_transfer [simp]:
  "qlist (nic_transfer E w ok s) = qlist s" "qof q (nic_transfer E w ok s) = qof q s"
  "dev_of (nic_transfer E w ok s) = dev_of s" "mr_of (nic_transfer E w ok s) = mr_of s"
  by (auto intro: dev_of_cong)

text \<open>The verbs layer and the handler together do what \<open>finish\<close> says.\<close>

lemma dispatch_finish:
  assumes C: "rdma_core L s" and hd: "sq s q = w # rest" and wc: "wc_cqe wc = wr_cqe w"
  shows "cqe_dispatch q wc (nic_complete E q wc s) = Ret () (finish E q w (wc_status wc = 0) s)"
proof -
  note D = rdma_coreD [OF C]
  have q: "q < nq s" using D(7) [of q] hd by simp
  note Q = queue_okD [OF D(6) [OF q]]
  obtain d where d: "dev_of s = Some d" using D(1) by auto
  obtain x p where x: "reqs s (wr_cqe w) = Some x" "dma x = sge_addr w" "req_page x = Some p"
      "cqe_done x = Some (done_of (opcode w))"
      "dma_maps s (sge_addr w) = Some (DmaPage p, DMA_TO_DEVICE)"
    using pool_okD(4) [OF D(8), of w q] hd by (auto simp: wr_ok_def)
  let ?s1 = "(nic_transfer E w (wc_status wc = 0) s)\<lparr>sq := (sq s)(q := rest)\<rparr>"
  have s1: "nic_complete E q wc s = ?s1"
    using hd wc by (simp add: nic_complete_def)
  have dev1: "dev_of ?s1 = Some d"
    using d by (simp add: dev_of_def)
  have pend: "wrap32 (pending (qof q s) - 1) = pending (qof q s) - 1"
    using Q(5,6) by (intro wrap32_id) (auto simp: QP_MAX_SEND_WR_def)
  note ev = get_req_def get_rdev_ok [of q] atomic_dec_pending_def upd_q_ok kmem_cache_free_def
    ib_dma_unmap_def upd_req_def
  show ?thesis
  proof (cases "opcode w")
    case IB_WR_RDMA_WRITE
    show ?thesis
      using x q Q(1) dev1 wc IB_WR_RDMA_WRITE hd pend
      by (simp add: s1 cqe_dispatch_def sswap_rdma_write_done_def ev)
        (auto intro!: kst.equality simp: setq_def map_q_def finish_def nic_transfer_def write_result_def
          wr_pfn_def qof_def qlist_def split: option.splits)
  next
    case IB_WR_RDMA_READ
    show ?thesis
      using x q Q(1) dev1 wc IB_WR_RDMA_READ hd pend
      by (simp add: s1 cqe_dispatch_def sswap_rdma_read_done_def ev)
        (auto intro!: kst.equality simp: setq_def map_q_def finish_def nic_transfer_def read_result_def
          wr_pfn_def qof_def qlist_def upd_frame_def split: option.splits)
  qed
qed

end
