(* ===== verification/Rdma_Poll.thy ===== *)
theory Rdma_Poll
  imports Rdma_Inv
begin

text \<open>
  What the driver relies on from the verbs layer and the allocators, and the polling loops:
  they end, keep the invariant and complete a prefix of the posted requests in order.
\<close>

section \<open>Hypotheses on the environment\<close>

text \<open>
  Requests of one queue complete in the order they were posted, each is reported once, and
  a poll reports at most as many as its budget.
\<close>

definition nic_ordered :: "rdma_env \<Rightarrow> bool" where
  "nic_ordered E \<longleftrightarrow>
     (\<forall>t q ws n. \<exists>k \<le> n. map wc_cqe (ib_poll_cq E t q ws [] n) = map wr_cqe (take k ws))"

text \<open>A queue with posted requests reports one of them at some later time.\<close>

definition nic_live :: "rdma_env \<Rightarrow> bool" where
  "nic_live E \<longleftrightarrow>
     (\<forall>t q ws n. ws \<noteq> [] \<and> 0 < n \<longrightarrow> (\<exists>t' \<ge> t. ib_poll_cq E t' q ws [] n \<noteq> []))"

text \<open>A send queue with room accepts a request.\<close>

definition nic_accepts :: "rdma_env \<Rightarrow> bool" where
  "nic_accepts E \<longleftrightarrow>
     (\<forall>t q ws w. int (length ws) < QP_MAX_SEND_WR \<longrightarrow> ib_post_send E t q ws w = 0)"

text \<open>
  The request cache and the DMA layer are not exhausted: they give fresh objects and fresh,
  non-zero addresses.
\<close>

definition mem_ok :: "rdma_env \<Rightarrow> bool" where
  "mem_ok E \<longleftrightarrow>
     (\<forall>t live. finite {r. live r} \<longrightarrow> (\<exists>r. kmem_cache_alloc E t live = Some r \<and> \<not> live r))
   \<and> (\<forall>t m p d. card {a. m a} \<le> 2 ^ 30 \<longrightarrow>
        (let a = ib_dma_map_page E t m p d
         in a \<noteq> 0 \<and> \<not> m a \<and> \<not> ib_dma_mapping_error E a))"

definition nic_ok :: "rdma_env \<Rightarrow> bool" where
  "nic_ok E \<longleftrightarrow> nic_ordered E \<and> nic_live E \<and> nic_accepts E \<and> mem_ok E"

text \<open>
  A connection without transport errors to a server region of \<open>size\<close> bytes: requests
  inside the region succeed, and the DMA layer lets the device write through the mappings
  the driver makes.
\<close>

definition in_region :: "sswap_rdma_memregion \<Rightarrow> nat \<Rightarrow> send_wr \<Rightarrow> bool" where
  "in_region mr nbytes w \<longleftrightarrow>
     rkey w = key mr \<and> sge_length w = PAGE_SIZE
   \<and> unat (remote_addr w - baseaddr mr) + unat PAGE_SIZE \<le> nbytes"

text \<open>
  The outcomes a queue reports for its requests, as a relation between a request and
  success; a poll may be made while several requests are outstanding.
\<close>

definition nic_outcome :: "rdma_env \<Rightarrow> (send_wr \<Rightarrow> bool \<Rightarrow> bool) \<Rightarrow> bool" where
  "nic_outcome E good \<longleftrightarrow>
     (\<forall>t q ws n wc w. distinct (map wr_cqe ws) \<and> wc \<in> set (ib_poll_cq E t q ws [] n) \<and> w \<in> set ws
        \<and> wr_cqe w = wc_cqe wc \<longrightarrow> good w (wc_status wc = 0))"

definition region_succeeds :: "sswap_rdma_memregion \<Rightarrow> nat \<Rightarrow> send_wr \<Rightarrow> bool \<Rightarrow> bool" where
  "region_succeeds mr nbytes w ok \<longleftrightarrow> (in_region mr nbytes w \<longrightarrow> ok)"

section \<open>Several completions\<close>

fun finish_all :: "rdma_env \<Rightarrow> qid \<Rightarrow> (send_wr \<times> bool) list \<Rightarrow> kst \<Rightarrow> kst" where
  "finish_all E q [] s = s"
| "finish_all E q ((w, ok) # ws) s = finish_all E q ws (finish E q w ok s)"

lemma finish_all_append: "finish_all E q (xs @ ys) s = finish_all E q ys (finish_all E q xs s)"
  by (induction xs arbitrary: s) auto

lemma finish_clock: "finish E q w ok (s\<lparr>clock := t\<rparr>) = (finish E q w ok s)\<lparr>clock := t\<rparr>"
  by (simp add: finish_def setq_def wr_pfn_def read_result_def write_result_def)

lemma finish_all_clock: "finish_all E q ws (s\<lparr>clock := t\<rparr>) = (finish_all E q ws s)\<lparr>clock := t\<rparr>"
  by (induction ws arbitrary: s) (auto simp: finish_clock)

lemma finish_all_sel [simp]:
  "numcpus (finish_all E q ws s) = numcpus s" "numqueues (finish_all E q ws s) = numqueues s"
  "this_cpu (finish_all E q ws s) = this_cpu s" "clock (finish_all E q ws s) = clock s"
  "nq (finish_all E q ws s) = nq s" "dev_of (finish_all E q ws s) = dev_of s"
  "mr_of (finish_all E q ws s) = mr_of s" "req_cache (finish_all E q ws s) = req_cache s"
  by (induction ws arbitrary: s) (auto simp: finish_gctrl)

lemma finish_all_sq:
  "length ws \<le> length (sq s q) \<Longrightarrow>
     sq (finish_all E q ws s) = (sq s)(q := drop (length ws) (sq s q))"
proof (induction ws arbitrary: s)
  case (Cons a ws)
  then show ?case by (cases a; cases "sq s q") auto
qed simp

lemma rdma_core_finish_all:
  assumes "rdma_core L s" "length oks \<le> length (sq s q)"
  shows "rdma_core L (finish_all E q (zip (sq s q) oks) s)"
  using assms
proof (induction oks arbitrary: s)
  case (Cons ok oks)
  then obtain w rest where hd: "sq s q = w # rest" by (cases "sq s q") auto
  have "rdma_core L (finish E q w ok s)" using Cons.prems(1) hd by (rule rdma_core_finish)
  then have "rdma_core L (finish_all E q (zip (sq (finish E q w ok s) q) oks) (finish E q w ok s))"
    using Cons.prems(2) hd by (intro Cons.IH) auto
  then show ?case using hd by simp
qed simp

lemma process_wcs_finish_all:
  assumes "rdma_core L s" "map wc_cqe wcs = map wr_cqe (take (length wcs) (sq s q))"
  shows "process_wcs E q wcs s =
    Ret () (finish_all E q (zip (sq s q) (map (\<lambda>wc. wc_status wc = 0) wcs)) s)"
  using assms
proof (induction wcs arbitrary: s)
  case (Cons wc wcs)
  then obtain w rest where hd: "sq s q = w # rest" by (cases "sq s q") auto
  have cqe: "wc_cqe wc = wr_cqe w" using Cons.prems(2) hd by simp
  let ?s1 = "finish E q w (wc_status wc = 0) s"
  have 1: "cqe_dispatch q wc (nic_complete E q wc s) = Ret () ?s1"
    using Cons.prems(1) hd cqe by (rule dispatch_finish)
  have "rdma_core L ?s1" using Cons.prems(1) hd by (rule rdma_core_finish)
  then have "process_wcs E q wcs ?s1 =
      Ret () (finish_all E q (zip (sq ?s1 q) (map (\<lambda>wc. wc_status wc = 0) wcs)) ?s1)"
    using Cons.prems(2) hd by (intro Cons.IH) auto
  with 1 show ?case using hd by simp
qed simp

section \<open>Locking around a poll\<close>

abbreviation lock_q :: "qid \<Rightarrow> kst \<Rightarrow> kst" where
  "lock_q q s \<equiv> setq q (\<lambda>qu. qu\<lparr>cq_lock := True\<rparr>) s"

abbreviation unlock_q :: "qid \<Rightarrow> kst \<Rightarrow> kst" where
  "unlock_q q s \<equiv> setq q (\<lambda>qu. qu\<lparr>cq_lock := False\<rparr>) s"

lemma setq_gctrl: "gctrl (setq q f s) = map_option (map_q q f) (gctrl s)"
  by (simp add: setq_def)

lemma map_q_commute:
  assumes "\<And>x. f (g x) = g (f x)"
  shows "map_q q f (map_q q g c) = map_q q g (map_q q f c)"
proof (cases "queues c")
  case (Some qs)
  then show ?thesis using assms by (cases "q < length qs") (simp_all add: map_q_def list_update_beyond)
qed (simp add: map_q_def)

lemma setq_commute:
  "(\<And>x. f (g x) = g (f x)) \<Longrightarrow> setq q f (setq q g s) = setq q g (setq q f s)"
  using map_q_commute [of f g q] by (simp add: setq_def option.map_comp comp_def)

lemma finish_lock: "finish E q w ok (lock_q q s) = lock_q q (finish E q w ok s)"
  unfolding finish_def
  by (subst setq_commute [symmetric])
    (simp_all add: setq_def wr_pfn_def read_result_def write_result_def)

lemma finish_all_lock: "finish_all E q ws (lock_q q s) = lock_q q (finish_all E q ws s)"
  by (induction ws arbitrary: s) (auto simp: finish_lock)

lemma unlock_lock_id:
  assumes "q < nq s" "\<not> cq_lock (qof q s)"
  shows "unlock_q q (lock_q q s) = s"
proof -
  have "(qof q s)\<lparr>cq_lock := False\<rparr> = qof q s" using assms(2) by simp
  then have "(qlist s)[q := (qlist s ! q)\<lparr>cq_lock := False\<rparr>] = qlist s" by (simp add: qof_def)
  with assms(1) show ?thesis
    by (intro kst.equality)
      (auto simp: setq_def map_q_def qlist_def split: option.splits)
qed

lemma wr_ok_cong:
  "reqs s = reqs t \<Longrightarrow> dma_maps s = dma_maps t \<Longrightarrow> frames s = frames t \<Longrightarrow> mr_of s = mr_of t \<Longrightarrow>
   wr_ok s w = wr_ok t w"
  by (simp add: wr_ok_def)

lemma pool_ok_cong:
  "reqs s = reqs t \<Longrightarrow> dma_maps s = dma_maps t \<Longrightarrow> frames s = frames t \<Longrightarrow> mr_of s = mr_of t \<Longrightarrow>
   sq s = sq t \<Longrightarrow> pool_ok s = pool_ok t"
  using wr_ok_cong [of s t] by (simp add: pool_ok_def)

lemma rdma_core_lock:
  assumes "rdma_core {} s" "q < nq s"
  shows "rdma_core {q} (lock_q q s)"
proof -
  have "pool_ok (lock_q q s) = pool_ok s" by (rule pool_ok_cong) simp_all
  with assms show ?thesis by (auto simp: rdma_core_def queue_ok_def)
qed

lemma rdma_core_clock: "rdma_core L (s\<lparr>clock := t\<rparr>) = rdma_core L s"
proof -
  have "mr_of (s\<lparr>clock := t\<rparr>) = mr_of s" "dev_of (s\<lparr>clock := t\<rparr>) = dev_of s"
    by (auto intro: dev_of_cong)
  moreover have "pool_ok (s\<lparr>clock := t\<rparr>) = pool_ok s"
    using calculation by (intro pool_ok_cong) simp_all
  ultimately show ?thesis by (simp add: rdma_core_def queue_ok_def)
qed

text \<open>The completions a poll delivers now, as a list of successes.\<close>

definition oks_now :: "rdma_env \<Rightarrow> qid \<Rightarrow> nat \<Rightarrow> kst \<Rightarrow> bool list" where
  "oks_now E q n s = map (\<lambda>wc. wc_status wc = 0) (ib_poll_cq E (clock s) q (sq s q) [] n)"

definition after_poll :: "rdma_env \<Rightarrow> qid \<Rightarrow> nat \<Rightarrow> kst \<Rightarrow> kst" where
  "after_poll E q n s = finish_all E q (zip (sq s q) (oks_now E q n s)) s"

lemma nic_orderedD:
  fixes t q ws n
  assumes "nic_ordered E"
  defines "wcs \<equiv> ib_poll_cq E t q ws [] n"
  shows "length wcs \<le> n" "length wcs \<le> length ws"
    "map wc_cqe wcs = map wr_cqe (take (length wcs) ws)"
proof -
  obtain k where k: "k \<le> n" "map wc_cqe wcs = map wr_cqe (take k ws)"
    using assms unfolding nic_ordered_def wcs_def by blast
  then have len: "length wcs = min (length ws) k" by (metis length_map length_take)
  with k show "length wcs \<le> n" "length wcs \<le> length ws"
    "map wc_cqe wcs = map wr_cqe (take (length wcs) ws)" by (auto simp: min_def)
qed

lemma oks_now_length:
  assumes "nic_ordered E"
  shows "length (oks_now E q n s) \<le> n" "length (oks_now E q n s) \<le> length (sq s q)"
  using nic_orderedD [OF assms, of "clock s" q "sq s q" n] by (simp_all add: oks_now_def)

text \<open>The steps of one round: take the lock, process, release the lock.\<close>

lemma poll_round:
  assumes C: "rdma_core {} s" and q: "q < nq s" and N: "nic_ordered E"
  shows "spin_lock_irqsave q s = Ret () (lock_q q s)"
    and "ib_process_cq_direct E q n (lock_q q s) =
           Ret (int (length (oks_now E q n s))) (lock_q q (after_poll E q n s))"
    and "spin_unlock_irqrestore q (lock_q q (after_poll E q n s)) = Ret () (after_poll E q n s)"
    and "rdma_core {} (after_poll E q n s)"
proof -
  note Q = queue_okD [OF rdma_coreD(6) [OF C q]]
  have nq: "nq (after_poll E q n s) = nq s" by (simp add: after_poll_def)
  note ord = nic_orderedD [OF N, of "clock s" q "sq s q" n]
  show core: "rdma_core {} (after_poll E q n s)"
    unfolding after_poll_def
    by (rule rdma_core_finish_all [OF C]) (use ord in \<open>simp add: oks_now_def\<close>)
  show "spin_lock_irqsave q s = Ret () (lock_q q s)"
    using q Q by (simp add: spin_lock_irqsave_def rdma_simps)
  have "process_wcs E q (ib_poll_cq E (clock s) q (sq s q) [] n) (lock_q q s) =
      Ret () (lock_q q (after_poll E q n s))"
    using process_wcs_finish_all [OF rdma_core_lock [OF C q], of _ q] ord(3)
    by (simp add: after_poll_def oks_now_def finish_all_lock)
  moreover obtain h where "cq (qof q s) = Some h" using Q by auto
  ultimately show "ib_process_cq_direct E q n (lock_q q s) =
      Ret (int (length (oks_now E q n s))) (lock_q q (after_poll E q n s))"
    using q Q by (simp add: ib_process_cq_direct_def get_handles_ok oks_now_def)
  have "\<not> cq_lock (qof q (after_poll E q n s))"
    using queue_okD(4) [OF rdma_coreD(6) [OF core]] q nq by simp
  then show "spin_unlock_irqrestore q (lock_q q (after_poll E q n s)) = Ret () (after_poll E q n s)"
    using q nq unlock_lock_id [of q "after_poll E q n s"]
    by (simp add: spin_unlock_irqrestore_def upd_q_ok)
qed

section \<open>The loops\<close>

text \<open>
  \<open>polled E good q s s'\<close>: from \<open>s\<close>, some requests at the head of queue \<open>q\<close> have been
  completed, with outcomes in the relation \<open>good\<close>, and nothing else but the time has changed.
\<close>

definition polled :: "rdma_env \<Rightarrow> (send_wr \<Rightarrow> bool \<Rightarrow> bool) \<Rightarrow> qid \<Rightarrow> kst \<Rightarrow> kst \<Rightarrow> bool" where
  "polled E good q s s' \<longleftrightarrow>
     (\<exists>oks. length oks \<le> length (sq s q)
        \<and> (\<forall>i < length oks. good (sq s q ! i) (oks ! i))
        \<and> s' = (finish_all E q (zip (sq s q) oks) s)\<lparr>clock := clock s'\<rparr>)"

lemma polledI:
  assumes "length oks \<le> length (sq s q)" "\<forall>i < length oks. good (sq s q ! i) (oks ! i)"
  shows "polled E good q s ((finish_all E q (zip (sq s q) oks) s)\<lparr>clock := t\<rparr>)"
  using assms unfolding polled_def by (intro exI [of _ oks]) simp

lemma polled_clock: "polled E good q s (s\<lparr>clock := t\<rparr>)"
  using polledI [of "[]" s q good E t] by simp

lemma polled_refl: "polled E good q s s"
  using polled_clock [of E good q s "clock s"] by simp

lemma polled_sq:
  assumes "polled E good q s s'"
  shows "\<exists>n \<le> length (sq s q). sq s' = (sq s)(q := drop n (sq s q))"
proof -
  obtain oks where o: "length oks \<le> length (sq s q)"
      "s' = (finish_all E q (zip (sq s q) oks) s)\<lparr>clock := clock s'\<rparr>"
    using assms unfolding polled_def by blast
  have "sq s' = sq (finish_all E q (zip (sq s q) oks) s)" by (subst o(2)) simp
  also have "\<dots> = (sq s)(q := drop (length oks) (sq s q))"
    using finish_all_sq [of "zip (sq s q) oks" s q E] o(1) by simp
  finally show ?thesis using o(1) by blast
qed

lemma polled_sel:
  assumes "polled E good q s s'"
  shows "numcpus s' = numcpus s" "this_cpu s' = this_cpu s" "nq s' = nq s" "mr_of s' = mr_of s"
    "dev_of s' = dev_of s"
proof -
  obtain oks where o: "s' = (finish_all E q (zip (sq s q) oks) s)\<lparr>clock := clock s'\<rparr>"
    using assms unfolding polled_def by blast
  let ?f = "finish_all E q (zip (sq s q) oks) s"
  have g: "gctrl s' = gctrl ?f" by (subst o) simp
  show "numcpus s' = numcpus s" by (subst o) simp
  show "this_cpu s' = this_cpu s" by (subst o) simp
  show "nq s' = nq s" "mr_of s' = mr_of s" "dev_of s' = dev_of s"
    using dev_of_cong [OF g] by simp_all
qed

lemma polled_core:
  assumes "polled E good q s s'" "rdma_core L s"
  shows "rdma_core L s'"
proof -
  obtain oks where o: "length oks \<le> length (sq s q)"
      "s' = (finish_all E q (zip (sq s q) oks) s)\<lparr>clock := clock s'\<rparr>"
    using assms unfolding polled_def by blast
  then show ?thesis using rdma_core_finish_all [OF assms(2) o(1)] by (metis rdma_core_clock)
qed

lemma polled_trans:
  assumes "polled E good q s s1" "polled E good q s1 s2"
  shows "polled E good q s s2"
proof -
  obtain o1 where o1: "length o1 \<le> length (sq s q)" "\<forall>i < length o1. good (sq s q ! i) (o1 ! i)"
      "s1 = (finish_all E q (zip (sq s q) o1) s)\<lparr>clock := clock s1\<rparr>"
    using assms(1) unfolding polled_def by blast
  obtain o2 where o2: "length o2 \<le> length (sq s1 q)" "\<forall>i < length o2. good (sq s1 q ! i) (o2 ! i)"
      "s2 = (finish_all E q (zip (sq s1 q) o2) s1)\<lparr>clock := clock s2\<rparr>"
    using assms(2) unfolding polled_def by blast
  let ?k = "length o1"
  have "sq s1 = sq (finish_all E q (zip (sq s q) o1) s)" by (subst o1(3)) simp
  also have "\<dots> = (sq s)(q := drop ?k (sq s q))"
    using finish_all_sq [of "zip (sq s q) o1" s q E] o1(1) by simp
  finally have sq1: "sq s1 q = drop ?k (sq s q)" by simp
  have len: "length (o1 @ o2) \<le> length (sq s q)" using o1(1) o2(1) sq1 by simp
  have good: "\<forall>i < length (o1 @ o2). good (sq s q ! i) ((o1 @ o2) ! i)"
  proof (intro allI impI)
    fix i assume i: "i < length (o1 @ o2)"
    show "good (sq s q ! i) ((o1 @ o2) ! i)"
    proof (cases "i < ?k")
      case True
      then show ?thesis using o1(2) by (simp add: nth_append)
    next
      case False
      then have "sq s q ! i = sq s1 q ! (i - ?k)" using sq1 o1(1) by simp
      then show ?thesis using False i o2(2) by (simp add: nth_append)
    qed
  qed
  have "zip (sq s q) (o1 @ o2) = zip (sq s q) o1 @ zip (sq s1 q) o2"
    using o1(1) sq1 by (simp add: zip_append2 zip_take_length)
  then have "finish_all E q (zip (sq s q) (o1 @ o2)) s =
      finish_all E q (zip (sq s1 q) o2) (finish_all E q (zip (sq s q) o1) s)"
    by (simp add: finish_all_append)
  then have "finish_all E q (zip (sq s1 q) o2) s1 =
      (finish_all E q (zip (sq s q) (o1 @ o2)) s)\<lparr>clock := clock s1\<rparr>"
    using o1(3) finish_all_clock by metis
  then have "s2 = (finish_all E q (zip (sq s q) (o1 @ o2)) s)\<lparr>clock := clock s2\<rparr>"
    using o2(3) by simp
  then show ?thesis using polledI [OF len good] by metis
qed

lemma polled_once:
  assumes N: "nic_ordered E" "nic_outcome E good" and C: "rdma_core {} s" and q: "q < nq s"
  shows "polled E good q s ((after_poll E q n s)\<lparr>clock := t\<rparr>)"
  unfolding after_poll_def
proof (rule polledI)
  note ord = nic_orderedD [OF N(1), of "clock s" q "sq s q" n]
  let ?wcs = "ib_poll_cq E (clock s) q (sq s q) [] n"
  show "length (oks_now E q n s) \<le> length (sq s q)" by (rule oks_now_length [OF N(1)])
  show "\<forall>i < length (oks_now E q n s). good (sq s q ! i) (oks_now E q n s ! i)"
  proof (intro allI impI)
    fix i assume i: "i < length (oks_now E q n s)"
    then have il: "i < length ?wcs" by (simp add: oks_now_def)
    have "map wc_cqe ?wcs ! i = map wr_cqe (take (length ?wcs) (sq s q)) ! i"
      by (simp only: ord(3))
    then have "wc_cqe (?wcs ! i) = wr_cqe (sq s q ! i)" using il ord(2) by simp
    moreover have "sq s q ! i \<in> set (sq s q)" using il ord(2) by (intro nth_mem) simp
    ultimately have "good (sq s q ! i) (wc_status (?wcs ! i) = 0)"
      using N(2) nth_mem [OF il] pool_okD(1) [OF rdma_coreD(8) [OF C], of q]
      unfolding nic_outcome_def by metis
    then show "good (sq s q ! i) (oks_now E q n s ! i)" using il by (simp add: oks_now_def)
  qed
qed

lemma q_pending_ok: "rdma_core {} s \<Longrightarrow> q < nq s \<Longrightarrow> q_pending q s = int (length (sq s q))"
  using queue_okD(5) [OF rdma_coreD(6)]
  by (simp add: q_pending_def atomic_read_pending_def get_q_ok)

text \<open>The time until the queue reports something: it decreases in a round that reports nothing.\<close>

definition poll_delay :: "rdma_env \<Rightarrow> qid \<Rightarrow> nat \<Rightarrow> kst \<Rightarrow> nat" where
  "poll_delay E q n s = (LEAST k. ib_poll_cq E (clock s + k) q (sq s q) [] n \<noteq> [])"

lemma sq_after_poll:
  assumes "nic_ordered E"
  shows "sq (after_poll E q n s) = (sq s)(q := drop (length (oks_now E q n s)) (sq s q))"
  unfolding after_poll_def
  using finish_all_sq [of "zip (sq s q) (oks_now E q n s)" s q E] oks_now_length [OF assms, of q n s]
  by simp

lemma poll_progress:
  assumes N: "nic_ordered E" "nic_live E" and ne: "sq s q \<noteq> []" and n: "0 < n"
  defines "s' \<equiv> (after_poll E q n s)\<lparr>clock := Suc (clock s)\<rparr>"
  shows "length (sq s' q) < length (sq s q)
    \<or> oks_now E q n s = [] \<and> sq s' = sq s \<and> poll_delay E q n s' < poll_delay E q n s"
proof (cases "oks_now E q n s = []")
  case True
  have "\<exists>k. ib_poll_cq E (clock s + k) q (sq s q) [] n \<noteq> []"
    using N(2) ne n unfolding nic_live_def by (metis le_add_diff_inverse)
  moreover have "ib_poll_cq E (clock s) q (sq s q) [] n = []"
    using True by (simp add: oks_now_def)
  ultimately have "poll_delay E q n (s\<lparr>clock := Suc (clock s)\<rparr>) < poll_delay E q n s"
    using Least_shift [of "\<lambda>c. ib_poll_cq E c q (sq s q) [] n \<noteq> []" "clock s"]
    by (simp add: poll_delay_def)
  then show ?thesis using True by (simp add: s'_def after_poll_def)
next
  case False
  then have "length (oks_now E q n s) > 0" by simp
  moreover have "sq s' q = drop (length (oks_now E q n s)) (sq s q)"
    using sq_after_poll [OF N(1)] by (simp add: s'_def)
  ultimately show ?thesis using ne by simp
qed

abbreviation lex_nat :: "((nat \<times> nat) \<times> nat \<times> nat) set" where
  "lex_nat \<equiv> less_than <*lex*> less_than"

lemma poll_lex:
  assumes "nic_ordered E" "nic_live E" "sq s q \<noteq> []" "0 < n"
  defines "s' \<equiv> (after_poll E q n s)\<lparr>clock := Suc (clock s)\<rparr>"
  shows "((length (sq s' q), poll_delay E q n s'), length (sq s q), poll_delay E q n s) \<in> lex_nat"
  using poll_progress [OF assms(1-4)] by (auto simp: s'_def)

text \<open>\<open>drain_queue\<close> returns, and everything posted on the queue has completed.\<close>

lemma drain_queue_total:
  assumes N: "nic_ordered E" "nic_live E" "nic_outcome E good"
    and C: "rdma_core {} s" and q: "q < nq s"
  shows "\<exists>s'. drain_queue E q s = Ret 1 s' \<and> polled E good q s s' \<and> sq s' q = []"
proof -
  let ?b = "\<lambda>(_::unit) s. q_pending q s > 0"
  let ?c = "\<lambda>_. kthen (spin_lock_irqsave q) (kthen (ib_process_cq_direct E q 16)
    (kthen (spin_unlock_irqrestore q) cpu_relax))"
  let ?I = "\<lambda>(_::unit) t. rdma_core {} t \<and> polled E good q s t"
  let ?m = "\<lambda>(_::unit) t. (length (sq t q), poll_delay E q 16 t)"
  have "\<exists>x' s'. whileK ?b ?c () s = Ret x' s' \<and> ?I x' s' \<and> \<not> ?b x' s'"
  proof (rule whileK_total [where I = ?I and r = lex_nat and m = ?m])
    show "wf lex_nat" by (intro wf_lex_prod wf_less_than)
    show "?I () s" using C by (simp add: polled_refl)
    fix x t
    assume I: "?I x t" and b: "?b x t"
    have qt: "q < nq t" using I q polled_sel(3) by metis
    let ?t = "(after_poll E q 16 t)\<lparr>clock := Suc (clock t)\<rparr>"
    have "sq t q \<noteq> []" using b I qt by (auto simp: q_pending_ok)
    then have "(?m x ?t, ?m x t) \<in> lex_nat" by (intro poll_lex [OF N(1,2)]) simp_all
    moreover have "?c x t = Ret () ?t"
      using poll_round [OF conjunct1 [OF I] qt N(1)] by (simp add: cpu_relax_def after_poll_def)
    moreover have "rdma_core {} ?t" using poll_round(4) [OF _ qt N(1)] I by (simp add: rdma_core_clock)
    moreover have "polled E good q s ?t"
      using I polled_trans polled_once [OF N(1,3) _ qt] by blast
    ultimately show "\<exists>x' s'. ?c x t = Ret x' s' \<and> ?I x' s' \<and> (?m x' s', ?m x t) \<in> lex_nat"
      by blast
  qed
  then obtain s' where w: "whileK ?b ?c () s = Ret () s'" and I: "?I () s'" and nb: "\<not> ?b () s'"
    by auto
  have "q < nq s'" using I q polled_sel(3) by metis
  then have "sq s' q = []" using nb I by (simp add: q_pending_ok)
  with w I q show ?thesis by (intro exI [of _ s']) (simp add: drain_queue_def get_q_ok)
qed

text \<open>\<open>poll_target\<close> returns and has completed something when the queue was not empty.\<close>

lemma poll_target_total:
  assumes N: "nic_ordered E" "nic_live E" "nic_outcome E good"
    and C: "rdma_core {} s" and q: "q < nq s" and tgt: "0 < target"
  shows "\<exists>n s'. poll_target E q target s = Ret n s' \<and> polled E good q s s'
    \<and> n = int (length (sq s q)) - int (length (sq s' q)) \<and> (target \<le> n \<or> sq s' q = [])"
proof -
  let ?b = "\<lambda>completed s. completed < target \<and> q_pending q s > 0"
  let ?c = "\<lambda>completed. kthen (spin_lock_irqsave q)
    (kbind (ib_process_cq_direct E q (nat (target - completed))) (\<lambda>n.
     kthen (spin_unlock_irqrestore q) (kthen cpu_relax (kret (completed + n)))))"
  let ?I = "\<lambda>n t. rdma_core {} t \<and> polled E good q s t
    \<and> n = int (length (sq s q)) - int (length (sq t q))"
  let ?m = "\<lambda>n t. (length (sq t q), poll_delay E q (nat (target - n)) t)"
  have "\<exists>x' s'. whileK ?b ?c 0 s = Ret x' s' \<and> ?I x' s' \<and> \<not> ?b x' s'"
  proof (rule whileK_total [where I = ?I and r = lex_nat and m = ?m])
    show "wf lex_nat" by (intro wf_lex_prod wf_less_than)
    show "?I 0 s" using C by (simp add: polled_refl)
    fix n t
    assume I: "?I n t" and b: "?b n t"
    have qt: "q < nq t" using I q polled_sel(3) by metis
    let ?k = "nat (target - n)"
    let ?t = "(after_poll E q ?k t)\<lparr>clock := Suc (clock t)\<rparr>"
    let ?n = "n + int (length (oks_now E q ?k t))"
    have ne: "sq t q \<noteq> []" using b I qt by (auto simp: q_pending_ok)
    have run: "?c n t = Ret ?n ?t"
      using poll_round [OF conjunct1 [OF I] qt N(1)] by (simp add: cpu_relax_def after_poll_def)
    have sqt: "sq ?t q = drop (length (oks_now E q ?k t)) (sq t q)"
      using sq_after_poll [OF N(1), of q ?k t] by simp
    have "rdma_core {} ?t" using poll_round(4) [OF _ qt N(1)] I by (simp add: rdma_core_clock)
    moreover have "polled E good q s ?t"
      using I polled_trans polled_once [OF N(1,3) _ qt] by blast
    moreover have "?n = int (length (sq s q)) - int (length (sq ?t q))"
      using I sqt oks_now_length(2) [OF N(1), of q ?k t] by simp
    moreover have "(?m ?n ?t, ?m n t) \<in> lex_nat"
      using poll_progress [OF N(1,2) ne, of ?k] b by auto
    ultimately show "\<exists>x' s'. ?c n t = Ret x' s' \<and> ?I x' s' \<and> (?m x' s', ?m n t) \<in> lex_nat"
      using run by blast
  qed
  then obtain n s' where w: "whileK ?b ?c 0 s = Ret n s'" and I: "?I n s'" and nb: "\<not> ?b n s'"
    by auto
  have "q < nq s'" using I q polled_sel(3) by metis
  then have "target \<le> n \<or> sq s' q = []" using nb I by (auto simp: q_pending_ok)
  with w I q show ?thesis by (intro exI [of _ n] exI [of _ s']) (simp add: poll_target_def get_q_ok)
qed

text \<open>
  The back-pressure loops return with fewer than \<open>limit\<close> requests posted, and their
  \<open>BUG_ON\<close> never fires.
\<close>

lemma back_pressure_total:
  assumes N: "nic_ordered E" "nic_live E" "nic_outcome E good"
    and C: "rdma_core {} s" and q: "q < nq s" and lim: "0 < limit" and tgt: "0 < target"
  shows "\<exists>s'. back_pressure E q limit target s = Ret () s' \<and> polled E good q s s'
    \<and> int (length (sq s' q)) < limit"
proof -
  let ?b = "\<lambda>(_::unit) s. q_pending q s \<ge> limit"
  let ?c = "\<lambda>_. kbind (atomic_read_pending q) (\<lambda>inflight.
    kthen (bug_on (inflight > QP_MAX_SEND_WR)) (kthen (poll_target E q target) (kret ())))"
  let ?I = "\<lambda>(_::unit) t. rdma_core {} t \<and> polled E good q s t"
  have "\<exists>x' s'. whileK ?b ?c () s = Ret x' s' \<and> ?I x' s' \<and> \<not> ?b x' s'"
  proof (rule whileK_total [where I = ?I and r = less_than and m = "\<lambda>_ t. length (sq t q)"])
    show "wf less_than" by (rule wf_less_than)
    show "?I () s" using C by (simp add: polled_refl)
    fix x t
    assume I: "?I x t" and b: "?b x t"
    have qt: "q < nq t" using I q polled_sel(3) by metis
    note Q = queue_okD [OF rdma_coreD(6) [OF conjunct1 [OF I] qt]]
    obtain n t' where p: "poll_target E q target t = Ret n t'" "polled E good q t t'"
        "n = int (length (sq t q)) - int (length (sq t' q))" "target \<le> n \<or> sq t' q = []"
      using poll_target_total [OF N _ qt tgt] I by blast
    have "length (sq t' q) < length (sq t q)"
      using p(3,4) b lim tgt I qt by (auto simp: q_pending_ok)
    moreover have "?c x t = Ret () t'"
      using p(1) Q qt by (simp add: atomic_read_pending_def get_q_ok)
    moreover have "?I () t'" using I p(2) polled_core polled_trans by blast
    ultimately show "\<exists>x' s'. ?c x t = Ret x' s' \<and> ?I x' s'
        \<and> (length (sq s' q), length (sq t q)) \<in> less_than" by auto
  qed
  then obtain s' where w: "whileK ?b ?c () s = Ret () s'" and I: "?I () s'" and nb: "\<not> ?b () s'"
    by auto
  have "q < nq s'" using I q polled_sel(3) by metis
  with w I q nb show ?thesis by (intro exI [of _ s']) (simp add: back_pressure_def get_q_ok q_pending_ok)
qed

end
