(* ===== verification/Rdma_Ops.thy ===== *)
theory Rdma_Ops
  imports Rdma_Poll
begin

text \<open>
  The operations the RDMA backend exports: which queue they use, that posting keeps the
  invariant, and what a store, a load and a poll do to the far memory and the pages.
\<close>

section \<open>Queue indices\<close>

fun queue_base :: "int \<Rightarrow> qp_type \<Rightarrow> int" where
  "queue_base n QP_READ_SYNC = 0"
| "queue_base n QP_READ_ASYNC = n"
| "queue_base n QP_WRITE_SYNC = 2 * n"

lemma uint_word_of_int_small:
  "0 \<le> k \<Longrightarrow> k < 2 ^ 32 \<Longrightarrow> uint (word_of_int k :: u32) = k"
  by (simp add: uint_word_of_int)

lemma uint_add_word_of_int:
  fixes c :: u32
  assumes "0 \<le> k" "uint c + k < 2 ^ 32"
  shows "uint (c + word_of_int k) = uint c + k"
proof -
  have "0 \<le> uint c" by (rule uint_ge_0)
  then have "uint (word_of_int k :: u32) = k"
    using assms by (intro uint_word_of_int_small) linarith+
  then show ?thesis using assms \<open>0 \<le> uint c\<close> by (simp add: uint_word_ariths)
qed

lemma queue_index_high:
  assumes "n \<le> 8192" "uint c < 2 * n"
  shows "uint (queue_index n c t) = uint c + queue_base n t"
proof -
  have "0 \<le> n" "uint c + n * 2 < 4294967296" using assms uint_ge_0 [of c] by linarith+
  then have "uint (c + word_of_int n) = uint c + n"
    "uint (c + word_of_int (n * 2)) = uint c + n * 2"
    by (intro uint_add_word_of_int; simp)+
  then show ?thesis by (cases t) simp_all
qed

lemma queue_index_uint:
  assumes "n \<le> 8192" "uint c < n"
  shows "uint (queue_index n c t) = uint c + queue_base n t"
  using assms uint_ge_0 [of c] by (intro queue_index_high) linarith+

lemma get_queue_type_ok:
  assumes "n \<le> 8192" "uint i < n * 3"
  shows "get_queue_type n i s = Ret
    (if uint i < n then QP_READ_SYNC
     else if uint i < 2 * n then QP_READ_ASYNC else QP_WRITE_SYNC) s"
proof -
  have "0 \<le> n" "n * 3 < 4294967296" using assms uint_ge_0 [of i] by linarith+
  then have "uint (word_of_int n :: u32) = n" "uint (word_of_int (n * 2) :: u32) = n * 2"
    "uint (word_of_int (n * 3) :: u32) = n * 3"
    by (intro uint_word_of_int_small; simp)+
  then show ?thesis
    unfolding get_queue_type_def word_less_def using assms(2) by (simp only: mult.commute) simp
qed

lemma get_queue_ok:
  assumes "rdma_core L s" "uint c < numcpus s"
  shows "\<exists>q. sswap_rdma_get_queue c t s = Ret q s \<and> q < nq s
    \<and> int q = uint c + queue_base (numcpus s) t"
proof -
  note D = rdma_coreD [OF assms(1)]
  have i: "uint (queue_index (numcpus s) c t) = uint c + queue_base (numcpus s) t"
    using D(3) assms(2) by (rule queue_index_uint)
  have g: "gctrl s \<noteq> None" using D(1) by (auto simp: dev_of_def split: option.splits)
  have "uint c + queue_base (numcpus s) t < numcpus s * 3"
    using D(2) assms(2) by (cases t) auto
  then have "int (unat (queue_index (numcpus s) c t)) < int (nq s)"
    using i D(5) by simp
  then have "unat (queue_index (numcpus s) c t) < nq s" by (simp only: of_nat_less_iff)
  then show ?thesis using i g by (simp add: sswap_rdma_get_queue_def)
qed

section \<open>Posting a request\<close>

lemma posted_finite:
  assumes "rdma_core L s"
  shows "finite (\<Union>q. set (sq s q))" "card (\<Union>q. set (sq s q)) \<le> 24576 * 4096"
proof -
  note D = rdma_coreD [OF assms]
  have "q < nq s" if "w \<in> set (sq s q)" for w q using D(7) [of q] that by fastforce
  then have eq: "(\<Union>q. set (sq s q)) = (\<Union>q\<in>{..<nq s}. set (sq s q))" by blast
  show "finite (\<Union>q. set (sq s q))" by (subst eq) simp
  have len: "length (sq s q) \<le> 4096" if "q < nq s" for q
    using queue_okD(6) [OF D(6) [OF that]] by (simp add: QP_MAX_SEND_WR_def)
  have "card (\<Union>q\<in>{..<nq s}. set (sq s q)) \<le> (\<Sum>q<nq s. card (set (sq s q)))"
    by (rule card_UN_le) simp
  also have "\<dots> \<le> (\<Sum>q<nq s. 4096)"
    by (rule sum_mono) (use len card_length order_trans in \<open>simp, blast\<close>)
  also have "\<dots> \<le> 24576 * 4096" using D(3,5) by simp
  finally show "card (\<Union>q. set (sq s q)) \<le> 24576 * 4096" by (simp add: eq)
qed

lemma live_finite:
  assumes "rdma_core L s"
  shows "finite {r. reqs s r \<noteq> None}" "card {a. dma_maps s a \<noteq> None} \<le> 2 ^ 30"
proof -
  note P = pool_okD [OF rdma_coreD(8) [OF assms]]
  have "{r. reqs s r \<noteq> None} \<subseteq> wr_cqe ` (\<Union>q. set (sq s q))"
  proof
    fix r assume "r \<in> {r. reqs s r \<noteq> None}"
    then obtain x where "reqs s r = Some x" by auto
    then obtain q w where "w \<in> set (sq s q)" "wr_cqe w = r" using P(3) by blast
    then show "r \<in> wr_cqe ` (\<Union>q. set (sq s q))" by blast
  qed
  then show "finite {r. reqs s r \<noteq> None}"
    using posted_finite(1) [OF assms] by (meson finite_imageI finite_subset)
  have "{a. dma_maps s a \<noteq> None} \<subseteq> sge_addr ` (\<Union>q. set (sq s q))"
  proof
    fix a assume "a \<in> {a. dma_maps s a \<noteq> None}"
    then obtain v where "dma_maps s a = Some v" by auto
    then obtain r x where x: "reqs s r = Some x" "dma x = a" using P(7) by blast
    then obtain q w where w: "w \<in> set (sq s q)" "wr_cqe w = r" using P(3) by blast
    then have "sge_addr w = a" using P(4) [OF w(1)] x by (auto simp: wr_ok_def)
    then show "a \<in> sge_addr ` (\<Union>q. set (sq s q))" using w(1) by blast
  qed
  then have "card {a. dma_maps s a \<noteq> None} \<le> card (\<Union>q. set (sq s q))"
    using posted_finite(1) [OF assms] by (meson card_image_le card_mono finite_imageI order_trans)
  also have "\<dots> \<le> 2 ^ 30" using posted_finite(2) [OF assms] by simp
  finally show "card {a. dma_maps s a \<noteq> None} \<le> 2 ^ 30" .
qed

text \<open>The state after a request has been made for page \<open>p\<close> and posted on queue \<open>q\<close>.\<close>

definition enq :: "qid \<Rightarrow> pfn \<Rightarrow> send_wr \<Rightarrow> kst \<Rightarrow> kst" where
  "enq q p w s =
     setq q (\<lambda>qu. qu\<lparr>pending := pending qu + 1\<rparr>)
      (s\<lparr>dma_maps := (dma_maps s)(sge_addr w \<mapsto> (DmaPage p, DMA_TO_DEVICE)),
         reqs := (reqs s)(wr_cqe w \<mapsto>
           \<lparr>req_done = init_completion, cqe_done = Some (done_of (opcode w)),
             dma = sge_addr w, req_page = Some p\<rparr>),
         sq := (sq s)(q := sq s q @ [w])\<rparr>)"

lemma enq_sel [simp]:
  "sq (enq q p w s) = (sq s)(q := sq s q @ [w])"
  "reqs (enq q p w s) = (reqs s)(wr_cqe w \<mapsto>
     \<lparr>req_done = init_completion, cqe_done = Some (done_of (opcode w)),
       dma = sge_addr w, req_page = Some p\<rparr>)"
  "dma_maps (enq q p w s) = (dma_maps s)(sge_addr w \<mapsto> (DmaPage p, DMA_TO_DEVICE))"
  "frames (enq q p w s) = frames s" "farmem (enq q p w s) = farmem s"
  "clock (enq q p w s) = clock s" "numcpus (enq q p w s) = numcpus s"
  "numqueues (enq q p w s) = numqueues s" "this_cpu (enq q p w s) = this_cpu s"
  "rq (enq q p w s) = rq s" "dma_warn (enq q p w s) = dma_warn s"
  "nq (enq q p w s) = nq s"
  by (simp_all add: enq_def)

lemma enq_gctrl [simp]: "dev_of (enq q p w s) = dev_of s" "mr_of (enq q p w s) = mr_of s"
  by (simp_all add: enq_def)

text \<open>A request that may be posted: fresh object, fresh mapping, a page nobody else uses.\<close>

definition fresh_wr :: "kst \<Rightarrow> qid \<Rightarrow> pfn \<Rightarrow> send_wr \<Rightarrow> bool" where
  "fresh_wr s q p w \<longleftrightarrow>
     reqs s (wr_cqe w) = None \<and> dma_maps s (sge_addr w) = None \<and> p \<notin> busy s
   \<and> sge_length w = PAGE_SIZE \<and> rkey w = key (mr_of s)
   \<and> opcode w = (if int q < 2 * numcpus s then IB_WR_RDMA_READ else IB_WR_RDMA_WRITE)
   \<and> (opcode w = IB_WR_RDMA_READ \<longrightarrow> read_target (frames s p))"

lemma pool_ok_enq:
  assumes P: "pool_ok s" and F: "fresh_wr s q p w"
  shows "pool_ok (enq q p w s)"
proof -
  note D = pool_okD [OF P]
  have F': "reqs s (wr_cqe w) = None" "dma_maps s (sge_addr w) = None" "p \<notin> busy s"
    using F by (auto simp: fresh_wr_def)
  have live: "wr_cqe w' \<noteq> wr_cqe w" "sge_addr w' \<noteq> sge_addr w" if "w' \<in> set (sq s q')" for w' q'
    using D(4) [OF that] F' by (auto simp: wr_ok_def)
  have page: "req_page x \<noteq> Some p" if "reqs s r = Some x" for r x
    using F'(3) that by (auto simp: busy_def)
  have addr: "dma x \<noteq> sge_addr w" if x: "reqs s r = Some x" for r x
  proof -
    obtain q' w' where "w' \<in> set (sq s q')" "wr_cqe w' = r" using D(3) [OF x] by blast
    then show ?thesis using D(4) [of w' q'] live(2) x by (auto simp: wr_ok_def)
  qed
  have ok: "wr_ok (enq q p w s) w'" if "w' \<in> set (sq s q')" for w' q'
    using D(4) [OF that] live [OF that] by (auto simp: wr_ok_def)
  have okw: "wr_ok (enq q p w s) w" using F by (auto simp: wr_ok_def fresh_wr_def)
  have fresh_set: "wr_cqe w \<notin> wr_cqe ` set (sq s q')" for q' using live(1) by fastforce
  show ?thesis
    unfolding pool_ok_def
  proof (intro conjI allI impI)
    show "distinct (map wr_cqe (sq (enq q p w s) q'))" for q'
      using D(1) fresh_set by simp
  next
    fix q1 q2 w1 w2
    assume "w1 \<in> set (sq (enq q p w s) q1) \<and> w2 \<in> set (sq (enq q p w s) q2)
      \<and> wr_cqe w1 = wr_cqe w2"
    then show "q1 = q2" using D(2) [of w1 q1 w2 q2] live(1) [of w1 q1] live(1) [of w2 q2]
      by (auto split: if_splits)
  next
    fix r x
    assume "reqs (enq q p w s) r = Some x"
    then show "\<exists>q' w'. w' \<in> set (sq (enq q p w s) q') \<and> wr_cqe w' = r"
      using D(3) [of r x] by (cases "r = wr_cqe w"; fastforce)
  next
    fix q' w'
    assume "w' \<in> set (sq (enq q p w s) q')"
    then show "wr_ok (enq q p w s) w'" using ok okw by (auto split: if_splits)
  next
    fix r1 x1 r2 x2
    assume A: "reqs (enq q p w s) r1 = Some x1 \<and> reqs (enq q p w s) r2 = Some x2
      \<and> (dma x1 = dma x2 \<or> req_page x1 = req_page x2)"
    show "r1 = r2"
    proof (cases "r1 = wr_cqe w \<or> r2 = wr_cqe w")
      case True
      then show ?thesis
        using A page [of r1 x1] page [of r2 x2] addr [of r1 x1] addr [of r2 x2]
        by (auto split: if_splits)
    next
      case False
      then show ?thesis using A D(5) [of r1 x1 r2 x2] D(6) [of r1 x1 r2 x2] by auto
    qed
  next
    fix a v
    assume A: "dma_maps (enq q p w s) a = Some v"
    show "\<exists>r x. reqs (enq q p w s) r = Some x \<and> dma x = a"
    proof (cases "a = sge_addr w")
      case True
      then show ?thesis by (intro exI [of _ "wr_cqe w"]) simp
    next
      case False
      then obtain r x where x: "reqs s r = Some x" "dma x = a" using D(7) [of a v] A by auto
      then have "r \<noteq> wr_cqe w" using F'(1) by auto
      with x show ?thesis by (intro exI [of _ r] exI [of _ x]) simp
    qed
  qed
qed

lemma rdma_core_enq:
  assumes C: "rdma_core {} s" and q: "q < nq s" and room: "int (length (sq s q)) < QP_MAX_SEND_WR"
    and F: "fresh_wr s q p w"
  shows "rdma_core {} (enq q p w s)"
proof -
  note D = rdma_coreD [OF C]
  have qof: "qof q' (enq q p w s) =
      (if q' = q then (qof q s)\<lparr>pending := pending (qof q s) + 1\<rparr> else qof q' s)" for q'
    using q by (simp add: enq_def)
  have Q: "queue_ok {} (enq q p w s) q'" if "q' < nq s" for q'
    using D(6) [OF that] D(6) [OF q] room by (auto simp: queue_ok_def qof)
  have B: "sq s q' = []" if "nq s \<le> q'" for q'
    using D(7) [of q'] that by (metis not_less)
  have op: "opcode w' = (if int q' < 2 * numcpus s then IB_WR_RDMA_READ else IB_WR_RDMA_WRITE)"
    if "w' \<in> set (sq (enq q p w s) q')" for q' w'
    using that D(9) F by (cases "q' = q") (auto simp: fresh_wr_def)
  show ?thesis
    unfolding rdma_core_def
    using D Q B q pool_ok_enq [OF D(8) F] op by auto
qed

lemma mem_okD:
  assumes "mem_ok E"
  shows "finite {r. live r} \<Longrightarrow> \<exists>r. kmem_cache_alloc E t live = Some r \<and> \<not> live r"
    and "card {a. m a} \<le> 2 ^ 30 \<Longrightarrow> ib_dma_map_page E t m p d \<noteq> 0
      \<and> \<not> m (ib_dma_map_page E t m p d) \<and> \<not> ib_dma_mapping_error E (ib_dma_map_page E t m p d)"
proof -
  assume "finite {r. live r}"
  then show "\<exists>r. kmem_cache_alloc E t live = Some r \<and> \<not> live r"
    using assms unfolding mem_ok_def by simp
next
  assume "card {a. m a} \<le> 2 ^ 30"
  moreover have "\<forall>t m p d. card {a. m a} \<le> 2 ^ 30 \<longrightarrow> ib_dma_map_page E t m p d \<noteq> 0
      \<and> \<not> m (ib_dma_map_page E t m p d) \<and> \<not> ib_dma_mapping_error E (ib_dma_map_page E t m p d)"
    using assms unfolding mem_ok_def Let_def by (rule conjunct2)
  ultimately show "ib_dma_map_page E t m p d \<noteq> 0
      \<and> \<not> m (ib_dma_map_page E t m p d) \<and> \<not> ib_dma_mapping_error E (ib_dma_map_page E t m p d)"
    by (elim allE [of _ t] allE [of _ m] allE [of _ p] allE [of _ d] mp)
qed

text \<open>Making a request for a page gives a fresh object and a fresh mapping.\<close>

lemma get_req_for_page_ok:
  assumes M: "mem_ok E" and C: "rdma_core {} s"
  shows "\<exists>r a. get_req_for_page E p dir s = Ret (0, r)
      (s\<lparr>reqs := (reqs s)(r \<mapsto> \<lparr>req_done = init_completion, cqe_done = None, dma = a,
           req_page = Some p\<rparr>),
         dma_maps := (dma_maps s)(a \<mapsto> (DmaPage p, dir))\<rparr>)
    \<and> reqs s r = None \<and> a \<noteq> 0 \<and> dma_maps s a = None"
proof -
  let ?m = "\<lambda>x. dma_maps s x \<noteq> None"
  obtain r where r: "kmem_cache_alloc E (clock s) (\<lambda>r. reqs s r \<noteq> None) = Some r" "reqs s r = None"
    using mem_okD(1) [OF M live_finite(1) [OF C]] by auto
  define a where "a = ib_dma_map_page E (clock s) ?m p dir"
  have a: "a \<noteq> 0 \<and> \<not> ?m a \<and> \<not> ib_dma_mapping_error E a"
    unfolding a_def by (rule mem_okD(2) [OF M live_finite(2) [OF C]])
  have "get_req_for_page E p dir s = Ret (0, r)
      (s\<lparr>reqs := (reqs s)(r \<mapsto> \<lparr>req_done = init_completion, cqe_done = None, dma = a,
           req_page = Some p\<rparr>),
         dma_maps := (dma_maps s)(a \<mapsto> (DmaPage p, dir))\<rparr>)"
    unfolding get_req_for_page_def r(1) a_def [symmetric] Let_def using a by simp
  moreover have "dma_maps s a = None" using a by blast
  ultimately show ?thesis using r(2) a by (intro exI [of _ r] exI [of _ a] conjI) (rule | simp)+
qed

lemma post_rdma_ok:
  assumes A: "nic_accepts E" and q: "q < nq t" and Q: "q_ctrl (qof q t)" "qp (qof q t) = Some h"
    and d: "dev_of t = Some d" and x: "reqs t r = Some x" "dma x \<noteq> 0"
    and pend: "pending (qof q t) = int (length (sq t q))"
    and room: "int (length (sq t q)) < QP_MAX_SEND_WR"
  shows "sswap_rdma_post_rdma E q r off op t = Ret 0
      (setq q (\<lambda>qu. qu\<lparr>pending := pending qu + 1\<rparr>) (t\<lparr>sq := (sq t)(q := sq t q @
        [\<lparr>wr_cqe = r, sge_addr = dma x, sge_length = PAGE_SIZE, sge_lkey = pd_local_dma_lkey d,
          opcode = op, remote_addr = baseaddr (mr_of t) + off, rkey = key (mr_of t)\<rparr>])\<rparr>))"
proof -
  have w: "wrap32 (pending (qof q t) + 1) = pending (qof q t) + 1"
    using pend room by (intro wrap32_id) (auto simp: QP_MAX_SEND_WR_def)
  have inc: "atomic_inc_pending q t = Ret () (setq q (\<lambda>qu. qu\<lparr>pending := pending qu + 1\<rparr>) t)"
    using q nq_pos_gctrl [OF q] w
    by (auto simp: atomic_inc_pending_def upd_q_ok setq_def map_q_def qof_def qlist_def
        split: option.splits)
  have send: "ib_post_send E k q (sq t q) wr = 0" for k wr
    using A room by (simp add: nic_accepts_def)
  show ?thesis
    using q Q d x inc send
    by (simp add: sswap_rdma_post_rdma_def get_req_def get_rdev_ok get_servermr_ok get_handles_ok)
      (simp add: setq_def)
qed

text \<open>Making a request for a page and posting it, as both kinds of operation do.\<close>

lemma post_ok:
  assumes M: "mem_ok E" "nic_accepts E" and C: "rdma_core {} s" and q: "q < nq s"
    and room: "int (length (sq s q)) < QP_MAX_SEND_WR" and page: "p \<notin> busy s"
    and op: "op = (if int q < 2 * numcpus s then IB_WR_RDMA_READ else IB_WR_RDMA_WRITE)"
    and rt: "op = IB_WR_RDMA_READ \<Longrightarrow> read_target (frames s p)" and fn: "fn = done_of op"
  shows "\<exists>w. kbind (get_req_for_page E p DMA_TO_DEVICE) (\<lambda>(ret, req).
        if ret \<noteq> 0 then kret ret
        else kthen (upd_req req (\<lambda>r. r\<lparr>cqe_done := Some fn\<rparr>))
                   (sswap_rdma_post_rdma E q req off op)) s = Ret 0 (enq q p w s)
    \<and> fresh_wr s q p w \<and> opcode w = op \<and> remote_addr w = baseaddr (mr_of s) + off"
proof -
  note D = rdma_coreD [OF C]
  note Q = queue_okD [OF D(6) [OF q]]
  obtain d where d: "dev_of s = Some d" using D(1) by auto
  obtain h where h: "qp (qof q s) = Some h" using Q(2) by auto
  let ?x = "\<lambda>a. \<lparr>req_done = init_completion, cqe_done = None, dma = a, req_page = Some p\<rparr>"
  obtain r a where g: "get_req_for_page E p DMA_TO_DEVICE s = Ret (0, r)
      (s\<lparr>reqs := (reqs s)(r \<mapsto> ?x a), dma_maps := (dma_maps s)(a \<mapsto> (DmaPage p, DMA_TO_DEVICE))\<rparr>)"
    and fr: "reqs s r = None" "a \<noteq> 0" "dma_maps s a = None"
    using get_req_for_page_ok [OF M(1) C, of p DMA_TO_DEVICE] by blast
  let ?w = "\<lparr>wr_cqe = r, sge_addr = a, sge_length = PAGE_SIZE, sge_lkey = pd_local_dma_lkey d,
    opcode = op, remote_addr = baseaddr (mr_of s) + off, rkey = key (mr_of s)\<rparr>"
  let ?t = "s\<lparr>dma_maps := (dma_maps s)(a \<mapsto> (DmaPage p, DMA_TO_DEVICE)),
    reqs := (reqs s)(r \<mapsto> (?x a)\<lparr>cqe_done := Some (done_of op)\<rparr>)\<rparr>"
  have "sswap_rdma_post_rdma E q r off op ?t = Ret 0
      (setq q (\<lambda>qu. qu\<lparr>pending := pending qu + 1\<rparr>) (?t\<lparr>sq := (sq s)(q := sq s q @ [?w])\<rparr>))"
    using post_rdma_ok [OF M(2), of q ?t h d r] q Q d h fr room by simp
  then have "kbind (get_req_for_page E p DMA_TO_DEVICE) (\<lambda>(ret, req).
        if ret \<noteq> 0 then kret ret
        else kthen (upd_req req (\<lambda>r. r\<lparr>cqe_done := Some fn\<rparr>))
                   (sswap_rdma_post_rdma E q req off op)) s = Ret 0 (enq q p ?w s)"
    using g fn by (simp add: upd_req_def get_req_def enq_def)
  moreover have "fresh_wr s q p ?w"
    using fr page op rt by (simp add: fresh_wr_def)
  ultimately show ?thesis by (intro exI [of _ ?w]) simp
qed

end
