(* ===== verification/Rdma_Effect.thy ===== *)
theory Rdma_Effect
  imports Rdma_Ops
begin

text \<open>
  The effect of completed requests on pages and far memory, and the contracts of the
  operations of the RDMA backend under the hypotheses on the environment of \<open>Rdma_Poll\<close>.
\<close>

section \<open>Pages of posted requests\<close>

lemma wr_pfn_ok:
  assumes "pool_ok s" "w \<in> set (sq s q)"
  shows "\<exists>x. reqs s (wr_cqe w) = Some x \<and> dma x = sge_addr w \<and> req_page x = Some (wr_pfn s w)
    \<and> (opcode w = IB_WR_RDMA_READ \<longrightarrow> read_target (frames s (wr_pfn s w)))"
  using pool_okD(4) [OF assms] by (auto simp: wr_ok_def wr_pfn_def)

lemma busy_alt:
  assumes "pool_ok s"
  shows "busy s = wr_pfn s ` (\<Union>q. set (sq s q))"
proof (intro equalityI subsetI)
  fix p assume "p \<in> busy s"
  then obtain r x where x: "reqs s r = Some x" "req_page x = Some p" by (auto simp: busy_def)
  then obtain q w where w: "w \<in> set (sq s q)" "wr_cqe w = r" using pool_okD(3) [OF assms] by blast
  then have "wr_pfn s w = p" using wr_pfn_ok [OF assms w(1)] x by auto
  then show "p \<in> wr_pfn s ` (\<Union>q. set (sq s q))" using w(1) by blast
next
  fix p assume "p \<in> wr_pfn s ` (\<Union>q. set (sq s q))"
  then obtain q w where "w \<in> set (sq s q)" "p = wr_pfn s w" by blast
  then show "p \<in> busy s" using wr_pfn_ok [OF assms] by (fastforce simp: busy_def)
qed

lemma wr_pfn_distinct:
  assumes "pool_ok s" "w \<in> set (sq s q)" "w' \<in> set (sq s q')" "wr_cqe w \<noteq> wr_cqe w'"
  shows "wr_pfn s w \<noteq> wr_pfn s w'" "sge_addr w \<noteq> sge_addr w'"
  using wr_pfn_ok [OF assms(1,2)] wr_pfn_ok [OF assms(1,3)] pool_okD(5,6) [OF assms(1)] assms(4)
  by metis+

text \<open>The head of a queue completes: requests further back, and on other queues, keep their page.\<close>

lemma finish_other:
  assumes P: "pool_ok s" and hd: "sq s q = w # rest" and w': "w' \<in> set (((sq s)(q := rest)) q')"
  shows "wr_pfn (finish E q w ok s) w' = wr_pfn s w'" "wr_pfn s w' \<noteq> wr_pfn s w"
proof -
  note n = pool_other_cqe [OF P hd w']
  have "w \<in> set (sq s q)" using hd by simp
  note d = wr_pfn_distinct [OF P n(2) this n(1)]
  show "wr_pfn s w' \<noteq> wr_pfn s w" by (rule d(1))
  show "wr_pfn (finish E q w ok s) w' = wr_pfn s w'" using d(2) by (simp add: wr_pfn_def)
qed

section \<open>Completed reads\<close>

definition reads_done ::
    "rdma_env \<Rightarrow> kst \<Rightarrow> (send_wr \<times> bool) list \<Rightarrow> kst \<Rightarrow> bool" where
  "reads_done E s ws s' \<longleftrightarrow>
     farmem s' = farmem s
   \<and> (\<forall>(w, ok) \<in> set ws. frames s' (wr_pfn s w) =
        page_filled (read_result E s w ok) (frames s (wr_pfn s w)))
   \<and> (\<forall>p. p \<notin> wr_pfn s ` fst ` set ws \<longrightarrow> frames s' p = frames s p)"

lemma finish_all_reads:
  assumes "rdma_core L s" "length oks \<le> length (sq s q)" "int q < 2 * numcpus s"
  shows "reads_done E s (zip (sq s q) oks) (finish_all E q (zip (sq s q) oks) s)"
  using assms
proof (induction oks arbitrary: s)
  case Nil
  then show ?case by (simp add: reads_done_def)
next
  case (Cons ok oks)
  then obtain w rest where hd: "sq s q = w # rest" by (cases "sq s q") auto
  note P = rdma_coreD(8) [OF Cons.prems(1)]
  let ?s1 = "finish E q w ok s"
  have op: "opcode w = IB_WR_RDMA_READ"
    using rdma_coreD(9) [OF Cons.prems(1), of w q] hd Cons.prems(3) by simp
  have sq1: "sq ?s1 q = rest" using hd by simp
  have IH: "reads_done E ?s1 (zip rest oks) (finish_all E q (zip rest oks) ?s1)"
    using Cons.IH [of ?s1] rdma_core_finish [OF Cons.prems(1) hd] Cons.prems(2,3) hd by simp
  have o: "wr_pfn ?s1 w' = wr_pfn s w'" "wr_pfn s w' \<noteq> wr_pfn s w" if "w' \<in> set rest" for w'
    using finish_other [OF P hd, of w' q] that by auto
  have fr: "frames ?s1 (wr_pfn s w') = frames s (wr_pfn s w')" if "w' \<in> set rest" for w'
    using o(2) [OF that] by simp
  have rr: "read_result E ?s1 w' b = read_result E s w' b" if "w' \<in> set rest" for w' b
    using o [OF that] op by (simp add: read_result_def)
  have img: "wr_pfn ?s1 ` fst ` set (zip rest oks) = wr_pfn s ` fst ` set (zip rest oks)"
    using o(1) by (intro image_cong) (auto dest: set_zip_leftD)
  have "fst ` set (zip rest oks) \<subseteq> set rest" by (auto dest: set_zip_leftD)
  then have wn: "wr_pfn s w \<notin> wr_pfn s ` fst ` set (zip rest oks)"
    using o(2) by (metis image_iff subsetD)
  have w1: "frames ?s1 (wr_pfn s w) = page_filled (read_result E s w ok) (frames s (wr_pfn s w))"
    using op by simp
  show ?case
    unfolding hd reads_done_def zip_Cons_Cons finish_all.simps
  proof (intro conjI ballI allI impI)
    show "farmem (finish_all E q (zip rest oks) ?s1) = farmem s"
      using IH op by (simp add: reads_done_def)
  next
    fix v assume "v \<in> set ((w, ok) # zip rest oks)"
    then consider "v = (w, ok)" | "v \<in> set (zip rest oks)" by auto
    then show "case v of (w', b) \<Rightarrow> frames (finish_all E q (zip rest oks) ?s1) (wr_pfn s w') =
        page_filled (read_result E s w' b) (frames s (wr_pfn s w'))"
    proof cases
      case 1
      then show ?thesis using IH wn img w1 by (simp add: reads_done_def)
    next
      case 2
      obtain w' b where v: "v = (w', b)" by (cases v)
      have "w' \<in> set rest" using 2 v by (auto dest: set_zip_leftD)
      moreover have "frames (finish_all E q (zip rest oks) ?s1) (wr_pfn ?s1 w') =
          page_filled (read_result E ?s1 w' b) (frames ?s1 (wr_pfn ?s1 w'))"
        using IH 2 v unfolding reads_done_def by blast
      ultimately show ?thesis using o(1) fr rr v by simp
    qed
  next
    fix p assume "p \<notin> wr_pfn s ` fst ` set ((w, ok) # zip rest oks)"
    then show "frames (finish_all E q (zip rest oks) ?s1) p = frames s p"
      using IH img op by (simp add: reads_done_def)
  qed
qed

lemma reads_done_clock: "reads_done E s ws (s'\<lparr>clock := t\<rparr>) = reads_done E s ws s'"
  by (simp add: reads_done_def)

text \<open>
  What a poll of a read queue has done: the requests that left the queue have filled their
  pages, and no other page and no far memory has changed.
\<close>

lemma polled_reads:
  assumes "polled E good q s s'" "rdma_core L s" "int q < 2 * numcpus s"
  shows "\<exists>oks. length oks = length (sq s q) - length (sq s' q) \<and> length oks \<le> length (sq s q)
    \<and> (\<forall>i < length oks. good (sq s q ! i) (oks ! i))
    \<and> reads_done E s (zip (sq s q) oks) s'"
proof -
  obtain oks where o: "length oks \<le> length (sq s q)"
      "\<forall>i < length oks. good (sq s q ! i) (oks ! i)"
      "s' = (finish_all E q (zip (sq s q) oks) s)\<lparr>clock := clock s'\<rparr>"
    using assms(1) unfolding polled_def by blast
  have "reads_done E s (zip (sq s q) oks) s'"
    by (subst o(3)) (simp add: reads_done_clock finish_all_reads [OF assms(2) o(1) assms(3)])
  moreover have "sq s' = sq (finish_all E q (zip (sq s q) oks) s)" by (subst o(3)) simp
  then have "sq s' q = drop (length oks) (sq s q)"
    using finish_all_sq [of "zip (sq s q) oks" s q E] o(1) by simp
  ultimately show ?thesis using o(1,2) by (intro exI [of _ oks]) simp
qed

lemma polled_frames:
  assumes "polled E good q s s'" "rdma_core L s" "int q < 2 * numcpus s" "p \<notin> busy s"
  shows "frames s' p = frames s p"
proof -
  obtain oks where "reads_done E s (zip (sq s q) oks) s'"
    using polled_reads [OF assms(1-3)] by blast
  moreover have "wr_pfn s ` fst ` set (zip (sq s q) oks) \<subseteq> busy s"
    using busy_alt [OF rdma_coreD(8) [OF assms(2)]] by (fastforce dest: set_zip_leftD)
  then have "p \<notin> wr_pfn s ` fst ` set (zip (sq s q) oks)" using assms(4) by blast
  ultimately show ?thesis by (simp add: reads_done_def)
qed

lemma finish_all_reqs:
  "reqs (finish_all E q ws s) r = Some x \<Longrightarrow> reqs s r = Some x"
proof (induction ws arbitrary: s)
  case (Cons v ws)
  obtain w ok where "v = (w, ok)" by (cases v)
  then have "reqs (finish_all E q ws (finish E q w ok s)) r = Some x"
    using Cons.prems by simp
  then have "reqs (finish E q w ok s) r = Some x" by (rule Cons.IH)
  then show ?case by (simp split: if_splits)
qed simp

lemma polled_reqs:
  assumes "polled E good q s s'" "reqs s' r = Some x"
  shows "reqs s r = Some x"
proof -
  obtain oks where o: "s' = (finish_all E q (zip (sq s q) oks) s)\<lparr>clock := clock s'\<rparr>"
    using assms(1) unfolding polled_def by blast
  have "reqs s' = reqs (finish_all E q (zip (sq s q) oks) s)" by (subst o) simp
  then show ?thesis using assms(2) finish_all_reqs by metis
qed

lemma polled_busy: "polled E good q s s' \<Longrightarrow> busy s' \<subseteq> busy s"
  unfolding busy_def by (blast dest: polled_reqs)

text \<open>A request that is still posted after a poll refers to the same page.\<close>

lemma polled_pfn:
  assumes "polled E good q s s'" "rdma_core L s" "w \<in> set (sq s' q')"
  shows "w \<in> set (sq s q')" "wr_pfn s' w = wr_pfn s w"
proof -
  obtain n where "sq s' = (sq s)(q := drop n (sq s q))" using polled_sq [OF assms(1)] by blast
  then show w: "w \<in> set (sq s q')" using assms(3) by (auto split: if_splits dest: in_set_dropD)
  obtain x where x: "reqs s' (wr_cqe w) = Some x" "req_page x = Some (wr_pfn s' w)"
    using wr_pfn_ok [OF rdma_coreD(8) [OF polled_core [OF assms(1,2)]] assms(3)] by blast
  then have "reqs s (wr_cqe w) = Some x" using polled_reqs [OF assms(1)] by blast
  then show "wr_pfn s' w = wr_pfn s w" using wr_pfn_ok [OF rdma_coreD(8) [OF assms(2)] w] x(2) by auto
qed

section \<open>Writing\<close>

text \<open>A poll of an empty queue changes only the time.\<close>

lemma polled_empty: "polled E good q s s' \<Longrightarrow> sq s q = [] \<Longrightarrow> s' = s\<lparr>clock := clock s'\<rparr>"
  by (auto simp: polled_def)

lemma polled_single:
  assumes "polled E good q s s'" "sq s q = [w]" "sq s' q = []"
  shows "\<exists>ok. good w ok \<and> s' = (finish E q w ok s)\<lparr>clock := clock s'\<rparr>"
proof -
  obtain oks where o: "length oks \<le> length (sq s q)"
      "\<forall>i < length oks. good (sq s q ! i) (oks ! i)"
      "s' = (finish_all E q (zip (sq s q) oks) s)\<lparr>clock := clock s'\<rparr>"
    using assms(1) unfolding polled_def by blast
  have "sq s' = sq (finish_all E q (zip (sq s q) oks) s)" by (subst o(3)) simp
  then have "length oks = 1"
    using assms(2,3) o(1) finish_all_sq [of "zip (sq s q) oks" s q E] by (cases oks) auto
  then obtain ok where "oks = [ok]" by (cases oks) auto
  then show ?thesis using o(2,3) assms(2) by (intro exI [of _ ok]) simp
qed

lemma finish_enq_write:
  assumes "sq s q = []" "fresh_wr s q p w" "opcode w = IB_WR_RDMA_WRITE" "q < nq s"
  shows "finish E q w ok (enq q p w s) = s\<lparr>farmem := mem_write (farmem s) (remote_addr w)
    (if ok then pg_data (frames s p)
     else dma_residue E w (mem_read (farmem s) (remote_addr w)))\<rparr>"
proof -
  have "gctrl (finish E q w ok (enq q p w s)) = gctrl s"
    using assms(4) by (auto simp: finish_def enq_def setq_def map_q_def qlist_def split: option.splits)
  moreover have "(sq s)(q := []) = sq s" using assms(1) by auto
  moreover have "(reqs s)(wr_cqe w := None) = reqs s" "(dma_maps s)(sge_addr w := None) = dma_maps s"
    using assms(2) by (auto simp: fresh_wr_def)
  ultimately show ?thesis
    using assms by (intro kst.equality) (simp_all add: write_result_def wr_pfn_def enq_def)
qed

lemma rdma_invD: "rdma_inv s \<Longrightarrow> rdma_core {} s" "rdma_inv s \<Longrightarrow> 2 * numcpus s \<le> int q \<Longrightarrow> sq s q = []"
  by (simp_all add: rdma_inv_def)

text \<open>The page at offset \<open>off\<close> of the server's region.\<close>

definition far_addr :: "kst \<Rightarrow> u64 \<Rightarrow> u64" where
  "far_addr s off = baseaddr (mr_of s) + off"

definition far_page :: "kst \<Rightarrow> u64 \<Rightarrow> page_data" where
  "far_page s off = mem_read (farmem s) (far_addr s off)"

lemma rdma_inv_farmem_clock:
  "rdma_inv (s\<lparr>farmem := m, clock := t\<rparr>) = rdma_inv s"
proof -
  have "pool_ok (s\<lparr>farmem := m\<rparr>) = pool_ok s"
    by (rule pool_ok_cong) simp_all
  then have "rdma_core {} (s\<lparr>farmem := m\<rparr>) = rdma_core {} s"
    by (simp add: rdma_core_def queue_ok_def)
  then show ?thesis by (simp add: rdma_inv_def rdma_core_clock)
qed

lemma rdma_write_ok:
  assumes N: "nic_ok E" "nic_outcome E good" and I: "rdma_inv s"
    and cpu: "uint (this_cpu s) < numcpus s"
    and pg: "PageSwapCache (frames s p)" "p \<notin> busy s"
  shows "\<exists>d w t ok. sswap_rdma_write E p off s =
      Ret 0 (s\<lparr>farmem := mem_write (farmem s) (far_addr s off) d, clock := t\<rparr>)
    \<and> remote_addr w = far_addr s off \<and> rkey w = key (mr_of s) \<and> sge_length w = PAGE_SIZE
    \<and> good w ok \<and> d = (if ok then pg_data (frames s p) else dma_residue E w (far_page s off))"
proof -
  note C = rdma_invD(1) [OF I]
  have N': "nic_ordered E" "nic_live E" "nic_accepts E" "mem_ok E" using N(1) by (auto simp: nic_ok_def)
  obtain q where q: "sswap_rdma_get_queue (this_cpu s) QP_WRITE_SYNC s = Ret q s" "q < nq s"
      "int q = uint (this_cpu s) + 2 * numcpus s"
    using get_queue_ok [OF C cpu, of QP_WRITE_SYNC] by auto
  have "2 * numcpus s \<le> int q" using q(3) by simp
  then have wq: "sq s q = []" "\<not> int q < 2 * numcpus s" using rdma_invD(2) [OF I] by auto
  note Q = queue_okD [OF rdma_coreD(6) [OF C q(2)]]
  obtain dv where dv: "dev_of s = Some dv" using rdma_coreD(1) [OF C] by auto
  obtain s1 where s1: "back_pressure E q (QP_MAX_SEND_WR - 8) 2048 s = Ret () s1"
      "polled E good q s s1"
    using back_pressure_total [OF N'(1,2) N(2) C q(2), of "QP_MAX_SEND_WR - 8" 2048]
    by (auto simp: QP_MAX_SEND_WR_def)
  define t1 where "t1 = clock s1"
  have e1: "s1 = s\<lparr>clock := t1\<rparr>" unfolding t1_def using s1(2) wq(1) by (rule polled_empty)
  have C1: "rdma_core {} s1" using C by (simp add: e1 rdma_core_clock)
  have q1: "q < nq s1" and sq1: "sq s1 q = []" and n1: "numcpus s1 = numcpus s"
    and b1: "p \<notin> busy s1" using q(2) wq(1) pg(2) by (simp_all add: e1 busy_def)
  obtain w where w: "kbind (get_req_for_page E p DMA_TO_DEVICE) (\<lambda>(ret, req).
        if ret \<noteq> 0 then kret ret
        else kthen (upd_req req (\<lambda>r. r\<lparr>cqe_done := Some Write_done\<rparr>))
                   (sswap_rdma_post_rdma E q req off IB_WR_RDMA_WRITE)) s1 = Ret 0 (enq q p w s1)"
      "fresh_wr s1 q p w" "opcode w = IB_WR_RDMA_WRITE" "remote_addr w = baseaddr (mr_of s1) + off"
    using post_ok [OF N'(4,3) C1 q1, of p IB_WR_RDMA_WRITE Write_done off] sq1 n1 b1 wq(2)
    by (auto simp: QP_MAX_SEND_WR_def)
  have mr1: "mr_of s1 = mr_of s" by (simp add: e1)
  have C2: "rdma_core {} (enq q p w s1)"
    using rdma_core_enq [OF C1 q1 _ w(2)] sq1 by (simp add: QP_MAX_SEND_WR_def)
  have q2: "q < nq (enq q p w s1)" using q1 by simp
  obtain s2 where s2: "drain_queue E q (enq q p w s1) = Ret 1 s2"
      "polled E good q (enq q p w s1) s2" "sq s2 q = []"
    using drain_queue_total [OF N'(1,2) N(2) C2 q2] by blast
  obtain ok where ok: "good w ok" "s2 = (finish E q w ok (enq q p w s1))\<lparr>clock := clock s2\<rparr>"
    using polled_single [OF s2(2) _ s2(3)] sq1 by auto
  define d where "d = (if ok then pg_data (frames s p) else dma_residue E w (far_page s off))"
  define t2 where "t2 = clock s2"
  have "s2 = s\<lparr>farmem := mem_write (farmem s) (far_addr s off) d, clock := t2\<rparr>"
    using ok(2) unfolding finish_enq_write [OF sq1 w(2,3) q1] t2_def [symmetric]
    by (simp add: e1 d_def far_page_def far_addr_def w(4))
  moreover have "sswap_rdma_write E p off s = Ret 0 s2"
    using q s1(1) w(1) s2(1) pg(1) Q(1) dv
    by (simp add: sswap_rdma_write_def write_queue_add_def get_rdev_ok)
  ultimately show ?thesis
    using ok(1) w by (intro exI [of _ d] exI [of _ w] exI [of _ t2] exI [of _ ok])
      (auto simp: d_def far_addr_def fresh_wr_def mr1)
qed

section \<open>Reading\<close>

lemma rdma_inv_polled:
  assumes "polled E good q s s'" "rdma_inv s"
  shows "rdma_inv s'"
proof -
  obtain n where "sq s' = (sq s)(q := drop n (sq s q))" using polled_sq [OF assms(1)] by blast
  then show ?thesis
    using polled_core [OF assms(1) rdma_invD(1) [OF assms(2)]] polled_sel(1) [OF assms(1)]
      rdma_invD(2) [OF assms(2)] by (simp add: rdma_inv_def)
qed

lemma begin_read_ok:
  assumes N: "nic_ok E" "nic_outcome E good" and I: "rdma_inv s"
    and q: "q < nq s" "int q < 2 * numcpus s"
    and pg: "read_target (frames s p)" "p \<notin> busy s"
  shows "\<exists>s1 w. begin_read E q p off s = Ret 0 (enq q p w s1) \<and> polled E good q s s1
    \<and> fresh_wr s1 q p w \<and> remote_addr w = far_addr s off \<and> rdma_inv (enq q p w s1)"
proof -
  note C = rdma_invD(1) [OF I]
  have N': "nic_ordered E" "nic_live E" "nic_accepts E" "mem_ok E" using N(1) by (auto simp: nic_ok_def)
  note Q = queue_okD [OF rdma_coreD(6) [OF C q(1)]]
  obtain dv where dv: "dev_of s = Some dv" using rdma_coreD(1) [OF C] by auto
  obtain s1 where s1: "back_pressure E q QP_MAX_SEND_WR 8 s = Ret () s1" "polled E good q s s1"
      "int (length (sq s1 q)) < QP_MAX_SEND_WR"
    using back_pressure_total [OF N'(1,2) N(2) C q(1), of QP_MAX_SEND_WR 8]
    by (auto simp: QP_MAX_SEND_WR_def)
  note P = polled_sel [OF s1(2)]
  have I1: "rdma_inv s1" using s1(2) I by (rule rdma_inv_polled)
  note C1 = rdma_invD(1) [OF I1]
  have q1: "q < nq s1" "int q < 2 * numcpus s1" using q P by simp_all
  have b1: "p \<notin> busy s1" using pg(2) polled_busy [OF s1(2)] by blast
  have r1: "read_target (frames s1 p)" using pg polled_frames [OF s1(2) C q(2)] by simp
  obtain w where w: "kbind (get_req_for_page E p DMA_TO_DEVICE) (\<lambda>(ret, req).
        if ret \<noteq> 0 then kret ret
        else kthen (upd_req req (\<lambda>r. r\<lparr>cqe_done := Some Read_done\<rparr>))
                   (sswap_rdma_post_rdma E q req off IB_WR_RDMA_READ)) s1 = Ret 0 (enq q p w s1)"
      "fresh_wr s1 q p w" "remote_addr w = baseaddr (mr_of s1) + off"
    using post_ok [OF N'(4,3) C1 q1(1) s1(3) b1, of IB_WR_RDMA_READ Read_done off] q1(2) r1 by auto
  have "begin_read E q p off s = Ret 0 (enq q p w s1)"
    using s1(1) w(1) q(1) Q(1) dv by (simp add: begin_read_def get_rdev_ok)
  moreover have "rdma_inv (enq q p w s1)"
    using rdma_core_enq [OF C1 q1(1) s1(3) w(2)] rdma_invD(2) [OF I1] q1(2)
    by (auto simp: rdma_inv_def)
  ultimately show ?thesis
    using s1(2) w P by (intro exI [of _ s1] exI [of _ w]) (simp add: far_addr_def)
qed

text \<open>Both kinds of read: the request is the last one on the queue of its kind.\<close>

lemma rdma_read_ok:
  assumes N: "nic_ok E" "nic_outcome E good" and I: "rdma_inv s"
    and cpu: "uint (this_cpu s) < numcpus s"
    and pg: "read_target (frames s p)" "p \<notin> busy s"
    and rd: "rd = sswap_rdma_read_sync \<and> qt = QP_READ_SYNC
           \<or> rd = sswap_rdma_read_async \<and> qt = QP_READ_ASYNC"
  shows "\<exists>q s1 w. rd E p off s = Ret 0 (enq q p w s1)
    \<and> q < nq s \<and> int q = uint (this_cpu s) + queue_base (numcpus s) qt
    \<and> polled E good q s s1 \<and> fresh_wr s1 q p w \<and> remote_addr w = far_addr s off
    \<and> rdma_inv (enq q p w s1)"
proof -
  note C = rdma_invD(1) [OF I]
  obtain q where q: "sswap_rdma_get_queue (this_cpu s) qt s = Ret q s" "q < nq s"
      "int q = uint (this_cpu s) + queue_base (numcpus s) qt"
    using get_queue_ok [OF C cpu] by blast
  have "int q < 2 * numcpus s" using q(3) cpu rd rdma_coreD(2) [OF C] by auto
  then obtain s1 w where b: "begin_read E q p off s = Ret 0 (enq q p w s1)" "polled E good q s s1"
      "fresh_wr s1 q p w" "remote_addr w = far_addr s off" "rdma_inv (enq q p w s1)"
    using begin_read_ok [OF N I q(2) _ pg] by blast
  have "check_read_target E p s = Ret () s"
    using pg(1) by (simp add: check_read_target_def read_target_def)
  then have "rd E p off s = Ret 0 (enq q p w s1)"
    using rd q(1) b(1) by (auto simp: sswap_rdma_read_sync_def sswap_rdma_read_async_def)
  with b q show ?thesis by blast
qed

text \<open>Polling a queue empties it; every page waiting there is filled.\<close>

lemma rdma_poll_load_ok:
  assumes N: "nic_ok E" "nic_outcome E good" and I: "rdma_inv s" and cpu: "0 \<le> cpu" "cpu < numcpus s"
  shows "\<exists>s' oks. sswap_rdma_poll_load E cpu s = Ret 1 s' \<and> rdma_inv s'
    \<and> polled E good (nat cpu) s s'
    \<and> sq s' = (sq s)(nat cpu := []) \<and> length oks = length (sq s (nat cpu))
    \<and> (\<forall>i < length oks. good (sq s (nat cpu) ! i) (oks ! i))
    \<and> reads_done E s (zip (sq s (nat cpu)) oks) s'"
proof -
  note C = rdma_invD(1) [OF I]
  have N': "nic_ordered E" "nic_live E" using N(1) by (auto simp: nic_ok_def)
  have u: "uint (word_of_int cpu :: u32) = cpu"
    using cpu rdma_coreD(3) [OF C] by (intro uint_word_of_int_small) auto
  obtain q where q: "sswap_rdma_get_queue (word_of_int cpu) QP_READ_SYNC s = Ret q s" "q < nq s"
      "int q = cpu"
    using get_queue_ok [OF C, of "word_of_int cpu" QP_READ_SYNC] cpu(2) unfolding u by auto
  have qc: "nat cpu = q" using q(3) by auto
  obtain s' where s': "drain_queue E q s = Ret 1 s'" "polled E good q s s'" "sq s' q = []"
    using drain_queue_total [OF N' N(2) C q(2)] by blast
  obtain n where "sq s' = (sq s)(q := drop n (sq s q))" using polled_sq [OF s'(2)] by blast
  then have sq': "sq s' = (sq s)(q := [])" using s'(3) by auto
  have "int q < 2 * numcpus s" using q(3) cpu by simp
  then obtain oks where "length oks = length (sq s q)" "\<forall>i < length oks. good (sq s q ! i) (oks ! i)"
      "reads_done E s (zip (sq s q) oks) s'"
    using polled_reads [OF s'(2) C] s'(3) by auto
  moreover have "sswap_rdma_poll_load E cpu s = Ret 1 s'"
    using q(1) s'(1) by (simp add: sswap_rdma_poll_load_def)
  ultimately show ?thesis
    unfolding qc using sq' rdma_inv_polled [OF s'(2) I] s'(2) by blast
qed

lemma async_softirq_ok:
  assumes N: "nic_ok E" "nic_outcome E good" and I: "rdma_inv s" and cpu: "uint c < numcpus s"
  shows "\<exists>q s' n. async_softirq E c budget s = Ret n s' \<and> rdma_inv s' \<and> polled E good q s s'
    \<and> int q = uint c + numcpus s \<and> n = int (length (sq s q)) - int (length (sq s' q))
    \<and> n = int (length (ib_poll_cq E (clock s) q (sq s q) [] budget))"
proof -
  note C = rdma_invD(1) [OF I]
  have N': "nic_ordered E" using N(1) by (auto simp: nic_ok_def)
  obtain q where q: "sswap_rdma_get_queue c QP_READ_ASYNC s = Ret q s" "q < nq s"
      "int q = uint c + numcpus s"
    using get_queue_ok [OF C cpu, of QP_READ_ASYNC] by auto
  note Q = queue_okD [OF rdma_coreD(6) [OF C q(2)]]
  obtain h where h: "cq (qof q s) = Some h" using Q(3) by auto
  let ?s = "(after_poll E q budget s)\<lparr>clock := Suc (clock s)\<rparr>"
  let ?wcs = "ib_poll_cq E (clock s) q (sq s q) [] budget"
  have "process_wcs E q ?wcs s = Ret () (after_poll E q budget s)"
    using process_wcs_finish_all [OF C nic_orderedD(3) [OF N', of "clock s" q "sq s q" budget], of E]
    by (simp add: after_poll_def oks_now_def)
  then have "ib_process_cq_direct E q budget s = Ret (int (length ?wcs)) (after_poll E q budget s)"
    using q(2) h Q(7) by (simp add: ib_process_cq_direct_def get_handles_ok)
  then have "async_softirq E c budget s = Ret (int (length ?wcs)) ?s"
    using q(1) by (simp add: async_softirq_def cpu_relax_def after_poll_def)
  moreover have "polled E good q s ?s" by (rule polled_once [OF N' N(2) C q(2)])
  moreover have "sq ?s q = drop (length ?wcs) (sq s q)"
    using sq_after_poll [OF N', of q budget s] by (simp add: oks_now_def)
  then have "int (length ?wcs) = int (length (sq s q)) - int (length (sq ?s q))"
    using nic_orderedD(2) [OF N', of "clock s" q "sq s q" budget] by simp
  ultimately show ?thesis using q(3) rdma_inv_polled [OF _ I] by blast
qed

section \<open>A read that is waited for\<close>

lemma finish_enq_read:
  assumes "sq s q = []" "fresh_wr s q p w" "opcode w = IB_WR_RDMA_READ" "q < nq s"
  shows "finish E q w ok (enq q p w s) = s\<lparr>frames := (frames s)(p := page_filled
      (if iommu_strict E then pg_data (frames s p)
       else if ok then mem_read (farmem s) (remote_addr w)
       else dma_residue E w (pg_data (frames s p))) (frames s p)), dma_warn := dma_warn s + 1\<rparr>"
proof -
  have "gctrl (finish E q w ok (enq q p w s)) = gctrl s"
    using assms(4) by (auto simp: finish_def enq_def setq_def map_q_def qlist_def split: option.splits)
  moreover have "(sq s)(q := []) = sq s" using assms(1) by auto
  moreover have "(reqs s)(wr_cqe w := None) = reqs s" "(dma_maps s)(sge_addr w := None) = dma_maps s"
    using assms(2) by (auto simp: fresh_wr_def)
  ultimately show ?thesis
    using assms by (intro kst.equality) (simp_all add: read_result_def wr_pfn_def enq_def)
qed

text \<open>
  From a state with nothing posted, a synchronous read and the poll that follows fill the
  page with what the transfer leaves, and change nothing else but the count of unmappings
  whose direction is not the one of the mapping.
\<close>

lemma rdma_read_poll_ok:
  assumes N: "nic_ok E" "nic_outcome E good" and I: "rdma_inv s"
    and cpu: "uint (this_cpu s) < numcpus s" and e: "\<forall>q. sq s q = []"
    and pg: "read_target (frames s p)" "p \<notin> busy s"
  shows "\<exists>s1 w ok t. sswap_rdma_read_sync E p off s = Ret 0 s1
    \<and> sswap_rdma_poll_load E (uint (this_cpu s)) s1 = Ret 1
        (s\<lparr>frames := (frames s)(p := page_filled
             (if iommu_strict E then pg_data (frames s p)
              else if ok then far_page s off
              else dma_residue E w (pg_data (frames s p))) (frames s p)), dma_warn := dma_warn s + 1, clock := t\<rparr>)
    \<and> remote_addr w = far_addr s off \<and> rkey w = key (mr_of s) \<and> sge_length w = PAGE_SIZE
    \<and> good w ok"
proof -
  obtain q s0 w where r: "sswap_rdma_read_sync E p off s = Ret 0 (enq q p w s0)" "q < nq s"
      "int q = uint (this_cpu s) + queue_base (numcpus s) QP_READ_SYNC"
      "polled E good q s s0" "fresh_wr s0 q p w"
      "remote_addr w = far_addr s off" "rdma_inv (enq q p w s0)"
    using rdma_read_ok [OF N I cpu pg, of sswap_rdma_read_sync QP_READ_SYNC off] by auto
  define t0 where "t0 = clock s0"
  have s0: "s0 = s\<lparr>clock := t0\<rparr>" unfolding t0_def using r(4) e by (simp add: polled_empty)
  have q: "nat (uint (this_cpu s)) = q" using r(3) by (metis add.right_neutral nat_int queue_base.simps(1))
  have sq0: "sq s0 q = []" "sq (enq q p w s0) q = [w]" using e by (simp_all add: s0)
  obtain s2 where s2: "sswap_rdma_poll_load E (uint (this_cpu s)) (enq q p w s0) = Ret 1 s2"
      "polled E good q (enq q p w s0) s2" "sq s2 = (sq (enq q p w s0))(q := [])"
    using rdma_poll_load_ok [OF N r(7), of "uint (this_cpu s)"] cpu unfolding q by (auto simp: s0)
  obtain ok where ok: "good w ok" "s2 = (finish E q w ok (enq q p w s0))\<lparr>clock := clock s2\<rparr>"
    using polled_single [OF s2(2) sq0(2)] s2(3) by auto
  define t2 where "t2 = clock s2"
  have "int q < 2 * numcpus s" using r(3) cpu rdma_coreD(2) [OF rdma_invD(1) [OF I]] by simp
  then have op: "opcode w = IB_WR_RDMA_READ" using r(5) by (simp add: fresh_wr_def s0)
  have q0: "q < nq s0" using r(2) by (simp add: s0)
  have "s2 = s\<lparr>frames := (frames s)(p := page_filled
        (if iommu_strict E then pg_data (frames s p)
         else if ok then far_page s off
         else dma_residue E w (pg_data (frames s p))) (frames s p)), dma_warn := dma_warn s + 1, clock := t2\<rparr>"
    using ok(2) unfolding finish_enq_read [OF sq0(1) r(5) op q0] t2_def [symmetric]
    by (simp add: s0 far_page_def r(6))
  then show ?thesis
    using r(1,5,6) s2(1) ok(1) by (intro exI [of _ "enq q p w s0"] exI [of _ w] exI [of _ ok] exI [of _ t2])
      (auto simp: fresh_wr_def s0)
qed

end
