(* ===== verification/Fastswap.thy ===== *)
theory Fastswap
  imports Kernel_Page
begin

text \<open>
  The frontswap module, \<open>src/code/drivers/fastswap.c\<close>. It is compiled against one of two
  backends that export the same functions; a backend is a record of these functions. The
  interface a backend has to meet is the locale \<open>swap_backend\<close>, which the theories of the
  backends interpret. Inside it the module is shown to implement a swap device, specified as
  a map from page identifiers to page contents.
\<close>

section \<open>The backend's functions\<close>

record 's backend_ops =
  be_write :: "pfn \<Rightarrow> u64 \<Rightarrow> ('s, int) kmon"
  be_read_async :: "pfn \<Rightarrow> u64 \<Rightarrow> ('s, int) kmon"
  be_read_sync :: "pfn \<Rightarrow> u64 \<Rightarrow> ('s, int) kmon"
  be_poll_load :: "int \<Rightarrow> ('s, int) kmon"

section \<open>Operations\<close>

text \<open>
  \<open>pageid << PAGE_SHIFT\<close> is computed in 64 bits: the upper 12 bits of \<open>pageid\<close> are lost.
  The swap area \<open>type\<close> is not used by any operation.
\<close>

definition page_off :: "u64 \<Rightarrow> u64" where
  "page_off pageid = push_bit PAGE_SHIFT pageid"

definition sswap_store :: "'s backend_ops \<Rightarrow> u32 \<Rightarrow> u64 \<Rightarrow> pfn \<Rightarrow> ('s, int) kmon" where
  "sswap_store B type pageid page =
     kbind (be_write B page (page_off pageid)) (\<lambda>r. if r \<noteq> 0 then kret (-1) else kret 0)"

definition sswap_load_async :: "'s backend_ops \<Rightarrow> u32 \<Rightarrow> u64 \<Rightarrow> pfn \<Rightarrow> ('s, int) kmon" where
  "sswap_load_async B type pageid page =
     kbind (be_read_async B page (page_off pageid)) (\<lambda>r. if r \<noteq> 0 then kret (-1) else kret 0)"

definition sswap_load :: "'s backend_ops \<Rightarrow> u32 \<Rightarrow> u64 \<Rightarrow> pfn \<Rightarrow> ('s, int) kmon" where
  "sswap_load B type pageid page =
     kbind (be_read_sync B page (page_off pageid)) (\<lambda>r. if r \<noteq> 0 then kret (-1) else kret 0)"

definition sswap_poll_load :: "'s backend_ops \<Rightarrow> int \<Rightarrow> ('s, int) kmon" where
  "sswap_poll_load B cpu = be_poll_load B cpu"

definition sswap_invalidate_page :: "u32 \<Rightarrow> u64 \<Rightarrow> ('s, unit) kmon" where
  "sswap_invalidate_page type offset = kret ()"

definition sswap_invalidate_area :: "u32 \<Rightarrow> ('s, unit) kmon" where
  "sswap_invalidate_area type = kret ()"

definition sswap_init :: "u32 \<Rightarrow> ('s, unit) kmon" where
  "sswap_init type = kret ()"

record 's frontswap_ops =
  fo_init :: "u32 \<Rightarrow> ('s, unit) kmon"
  fo_store :: "u32 \<Rightarrow> u64 \<Rightarrow> pfn \<Rightarrow> ('s, int) kmon"
  fo_load :: "u32 \<Rightarrow> u64 \<Rightarrow> pfn \<Rightarrow> ('s, int) kmon"
  fo_poll_load :: "int \<Rightarrow> ('s, int) kmon"
  fo_load_async :: "u32 \<Rightarrow> u64 \<Rightarrow> pfn \<Rightarrow> ('s, int) kmon"
  fo_invalidate_page :: "u32 \<Rightarrow> u64 \<Rightarrow> ('s, unit) kmon"
  fo_invalidate_area :: "u32 \<Rightarrow> ('s, unit) kmon"

definition sswap_frontswap_ops :: "'s backend_ops \<Rightarrow> 's frontswap_ops" where
  "sswap_frontswap_ops B =
     \<lparr>fo_init = sswap_init, fo_store = sswap_store B, fo_load = sswap_load B,
      fo_poll_load = sswap_poll_load B, fo_load_async = sswap_load_async B,
      fo_invalidate_page = sswap_invalidate_page, fo_invalidate_area = sswap_invalidate_area\<rparr>"

definition sswap_init_debugfs :: "('k, int) kmon" where
  "sswap_init_debugfs = kret 0"

text \<open>\<open>frontswap_register_ops\<close> belongs to the kernel and is a parameter.\<close>

definition init_sswap ::
    "('s frontswap_ops \<Rightarrow> ('k, unit) kmon) \<Rightarrow> 's backend_ops \<Rightarrow> ('k, int) kmon" where
  "init_sswap frontswap_register_ops B =
     kthen (frontswap_register_ops (sswap_frontswap_ops B))
    (kbind sswap_init_debugfs (\<lambda>r. kret 0))"

definition exit_sswap :: "('k, unit) kmon" where
  "exit_sswap = kret ()"

section \<open>Page identifiers and offsets\<close>

lemma uint_less_52: "uint i < 4503599627370496" if "unat i < 2 ^ 52" for i :: u64
proof -
  have "int (unat i) < int (2 ^ 52)" using that by (simp only: of_nat_less_iff)
  then show ?thesis by simp
qed

lemma uint_page_off:
  assumes "unat i < 2 ^ 52"
  shows "uint (page_off i) = uint i * 4096"
proof -
  have "uint i < 4503599627370496" using assms by (rule uint_less_52)
  moreover have "uint (page_off i) = uint i * 4096 mod 2 ^ 64"
    by (simp add: page_off_def PAGE_SHIFT_def push_bit_eq_mult uint_word_ariths(3))
  moreover have "0 \<le> uint i" by (rule uint_ge_0)
  ultimately show ?thesis by simp
qed

lemma unat_page_off: "unat i < 2 ^ 52 \<Longrightarrow> unat (page_off i) = unat i * 4096"
  using uint_page_off [of i] by (metis nat_mult_distrib nat_numeral uint_ge_0 unat_eq_nat_uint)

text \<open>Different pages of the device never overlap.\<close>

lemma page_off_apart:
  assumes "unat i < 2 ^ 52" "unat j < 2 ^ 52" "i \<noteq> j"
  shows "pages_apart (page_off i) (page_off j)"
proof -
  have far: "PAGE_SIZE \<le> page_off a - page_off b"
    if "unat a < 2 ^ 52" "unat b < 2 ^ 52" "a \<noteq> b" for a b
  proof -
    have lt: "uint a < 4503599627370496" "uint b < 4503599627370496"
      using that(1,2) by (auto intro: uint_less_52)
    have "uint (page_off a - page_off b) = (4096 * (uint a - uint b)) mod (4096 * 4503599627370496)"
      using that(1,2) by (simp add: uint_word_ariths(2) uint_page_off right_diff_distrib
          mult.commute [of _ 4096])
    also have "\<dots> = 4096 * ((uint a - uint b) mod 4503599627370496)"
      by (rule mult_mod_right [symmetric])
    finally have eq: "uint (page_off a - page_off b) = 4096 * ((uint a - uint b) mod 4503599627370496)" .
    have "uint a - uint b \<noteq> 0" using that(3) by (simp add: word_uint_eq_iff)
    then have "\<not> 4503599627370496 dvd uint a - uint b"
      using dvd_imp_le_int [of "uint a - uint b" 4503599627370496] lt uint_ge_0 [of a] uint_ge_0 [of b]
      by linarith
    then have "(uint a - uint b) mod 4503599627370496 \<noteq> 0" by (simp add: mod_eq_0_iff_dvd)
    moreover have "0 \<le> (uint a - uint b) mod 4503599627370496" by simp
    ultimately have "4096 \<le> uint (page_off a - page_off b)" unfolding eq by linarith
    then show ?thesis by (simp add: word_le_def PAGE_SIZE_def)
  qed
  show ?thesis unfolding pages_apart_def using far assms by blast
qed

section \<open>The swap device\<close>

text \<open>
  The specification: page contents by page identifier, and the page frames of the client.
  \<open>Mm\<close> stands for whatever the memory management does to a frame between swap operations.
  A load is the pair of calls the kernel makes for a page fault, \<open>frontswap_load\<close> and
  \<open>frontswap_poll_load\<close> on the same processor.
\<close>

record swap_dev =
  slots :: "u64 \<rightharpoonup> page_data"
  memory :: "pfn \<Rightarrow> page"

datatype swap_call = Mm pfn page | Store u32 u64 pfn | Load u32 u64 pfn

fun dev_call :: "swap_call \<Rightarrow> swap_dev \<Rightarrow> swap_dev" where
  "dev_call (Mm p v) d = d\<lparr>memory := (memory d)(p := v)\<rparr>"
| "dev_call (Store ty i p) d = d\<lparr>slots := (slots d)(i \<mapsto> pg_data (memory d p))\<rparr>"
| "dev_call (Load ty i p) d =
     d\<lparr>memory := (memory d)(p := page_filled (the (slots d i)) (memory d p))\<rparr>"

text \<open>
  What the kernel respects: a page stored is in the swap cache, a page identifier lies inside
  the backend's \<open>cap\<close> bytes, and only a page stored before is loaded, into a locked frame.
\<close>

definition slot_fits :: "u64 \<Rightarrow> u64 \<Rightarrow> bool" where
  "slot_fits cap i \<longleftrightarrow> (unat i + 1) * 4096 \<le> unat cap"

fun call_ok :: "u64 \<Rightarrow> swap_call \<Rightarrow> swap_dev \<Rightarrow> bool" where
  "call_ok cap (Mm p v) d = True"
| "call_ok cap (Store ty i p) d = (PageSwapCache (memory d p) \<and> slot_fits cap i)"
| "call_ok cap (Load ty i p) d =
     (read_target (memory d p) \<and> slot_fits cap i \<and> slots d i \<noteq> None)"

fun calls_ok :: "u64 \<Rightarrow> swap_call list \<Rightarrow> swap_dev \<Rightarrow> bool" where
  "calls_ok cap [] d = True"
| "calls_ok cap (c # cs) d = (call_ok cap c d \<and> calls_ok cap cs (dev_call c d))"

text \<open>The calls on the driver: its result is 0 for every one that succeeds.\<close>

definition swap_load_page :: "'s backend_ops \<Rightarrow> ('s \<Rightarrow> int) \<Rightarrow> u32 \<Rightarrow> u64 \<Rightarrow> pfn \<Rightarrow> ('s, int) kmon" where
  "swap_load_page B cpu_of type pageid page =
     kbind (kgets cpu_of) (\<lambda>cpu.
     kbind (sswap_load B type pageid page) (\<lambda>ret.
     kthen (bug_on (ret \<noteq> 0))
    (kthen (sswap_poll_load B cpu) (kret ret))))"

fun run_call ::
    "'s backend_ops \<Rightarrow> ('s \<Rightarrow> int) \<Rightarrow> (pfn \<Rightarrow> page \<Rightarrow> 's \<Rightarrow> 's) \<Rightarrow> swap_call \<Rightarrow> ('s, int) kmon" where
  "run_call B cpu_of set_pg (Mm p v) = kthen (kmodify (set_pg p v)) (kret 0)"
| "run_call B cpu_of set_pg (Store ty i p) = sswap_store B ty i p"
| "run_call B cpu_of set_pg (Load ty i p) = swap_load_page B cpu_of ty i p"

fun run_calls ::
    "'s backend_ops \<Rightarrow> ('s \<Rightarrow> int) \<Rightarrow> (pfn \<Rightarrow> page \<Rightarrow> 's \<Rightarrow> 's) \<Rightarrow> swap_call list \<Rightarrow> ('s, int list) kmon"
  where
  "run_calls B cpu_of set_pg [] = kret []"
| "run_calls B cpu_of set_pg (c # cs) =
     kbind (run_call B cpu_of set_pg c) (\<lambda>r.
     kbind (run_calls B cpu_of set_pg cs) (\<lambda>rs. kret (r # rs)))"

lemma slot_fitsD:
  assumes "slot_fits cap i"
  shows "unat i < 2 ^ 52" "unat (page_off i) + unat PAGE_SIZE \<le> unat cap"
proof -
  have "unat cap < 2 ^ 64" using unsigned_less [of cap, where 'a = nat] by simp
  then show i: "unat i < 2 ^ 52" using assms by (simp add: slot_fits_def)
  show "unat (page_off i) + unat PAGE_SIZE \<le> unat cap"
    using assms unat_page_off [OF i] by (simp add: slot_fits_def PAGE_SIZE_def)
qed

text \<open>
  Far memory \<open>far\<close> (by offset) and page frames \<open>pg\<close> implement a state of the swap device.
\<close>

definition dev_rel :: "u64 \<Rightarrow> (u64 \<Rightarrow> page_data) \<Rightarrow> (pfn \<Rightarrow> page) \<Rightarrow> swap_dev \<Rightarrow> bool" where
  "dev_rel cap far pg d \<longleftrightarrow> pg = memory d
     \<and> (\<forall>i v. slots d i = Some v \<longrightarrow> slot_fits cap i \<and> far (page_off i) = v)"

section \<open>The interface of a backend\<close>

text \<open>
  \<open>inv\<close> is the backend's invariant between calls, with no transfer in flight; \<open>far\<close> is the
  page stored at an offset, \<open>pg\<close> the client's page frames, \<open>cap\<close> the size of the far memory.
\<close>

locale swap_backend =
  fixes B :: "'s backend_ops"
    and inv :: "'s \<Rightarrow> bool"
    and far :: "'s \<Rightarrow> u64 \<Rightarrow> page_data"
    and pg :: "'s \<Rightarrow> pfn \<Rightarrow> page"
    and set_pg :: "pfn \<Rightarrow> page \<Rightarrow> 's \<Rightarrow> 's"
    and cap :: u64
    and cpu_of :: "'s \<Rightarrow> int"
  assumes mm_ok: "inv s \<Longrightarrow> inv (set_pg p v s) \<and> pg (set_pg p v s) = (pg s)(p := v)
      \<and> far (set_pg p v s) = far s"
    and write_ok: "inv s \<Longrightarrow> unat off + unat PAGE_SIZE \<le> unat cap \<Longrightarrow> PageSwapCache (pg s p) \<Longrightarrow>
      \<exists>s'. be_write B p off s = Ret 0 s' \<and> inv s' \<and> pg s' = pg s
        \<and> far s' off = pg_data (pg s p)
        \<and> (\<forall>off'. pages_apart off off' \<longrightarrow> far s' off' = far s off')"
    and read_ok: "inv s \<Longrightarrow> unat off + unat PAGE_SIZE \<le> unat cap \<Longrightarrow> read_target (pg s p) \<Longrightarrow>
      \<exists>s1 r s2. be_read_sync B p off s = Ret 0 s1 \<and> be_poll_load B (cpu_of s) s1 = Ret r s2
        \<and> inv s2 \<and> pg s2 = (pg s)(p := page_filled (far s off) (pg s p))
        \<and> (\<forall>off'. far s2 off' = far s off')"
begin

abbreviation implements :: "'s \<Rightarrow> swap_dev \<Rightarrow> bool" where
  "implements s d \<equiv> inv s \<and> dev_rel cap (far s) (pg s) d"

lemma call_refines:
  assumes R: "implements s d" and ok: "call_ok cap c d"
  shows "\<exists>s'. run_call B cpu_of set_pg c s = Ret 0 s' \<and> implements s' (dev_call c d)"
proof (cases c)
  case (Mm p v)
  then show ?thesis using R mm_ok [of s p v] by (simp add: dev_rel_def)
next
  case (Store ty i p)
  have i: "slot_fits cap i" and I: "inv s" and sc: "PageSwapCache (pg s p)"
    using ok R Store by (auto simp: dev_rel_def)
  obtain s' where s': "be_write B p (page_off i) s = Ret 0 s'" "inv s'" "pg s' = pg s"
      "far s' (page_off i) = pg_data (pg s p)"
      "\<And>off'. pages_apart (page_off i) off' \<Longrightarrow> far s' off' = far s off'"
    using write_ok [OF I slot_fitsD(2) [OF i] sc] by blast
  have "far s' (page_off j) = far s (page_off j)" if "slots d j = Some v" "j \<noteq> i" for j v
    using that R slot_fitsD(1) i by (intro s'(5) page_off_apart) (auto simp: dev_rel_def)
  then have "implements s' (dev_call c d)"
    using R s' i Store by (auto simp: dev_rel_def)
  with s'(1) Store show ?thesis by (simp add: sswap_store_def)
next
  case (Load ty i p)
  have i: "slot_fits cap i" and I: "inv s" and rt: "read_target (pg s p)"
    and f: "far s (page_off i) = the (slots d i)"
    using ok R Load by (auto simp: dev_rel_def)
  obtain s1 r s2 where s2: "be_read_sync B p (page_off i) s = Ret 0 s1"
      "be_poll_load B (cpu_of s) s1 = Ret r s2" "inv s2"
      "pg s2 = (pg s)(p := page_filled (far s (page_off i)) (pg s p))"
      "\<And>off'. far s2 off' = far s off'"
    using read_ok [OF I slot_fitsD(2) [OF i] rt] by blast
  have "implements s2 (dev_call c d)"
    using R s2(3-5) f Load by (auto simp: dev_rel_def)
  with s2(1,2) Load show ?thesis
    by (simp add: swap_load_page_def sswap_load_def sswap_poll_load_def)
qed

text \<open>Every sequence of calls behaves as on the swap device.\<close>

lemma calls_refine:
  "implements s d \<Longrightarrow> calls_ok cap cs d \<Longrightarrow>
   \<exists>s'. run_calls B cpu_of set_pg cs s = Ret (replicate (length cs) 0) s'
     \<and> implements s' (fold dev_call cs d)"
proof (induction cs arbitrary: s d)
  case (Cons c cs)
  obtain s1 where s1: "run_call B cpu_of set_pg c s = Ret 0 s1" "implements s1 (dev_call c d)"
    using call_refines [OF Cons.prems(1)] Cons.prems(2) by auto
  then obtain s' where "run_calls B cpu_of set_pg cs s1 = Ret (replicate (length cs) 0) s'"
      "implements s' (fold dev_call cs (dev_call c d))"
    using Cons.IH [OF s1(2)] Cons.prems(2) by auto
  with s1(1) show ?case by simp
qed simp

end

end
