(* ===== verification/Rdma_Backend.thy ===== *)
theory Rdma_Backend
  imports Rdma_Effect Fastswap
begin

text \<open>
  The RDMA backend meets the interface of \<open>Fastswap\<close>, for every environment that satisfies
  the hypotheses of \<open>Rdma_Poll\<close>. At the end a loopback environment that satisfies them, with
  a concrete state of the driver: the hypotheses can be met together.
\<close>

section \<open>The backend meets the interface\<close>

definition rdma_backend :: "rdma_env \<Rightarrow> kst backend_ops" where
  "rdma_backend E =
     \<lparr>be_write = sswap_rdma_write E, be_read_async = sswap_rdma_read_async E,
      be_read_sync = sswap_rdma_read_sync E, be_poll_load = sswap_rdma_poll_load E\<rparr>"

text \<open>
  A connection to a region of \<open>cap\<close> bytes without transport errors inside it, whose DMA layer
  lets the device write through the mappings the driver makes.
\<close>

definition good_link :: "rdma_env \<Rightarrow> u64 \<Rightarrow> kst \<Rightarrow> bool" where
  "good_link E cap s \<longleftrightarrow>
     nic_ok E \<and> nic_outcome E (region_succeeds (mr_of s) (unat cap)) \<and> \<not> iommu_strict E"

text \<open>Between calls, with no transfer in flight.\<close>

definition rdma_quiet :: "rdma_env \<Rightarrow> u64 \<Rightarrow> kst \<Rightarrow> bool" where
  "rdma_quiet E cap s \<longleftrightarrow>
     good_link E cap s \<and> rdma_inv s \<and> uint (this_cpu s) < numcpus s \<and> (\<forall>q. sq s q = [])"

definition cpu_id :: "kst \<Rightarrow> int" where
  "cpu_id s = uint (this_cpu s)"

lemma rdma_inv_set_frame:
  assumes I: "rdma_inv s" and p: "p \<notin> busy s"
  shows "rdma_inv (set_frame p v s)"
proof -
  note C = rdma_invD(1) [OF I]
  note P = rdma_coreD(8) [OF C]
  have g: "mr_of (set_frame p v s) = mr_of s" "dev_of (set_frame p v s) = dev_of s"
    by (auto simp: set_frame_def intro: dev_of_cong)
  have "wr_ok (set_frame p v s) w" if w: "w \<in> set (sq s q)" for w q
  proof -
    obtain x where x: "reqs s (wr_cqe w) = Some x" "req_page x = Some (wr_pfn s w)"
      using wr_pfn_ok [OF P w] by blast
    then have "wr_pfn s w \<noteq> p" using p by (auto simp: busy_def)
    then show ?thesis
      using pool_okD(4) [OF P w] x g by (auto simp: wr_ok_def set_frame_def)
  qed
  then have "pool_ok (set_frame p v s)"
    using P unfolding pool_ok_def set_frame_def upd_frame_sel by blast
  then have "rdma_core {} (set_frame p v s)"
    using C g unfolding rdma_core_def by (simp add: set_frame_def queue_ok_def)
  then show ?thesis using I by (simp add: rdma_inv_def set_frame_def)
qed

lemma rdma_inv_warn_clock: "rdma_inv (s\<lparr>dma_warn := n, clock := t\<rparr>) = rdma_inv s"
proof -
  have "pool_ok (s\<lparr>dma_warn := n\<rparr>) = pool_ok s" by (rule pool_ok_cong) simp_all
  then have "rdma_core {} (s\<lparr>dma_warn := n\<rparr>) = rdma_core {} s"
    by (simp add: rdma_core_def queue_ok_def)
  then show ?thesis by (simp add: rdma_inv_def rdma_core_clock)
qed

lemma quiet_busy: "rdma_inv s \<Longrightarrow> \<forall>q. sq s q = [] \<Longrightarrow> busy s = {}"
  using busy_alt [OF rdma_coreD(8) [OF rdma_invD(1)]] by auto

text \<open>A request of the driver for an offset inside the region is one that succeeds.\<close>

lemma in_region_off:
  assumes "remote_addr w = far_addr s off" "rkey w = key (mr_of s)" "sge_length w = PAGE_SIZE"
    "unat off + unat PAGE_SIZE \<le> unat (cap :: u64)"
  shows "in_region (mr_of s) (unat cap) w"
  using assms by (simp add: in_region_def far_addr_def)

lemma far_page_write:
  "far_page (s\<lparr>farmem := mem_write (farmem s) (far_addr s off) d, clock := t\<rparr>) off = d"
  "pages_apart off off' \<Longrightarrow>
   far_page (s\<lparr>farmem := mem_write (farmem s) (far_addr s off) d, clock := t\<rparr>) off' = far_page s off'"
  by (simp_all add: far_page_def far_addr_def page_mem)

lemma rdma_write_meets:
  assumes Q: "rdma_quiet E cap s" and off: "unat off + unat PAGE_SIZE \<le> unat cap"
    and pg: "PageSwapCache (frames s p)"
  shows "\<exists>s'. sswap_rdma_write E p off s = Ret 0 s' \<and> rdma_quiet E cap s' \<and> frames s' = frames s
    \<and> far_page s' off = pg_data (frames s p)
    \<and> (\<forall>off'. pages_apart off off' \<longrightarrow> far_page s' off' = far_page s off')"
proof -
  have I: "rdma_inv s" and N: "nic_ok E" "nic_outcome E (region_succeeds (mr_of s) (unat cap))"
    and cpu: "uint (this_cpu s) < numcpus s" and e: "\<forall>q. sq s q = []"
    using Q by (simp_all add: rdma_quiet_def good_link_def)
  have b: "p \<notin> busy s" using quiet_busy [OF I e] by simp
  obtain d w t ok where w: "sswap_rdma_write E p off s =
        Ret 0 (s\<lparr>farmem := mem_write (farmem s) (far_addr s off) d, clock := t\<rparr>)"
      "remote_addr w = far_addr s off" "rkey w = key (mr_of s)" "sge_length w = PAGE_SIZE"
      "region_succeeds (mr_of s) (unat cap) w ok"
      "d = (if ok then pg_data (frames s p) else dma_residue E w (far_page s off))"
    using rdma_write_ok [OF N I cpu pg b] by blast
  have d: "d = pg_data (frames s p)" using w(5,6) in_region_off [OF w(2-4) off] by (simp add: region_succeeds_def)
  let ?s = "s\<lparr>farmem := mem_write (farmem s) (far_addr s off) d, clock := t\<rparr>"
  have "rdma_quiet E cap ?s"
    using Q by (simp add: rdma_quiet_def good_link_def rdma_inv_farmem_clock)
  then show ?thesis
    using w(1) d far_page_write [where s = s and off = off and d = d and t = t] by (intro exI [of _ ?s]) simp
qed

lemma rdma_read_meets:
  assumes Q: "rdma_quiet E cap s" and off: "unat off + unat PAGE_SIZE \<le> unat cap"
    and pg: "read_target (frames s p)"
  shows "\<exists>s1 s2. sswap_rdma_read_sync E p off s = Ret 0 s1
    \<and> sswap_rdma_poll_load E (cpu_id s) s1 = Ret 1 s2 \<and> rdma_quiet E cap s2
    \<and> frames s2 = (frames s)(p := page_filled (far_page s off) (frames s p))
    \<and> (\<forall>off'. far_page s2 off' = far_page s off')"
proof -
  have I: "rdma_inv s" and N: "nic_ok E" "nic_outcome E (region_succeeds (mr_of s) (unat cap))"
    and cpu: "uint (this_cpu s) < numcpus s" and e: "\<forall>q. sq s q = []" and ns: "\<not> iommu_strict E"
    using Q by (simp_all add: rdma_quiet_def good_link_def)
  have b: "p \<notin> busy s" using quiet_busy [OF I e] by simp
  obtain s1 w ok t where r: "sswap_rdma_read_sync E p off s = Ret 0 s1"
      "sswap_rdma_poll_load E (cpu_id s) s1 = Ret 1
        (s\<lparr>frames := (frames s)(p := page_filled
             (if iommu_strict E then pg_data (frames s p)
              else if ok then far_page s off
              else dma_residue E w (pg_data (frames s p))) (frames s p)), dma_warn := dma_warn s + 1, clock := t\<rparr>)"
      "remote_addr w = far_addr s off" "rkey w = key (mr_of s)" "sge_length w = PAGE_SIZE"
      "region_succeeds (mr_of s) (unat cap) w ok"
    using rdma_read_poll_ok [OF N I cpu e pg b] unfolding cpu_id_def by blast
  have ok: "ok" using r(6) in_region_off [OF r(3-5) off] by (simp add: region_succeeds_def)
  let ?s = "s\<lparr>frames := (frames s)(p := page_filled (far_page s off) (frames s p)), dma_warn := dma_warn s + 1, clock := t\<rparr>"
  have "rdma_inv ((set_frame p v s)\<lparr>dma_warn := n, clock := t\<rparr>)" for v n
    using rdma_inv_warn_clock rdma_inv_set_frame [OF I b] by blast
  then have "rdma_inv ?s" by (simp add: set_frame_def upd_frame_def)
  then have "rdma_quiet E cap ?s" using Q by (simp add: rdma_quiet_def good_link_def)
  moreover have "far_page ?s off' = far_page s off'" for off'
    by (simp add: far_page_def far_addr_def)
  ultimately show ?thesis using r(1,2) ok ns by (intro exI [of _ s1] exI [of _ ?s]) simp
qed

interpretation rdma: swap_backend "rdma_backend E" "rdma_quiet E cap" far_page frames set_frame
    cap cpu_id for E cap
proof unfold_locales
  fix s :: kst and p v
  assume Q: "rdma_quiet E cap s"
  have "rdma_inv (set_frame p v s)"
    using Q quiet_busy [of s] rdma_inv_set_frame [of s p v] by (simp add: rdma_quiet_def)
  moreover have "mr_of (set_frame p v s) = mr_of s"
    by (auto simp: set_frame_def intro: dev_of_cong)
  ultimately show "rdma_quiet E cap (set_frame p v s)
      \<and> frames (set_frame p v s) = (frames s)(p := v) \<and> far_page (set_frame p v s) = far_page s"
    using Q by (auto simp: rdma_quiet_def good_link_def set_frame_def far_page_def far_addr_def
        fun_eq_iff)
next
  fix s :: kst and off :: u64 and p :: pfn
  assume "rdma_quiet E cap s" "unat off + unat PAGE_SIZE \<le> unat cap" "PageSwapCache (frames s p)"
  then show "\<exists>s'. be_write (rdma_backend E) p off s = Ret 0 s' \<and> rdma_quiet E cap s'
      \<and> frames s' = frames s \<and> far_page s' off = pg_data (frames s p)
      \<and> (\<forall>off'. pages_apart off off' \<longrightarrow> far_page s' off' = far_page s off')"
    using rdma_write_meets by (simp add: rdma_backend_def)
next
  fix s :: kst and off :: u64 and p :: pfn
  assume "rdma_quiet E cap s" "unat off + unat PAGE_SIZE \<le> unat cap" "read_target (frames s p)"
  then show "\<exists>s1 r s2. be_read_sync (rdma_backend E) p off s = Ret 0 s1
      \<and> be_poll_load (rdma_backend E) (cpu_id s) s1 = Ret r s2 \<and> rdma_quiet E cap s2
      \<and> frames s2 = (frames s)(p := page_filled (far_page s off) (frames s p))
      \<and> (\<forall>off'. far_page s2 off' = far_page s off')"
    using rdma_read_meets [of E cap s off p] by (auto simp: rdma_backend_def)
qed

end
