(* ===== verification/Rdma_System.thy ===== *)
theory Rdma_System
  imports Rdma_Backend
begin

text \<open>
  Interleavings of the RDMA backend: any number of processors issue stores, synchronous and
  asynchronous loads and polls, softirqs deliver completions of asynchronous reads at any
  time, and the memory management changes pages that no transfer refers to. The step
  relation has one rule per event; its invariant is proved by rule induction, together with
  the progress of every event: no crash, no hang.
\<close>

section \<open>Events\<close>

datatype rdma_call =
    CWrite pfn u64
  | CReadSync pfn u64
  | CReadAsync pfn u64
  | CPollLoad int
  | CSoftirq u32 nat
  | CMigrate u32
  | CPage pfn page

fun do_call :: "rdma_env \<Rightarrow> rdma_call \<Rightarrow> (kst, int) kmon" where
  "do_call E (CWrite p off) = sswap_rdma_write E p off"
| "do_call E (CReadSync p off) = sswap_rdma_read_sync E p off"
| "do_call E (CReadAsync p off) = sswap_rdma_read_async E p off"
| "do_call E (CPollLoad cpu) = sswap_rdma_poll_load E cpu"
| "do_call E (CSoftirq cpu n) = async_softirq E cpu n"
| "do_call E (CMigrate cpu) = kthen (kmodify (\<lambda>s. s\<lparr>this_cpu := cpu\<rparr>)) (kret 0)"
| "do_call E (CPage p v) = kthen (kmodify (set_frame p v)) (kret 0)"

text \<open>
  What the kernel respects: pages handed to the driver are in the swap cache and not in
  another transfer, a page read into is locked and not valid, processors exist.
\<close>

fun may_call :: "kst \<Rightarrow> rdma_call \<Rightarrow> bool" where
  "may_call s (CWrite p off) = (PageSwapCache (frames s p) \<and> p \<notin> busy s)"
| "may_call s (CReadSync p off) = (read_target (frames s p) \<and> p \<notin> busy s)"
| "may_call s (CReadAsync p off) = (read_target (frames s p) \<and> p \<notin> busy s)"
| "may_call s (CPollLoad cpu) = (0 \<le> cpu \<and> cpu < numcpus s)"
| "may_call s (CSoftirq cpu n) = (uint cpu < numcpus s)"
| "may_call s (CMigrate cpu) = (uint cpu < numcpus s)"
| "may_call s (CPage p v) = (p \<notin> busy s)"

inductive rdma_step :: "rdma_env \<Rightarrow> kst \<Rightarrow> rdma_call \<Rightarrow> kst \<Rightarrow> bool" for E where
  step: "may_call s c \<Longrightarrow> do_call E c s = Ret r s' \<Longrightarrow> rdma_step E s c s'"

inductive rdma_run :: "rdma_env \<Rightarrow> kst \<Rightarrow> rdma_call list \<Rightarrow> kst \<Rightarrow> bool" for E where
  run_nil: "rdma_run E s [] s"
| run_snoc: "rdma_run E s cs s1 \<Longrightarrow> rdma_step E s1 c s2 \<Longrightarrow> rdma_run E s (cs @ [c]) s2"

inductive_cases rdma_stepE: "rdma_step E s c s'"

section \<open>The invariant\<close>

text \<open>The invariant of the system: the driver's, on a processor that exists.\<close>

definition sys_inv :: "kst \<Rightarrow> bool" where
  "sys_inv s \<longleftrightarrow> rdma_inv s \<and> uint (this_cpu s) < numcpus s"

lemma rdma_inv_this_cpu: "rdma_inv (s\<lparr>this_cpu := c\<rparr>) = rdma_inv s"
proof -
  have g: "mr_of (s\<lparr>this_cpu := c\<rparr>) = mr_of s" "dev_of (s\<lparr>this_cpu := c\<rparr>) = dev_of s"
    "qlist (s\<lparr>this_cpu := c\<rparr>) = qlist s" "\<And>q. qof q (s\<lparr>this_cpu := c\<rparr>) = qof q s"
    by (auto intro: dev_of_cong)
  then have "pool_ok (s\<lparr>this_cpu := c\<rparr>) = pool_ok s" by (intro pool_ok_cong) simp_all
  with g show ?thesis by (simp add: rdma_inv_def rdma_core_def queue_ok_def)
qed

text \<open>
  What one event does, whatever it is: it returns, keeps the invariant, and leaves the
  server's region and the number of processors. Far memory changes at most where a write
  goes.
\<close>

definition call_frame :: "rdma_call \<Rightarrow> kst \<Rightarrow> kst \<Rightarrow> bool" where
  "call_frame c s s' \<longleftrightarrow> mr_of s' = mr_of s \<and> numcpus s' = numcpus s
     \<and> (case c of
          CWrite p off \<Rightarrow> \<exists>d. farmem s' = mem_write (farmem s) (far_addr s off) d
        | _ \<Rightarrow> farmem s' = farmem s)"

lemma polled_call_frame:
  assumes "polled E good q s s'" "rdma_core L s" "int q < 2 * numcpus s"
  shows "mr_of s' = mr_of s" "numcpus s' = numcpus s" "this_cpu s' = this_cpu s"
    "farmem s' = farmem s"
  using polled_sel [OF assms(1)] polled_reads [OF assms] by (auto simp: reads_done_def)

lemma read_call_ok:
  assumes N: "nic_ok E" "nic_outcome E good" and I: "sys_inv s"
    and pg: "read_target (frames s p)" "p \<notin> busy s"
    and rd: "rd = sswap_rdma_read_sync \<and> qt = QP_READ_SYNC
           \<or> rd = sswap_rdma_read_async \<and> qt = QP_READ_ASYNC"
  shows "\<exists>r s'. rd E p off s = Ret r s' \<and> sys_inv s' \<and> mr_of s' = mr_of s
    \<and> numcpus s' = numcpus s \<and> farmem s' = farmem s"
proof -
  have I': "rdma_inv s" "uint (this_cpu s) < numcpus s" using I by (simp_all add: sys_inv_def)
  obtain q s1 w where r: "rd E p off s = Ret 0 (enq q p w s1)" "q < nq s"
      "int q = uint (this_cpu s) + queue_base (numcpus s) qt" "polled E good q s s1"
      "rdma_inv (enq q p w s1)"
    using rdma_read_ok [OF N I' pg rd] by blast
  have "int q < 2 * numcpus s" using r(3) I'(2) rd rdma_coreD(2) [OF rdma_invD(1) [OF I'(1)]] by auto
  note F = polled_call_frame [OF r(4) rdma_invD(1) [OF I'(1)] this]
  show ?thesis using r(1,5) F I'(2) by (auto simp: sys_inv_def)
qed

lemma call_ok_inv:
  assumes N: "nic_ok E" and I: "sys_inv s" and ok: "may_call s c"
  shows "\<exists>r s'. do_call E c s = Ret r s' \<and> sys_inv s' \<and> call_frame c s s'"
proof -
  have I': "rdma_inv s" "uint (this_cpu s) < numcpus s" using I by (simp_all add: sys_inv_def)
  note C = rdma_invD(1) [OF I'(1)]
  have R: "nic_outcome E (\<lambda>_ _. True)" by (simp add: nic_outcome_def)
  show ?thesis
  proof (cases c)
    case (CWrite p off)
    obtain d t where "sswap_rdma_write E p off s =
        Ret 0 (s\<lparr>farmem := mem_write (farmem s) (far_addr s off) d, clock := t\<rparr>)"
      using rdma_write_ok [OF N R I', of p off] ok CWrite by auto
    then show ?thesis
      using I CWrite by (auto simp: sys_inv_def rdma_inv_farmem_clock call_frame_def)
  next
    case (CReadSync p off)
    then show ?thesis
      using read_call_ok [OF N R I, of p sswap_rdma_read_sync QP_READ_SYNC off] ok
      by (auto simp: call_frame_def)
  next
    case (CReadAsync p off)
    then show ?thesis
      using read_call_ok [OF N R I, of p sswap_rdma_read_async QP_READ_ASYNC off] ok
      by (auto simp: call_frame_def)
  next
    case (CPollLoad cpu)
    then obtain s' where s': "sswap_rdma_poll_load E cpu s = Ret 1 s'" "rdma_inv s'"
        "polled E (\<lambda>_ _. True) (nat cpu) s s'"
      using rdma_poll_load_ok [OF N R I'(1), of cpu] ok by auto
    have "int (nat cpu) < 2 * numcpus s" using ok CPollLoad by simp
    note F = polled_call_frame [OF s'(3) C this]
    show ?thesis using s'(1,2) F I'(2) CPollLoad by (simp add: sys_inv_def call_frame_def)
  next
    case (CSoftirq cpu n)
    then obtain q s' k where s': "async_softirq E cpu n s = Ret k s'" "rdma_inv s'"
        "polled E (\<lambda>_ _. True) q s s'" "int q = uint cpu + numcpus s"
      using async_softirq_ok [OF N R I'(1), of cpu n] ok by auto
    have "int q < 2 * numcpus s" using ok CSoftirq s'(4) by simp
    note F = polled_call_frame [OF s'(3) C this]
    show ?thesis using s'(1,2) F I'(2) CSoftirq by (simp add: sys_inv_def call_frame_def)
  next
    case (CMigrate cpu)
    have "mr_of (s\<lparr>this_cpu := cpu\<rparr>) = mr_of s" by (rule dev_of_cong) simp
    then show ?thesis
      using ok CMigrate I'(1) by (simp add: sys_inv_def rdma_inv_this_cpu call_frame_def)
  next
    case (CPage p v)
    have "mr_of (set_frame p v s) = mr_of s" by (rule dev_of_cong) (simp add: set_frame_def)
    then show ?thesis
      using ok CPage I' rdma_inv_set_frame [of s p v]
      by (simp add: sys_inv_def call_frame_def set_frame_def)
  qed
qed

lemma step_inv:
  assumes "nic_ok E" "sys_inv s" "rdma_step E s c s'"
  shows "sys_inv s'" "call_frame c s s'"
  using call_ok_inv [OF assms(1,2), of c] assms(3) by (auto elim: rdma_stepE)

lemma run_inv: "rdma_run E s cs s' \<Longrightarrow> nic_ok E \<Longrightarrow> sys_inv s \<Longrightarrow> sys_inv s' \<and> mr_of s' = mr_of s"
proof (induction rule: rdma_run.induct)
  case (run_snoc s cs s1 c s2)
  then show ?case using step_inv [of E s1 c s2] by (auto simp: call_frame_def)
qed simp

section \<open>What is stored stays\<close>

text \<open>No event but an overlapping write changes a page of far memory.\<close>

fun writes_apart :: "u64 \<Rightarrow> rdma_call \<Rightarrow> bool" where
  "writes_apart off (CWrite p o') = pages_apart o' off"
| "writes_apart off _ = True"

lemma run_far_page:
  "rdma_run E s cs s' \<Longrightarrow> nic_ok E \<Longrightarrow> sys_inv s \<Longrightarrow> \<forall>c \<in> set cs. writes_apart off c \<Longrightarrow>
   far_page s' off = far_page s off"
proof (induction rule: rdma_run.induct)
  case (run_snoc s cs s1 c s2)
  have I1: "sys_inv s1" "far_page s1 off = far_page s off"
    using run_snoc run_inv by auto
  have f: "call_frame c s1 s2"
    by (rule step_inv(2) [OF run_snoc.prems(1) I1(1) run_snoc.hyps(2)])
  have "far_page s2 off = far_page s1 off"
  proof (cases c)
    case (CWrite p o')
    then obtain d where d: "farmem s2 = mem_write (farmem s1) (far_addr s1 o') d"
        "mr_of s2 = mr_of s1" using f by (auto simp: call_frame_def)
    have "pages_apart o' off" using run_snoc.prems(3) CWrite by simp
    then show ?thesis using d by (simp add: far_page_def far_addr_def page_mem)
  qed (use f in \<open>simp_all add: call_frame_def far_page_def far_addr_def\<close>)
  then show ?case using I1(2) by simp
qed simp

section \<open>A page being swapped in\<close>

text \<open>
  A read of offset \<open>off\<close> into page \<open>p\<close> posted on queue \<open>q\<close>: until it completes the request is
  on the queue and the page is as it was given to the driver (\<open>pg\<close>), then the page holds the
  contents \<open>v\<close> of far memory, valid and unlocked.
\<close>

definition waiting :: "u64 \<Rightarrow> qid \<Rightarrow> pfn \<Rightarrow> u64 \<Rightarrow> page \<Rightarrow> kst \<Rightarrow> bool" where
  "waiting cap q p off pg s \<longleftrightarrow>
     (\<exists>w \<in> set (sq s q). opcode w = IB_WR_RDMA_READ \<and> wr_pfn s w = p
        \<and> remote_addr w = far_addr s off \<and> in_region (mr_of s) (unat cap) w) \<and> frames s p = pg"

definition landing :: "u64 \<Rightarrow> qid \<Rightarrow> pfn \<Rightarrow> u64 \<Rightarrow> page_data \<Rightarrow> page \<Rightarrow> kst \<Rightarrow> bool" where
  "landing cap q p off v pg s \<longleftrightarrow>
     far_page s off = v \<and> (waiting cap q p off pg s \<or> frames s p = page_filled v pg)"

lemma not_posted_valid:
  assumes "rdma_core L s" "PageUptodate (frames s p)" "w \<in> set (sq s q)" "int q < 2 * numcpus s"
  shows "wr_pfn s w \<noteq> p"
  using wr_pfn_ok [OF rdma_coreD(8) [OF assms(1)] assms(3)] rdma_coreD(9) [OF assms(1,3)] assms(2,4)
  by (auto simp: read_target_def)

lemma waiting_not_done:
  assumes P: "pool_ok s" and sq': "sq s' = (sq s)(q1 := drop n (sq s q1))" and w: "w \<in> set (sq s' q)"
  shows "wr_pfn s w \<notin> wr_pfn s ` set (take n (sq s q1))"
proof
  assume "wr_pfn s w \<in> wr_pfn s ` set (take n (sq s q1))"
  then obtain w2 where w2: "w2 \<in> set (take n (sq s q1))" "wr_pfn s w2 = wr_pfn s w" by auto
  have ws: "w \<in> set (sq s q)" "w2 \<in> set (sq s q1)"
    using w w2(1) sq' by (auto split: if_splits dest: in_set_dropD in_set_takeD)
  then have eq: "wr_cqe w = wr_cqe w2" using wr_pfn_distinct(1) [OF P ws] w2(2) by auto
  then have q: "q = q1" using pool_okD(2) [OF P ws] by simp
  have "set (take n (map wr_cqe (sq s q1))) \<inter> set (drop n (map wr_cqe (sq s q1))) = {}"
    using pool_okD(1) [OF P] by (intro set_take_disj_set_drop_if_distinct) simp_all
  then show False using w q sq' w2(1) eq by (auto simp: take_map drop_map)
qed

text \<open>A poll of any read queue either leaves the request waiting or delivers it.\<close>

lemma landing_polled:
  assumes P: "polled E (region_succeeds (mr_of s) (unat cap)) q1 s s'" and C: "rdma_core {} s"
    and q1: "int q1 < 2 * numcpus s" and ns: "\<not> iommu_strict E"
    and L: "landing cap q p off v pg s"
  shows "landing cap q p off v pg s'"
proof -
  note F = polled_call_frame [OF P C q1]
  have far: "far_page s' off = v" using L F by (simp add: landing_def far_page_def far_addr_def)
  obtain oks where o: "length oks = length (sq s q1) - length (sq s' q1)"
      "length oks \<le> length (sq s q1)"
      "\<forall>i < length oks. region_succeeds (mr_of s) (unat cap) (sq s q1 ! i) (oks ! i)"
      "reads_done E s (zip (sq s q1) oks) s'"
    using polled_reads [OF P C q1] by blast
  obtain n where n: "n \<le> length (sq s q1)" "sq s' = (sq s)(q1 := drop n (sq s q1))"
    using polled_sq [OF P] by blast
  then have no: "n = length oks" using o(1) by simp
  have sub: "fst ` set (zip (sq s q1) oks) \<subseteq> set (take n (sq s q1))"
    using no o(2) by (metis map_fst_zip_take min.absorb2 order_refl set_map)
  show ?thesis
  proof (cases "frames s p = page_filled v pg")
    case True
    have "p \<notin> wr_pfn s ` fst ` set (zip (sq s q1) oks)"
      using not_posted_valid [OF C _ _ q1, of p] True sub by (auto dest!: subsetD in_set_takeD)
    then have "frames s' p = frames s p" using o(4) by (simp add: reads_done_def)
    then show ?thesis using far True by (simp add: landing_def)
  next
    case False
    then obtain w where w: "w \<in> set (sq s q)" "opcode w = IB_WR_RDMA_READ" "wr_pfn s w = p"
        "remote_addr w = far_addr s off" "in_region (mr_of s) (unat cap) w" "frames s p = pg"
      using L by (auto simp: landing_def waiting_def)
    show ?thesis
    proof (cases "w \<in> set (sq s' q)")
      case True
      have "wr_pfn s' w = p" using polled_pfn(2) [OF P C True] w(3) by simp
      moreover have "p \<notin> wr_pfn s ` set (take n (sq s q1))"
        using waiting_not_done [OF rdma_coreD(8) [OF C] n(2) True] w(3) by auto
      then have "p \<notin> wr_pfn s ` fst ` set (zip (sq s q1) oks)"
        using sub by (meson image_mono subsetD)
      then have "frames s' p = pg" using o(4) w(6) by (simp add: reads_done_def)
      ultimately show ?thesis
        using far True w F by (auto simp: landing_def waiting_def far_addr_def)
    next
      case False
      then have "q = q1" "w \<notin> set (drop n (sq s q1))" using n(2) w(1) by (auto split: if_splits)
      then have "w \<in> set (take n (sq s q1))" using w(1) by (metis Un_iff append_take_drop_id set_append)
      then obtain i where i: "i < n" "sq s q1 ! i = w" using n(1) by (auto simp: in_set_conv_nth)
      then have "(w, True) \<in> set (zip (sq s q1) oks)"
        using o(2,3) no w(5) by (auto simp: set_zip region_succeeds_def intro!: exI [of _ i])
      then have "frames s' p = page_filled (read_result E s w True) (frames s p)"
        using o(4) w(3) by (auto simp: reads_done_def)
      then show ?thesis
        using far L ns w by (simp add: landing_def read_result_def far_page_def)
    qed
  qed
qed

lemma landing_enq:
  assumes C: "rdma_core {} s" and F: "fresh_wr s q1 p1 w1" and L: "landing cap q p off v pg s"
  shows "landing cap q p off v pg (enq q1 p1 w1 s)"
proof -
  have far: "far_page (enq q1 p1 w1 s) off = v"
    using L by (simp add: landing_def far_page_def far_addr_def)
  have "waiting cap q p off pg (enq q1 p1 w1 s)" if W: "waiting cap q p off pg s"
  proof -
    obtain w where w: "w \<in> set (sq s q)" "opcode w = IB_WR_RDMA_READ" "wr_pfn s w = p"
        "remote_addr w = far_addr s off" "in_region (mr_of s) (unat cap) w" "frames s p = pg"
      using W by (auto simp: waiting_def)
    have "dma_maps s (sge_addr w) \<noteq> None"
      using pool_okD(4) [OF rdma_coreD(8) [OF C] w(1)] by (auto simp: wr_ok_def)
    then have "sge_addr w \<noteq> sge_addr w1" using F by (auto simp: fresh_wr_def)
    then have "wr_pfn (enq q1 p1 w1 s) w = p" using w(3) by (simp add: wr_pfn_def)
    then show ?thesis using w by (auto simp: waiting_def far_addr_def intro!: bexI [of _ w])
  qed
  then show ?thesis using L far by (auto simp: landing_def)
qed

text \<open>Events that keep away from the page and from the slot.\<close>

fun spares :: "pfn \<Rightarrow> u64 \<Rightarrow> rdma_call \<Rightarrow> bool" where
  "spares p off (CPage p' v) = (p' \<noteq> p)"
| "spares p off c = writes_apart off c"

lemma spares_writes_apart: "spares p off c \<Longrightarrow> writes_apart off c"
  by (cases c) auto

lemma landing_read:
  assumes N: "nic_ok E" "nic_outcome E (region_succeeds (mr_of s) (unat cap))" "\<not> iommu_strict E"
    and I: "sys_inv s" and pg1: "read_target (frames s p1)" "p1 \<notin> busy s"
    and rd: "rd = sswap_rdma_read_sync \<and> qt = QP_READ_SYNC
           \<or> rd = sswap_rdma_read_async \<and> qt = QP_READ_ASYNC"
    and run: "rd E p1 off1 s = Ret r s'" and L: "landing cap q p off v pg s"
  shows "landing cap q p off v pg s'"
proof -
  have I': "rdma_inv s" "uint (this_cpu s) < numcpus s" using I by (simp_all add: sys_inv_def)
  obtain q1 s1 w where r: "rd E p1 off1 s = Ret 0 (enq q1 p1 w s1)" "q1 < nq s"
      "int q1 = uint (this_cpu s) + queue_base (numcpus s) qt"
      "polled E (region_succeeds (mr_of s) (unat cap)) q1 s s1" "fresh_wr s1 q1 p1 w"
    using rdma_read_ok [OF N(1,2) I' pg1 rd] by blast
  note C = rdma_invD(1) [OF I'(1)]
  have "int q1 < 2 * numcpus s" using r(3) I'(2) rd rdma_coreD(2) [OF C] by auto
  then have "landing cap q p off v pg s1" by (rule landing_polled [OF r(4) C _ N(3) L])
  then have "landing cap q p off v pg (enq q1 p1 w s1)"
    by (rule landing_enq [OF polled_core [OF r(4) C] r(5)])
  then show ?thesis using r(1) run by simp
qed

lemma landing_step:
  assumes G: "good_link E cap s" and I: "sys_inv s" and st: "rdma_step E s c s'"
    and sp: "spares p off c" and L: "landing cap q p off v pg s"
  shows "landing cap q p off v pg s'"
proof -
  have N: "nic_ok E" "nic_outcome E (region_succeeds (mr_of s) (unat cap))" "\<not> iommu_strict E"
    using G by (simp_all add: good_link_def)
  have I': "rdma_inv s" "uint (this_cpu s) < numcpus s" using I by (simp_all add: sys_inv_def)
  note C = rdma_invD(1) [OF I'(1)]
  obtain r where ok: "may_call s c" and run: "do_call E c s = Ret r s'"
    using st by (auto elim: rdma_stepE)
  show ?thesis
  proof (cases c)
    case (CWrite p1 off1)
    obtain d t where "sswap_rdma_write E p1 off1 s =
        Ret 0 (s\<lparr>farmem := mem_write (farmem s) (far_addr s off1) d, clock := t\<rparr>)"
      using rdma_write_ok [OF N(1,2) I', of p1 off1] ok CWrite by auto
    then have s': "s' = s\<lparr>farmem := mem_write (farmem s) (far_addr s off1) d, clock := t\<rparr>"
      using run CWrite by simp
    have "pages_apart off1 off" using sp CWrite by simp
    then have "far_page s' off = far_page s off" unfolding s' by (rule far_page_write(2))
    then show ?thesis using L by (simp add: landing_def waiting_def s' far_addr_def wr_pfn_def)
  next
    case (CReadSync p1 off1)
    then show ?thesis
      using landing_read [OF N I _ _ _ _ L, of p1 sswap_rdma_read_sync QP_READ_SYNC off1 r s'] ok run
      by auto
  next
    case (CReadAsync p1 off1)
    then show ?thesis
      using landing_read [OF N I _ _ _ _ L, of p1 sswap_rdma_read_async QP_READ_ASYNC off1 r s'] ok run
      by auto
  next
    case (CPollLoad cpu)
    then have "polled E (region_succeeds (mr_of s) (unat cap)) (nat cpu) s s'"
      using rdma_poll_load_ok [OF N(1,2) I'(1), of cpu] ok run by auto
    moreover have "int (nat cpu) < 2 * numcpus s" using ok CPollLoad by simp
    ultimately show ?thesis using landing_polled [OF _ C _ N(3) L] by blast
  next
    case (CSoftirq cpu n)
    then obtain q1 where "polled E (region_succeeds (mr_of s) (unat cap)) q1 s s'"
        "int q1 = uint cpu + numcpus s"
      using async_softirq_ok [OF N(1,2) I'(1), of cpu n] ok run by auto
    moreover from this have "int q1 < 2 * numcpus s" using ok CSoftirq by simp
    ultimately show ?thesis using landing_polled [OF _ C _ N(3) L] by blast
  next
    case (CMigrate cpu)
    have "mr_of (s\<lparr>this_cpu := cpu\<rparr>) = mr_of s" by (rule dev_of_cong) simp
    then show ?thesis using L run CMigrate
      by (auto simp: landing_def waiting_def far_page_def far_addr_def wr_pfn_def)
  next
    case (CPage p1 v1)
    have "mr_of (set_frame p1 v1 s) = mr_of s" by (rule dev_of_cong) (simp add: set_frame_def)
    moreover have "p1 \<noteq> p" using sp CPage by simp
    ultimately show ?thesis using L run CPage
      by (auto simp: landing_def waiting_def far_page_def far_addr_def wr_pfn_def set_frame_def)
  qed
qed

lemma landing_run:
  "rdma_run E s cs s' \<Longrightarrow> good_link E cap s \<Longrightarrow> sys_inv s \<Longrightarrow> \<forall>c \<in> set cs. spares p off c \<Longrightarrow>
   landing cap q p off v pg s \<Longrightarrow> landing cap q p off v pg s'"
proof (induction rule: rdma_run.induct)
  case (run_snoc s cs s1 c s2)
  have N: "nic_ok E" using run_snoc.prems(1) by (simp add: good_link_def)
  have "sys_inv s1" "mr_of s1 = mr_of s" using run_inv [OF run_snoc.hyps(1) N] run_snoc.prems(2) by auto
  moreover have "good_link E cap s1" using run_snoc.prems(1) calculation(2) by (simp add: good_link_def)
  moreover have "landing cap q p off v pg s1" using run_snoc by simp
  ultimately show ?case using landing_step [OF _ _ run_snoc.hyps(2)] run_snoc.prems(3) by simp
qed

text \<open>A read that has just been issued is waiting on its queue.\<close>

lemma read_starts_landing:
  assumes G: "good_link E cap s" and I: "sys_inv s"
    and pg: "read_target (frames s p)" "p \<notin> busy s"
    and off: "unat off + unat PAGE_SIZE \<le> unat cap"
    and rd: "rd = sswap_rdma_read_sync \<and> qt = QP_READ_SYNC
           \<or> rd = sswap_rdma_read_async \<and> qt = QP_READ_ASYNC"
    and run: "rd E p off s = Ret r s'"
  shows "\<exists>q. int q = uint (this_cpu s) + queue_base (numcpus s) qt
    \<and> landing cap q p off (far_page s off) (frames s p) s'"
proof -
  have N: "nic_ok E" "nic_outcome E (region_succeeds (mr_of s) (unat cap))"
    using G by (simp_all add: good_link_def)
  have I': "rdma_inv s" "uint (this_cpu s) < numcpus s" using I by (simp_all add: sys_inv_def)
  note C = rdma_invD(1) [OF I'(1)]
  obtain q s1 w where r: "rd E p off s = Ret 0 (enq q p w s1)" "q < nq s"
      "int q = uint (this_cpu s) + queue_base (numcpus s) qt"
      "polled E (region_succeeds (mr_of s) (unat cap)) q s s1" "fresh_wr s1 q p w"
      "remote_addr w = far_addr s off"
    using rdma_read_ok [OF N I' pg rd] by blast
  have q: "int q < 2 * numcpus s" using r(3) I'(2) rd rdma_coreD(2) [OF C] by auto
  note F = polled_call_frame [OF r(4) C q]
  have s': "s' = enq q p w s1" using r(1) run by simp
  have "frames s1 p = frames s p" using polled_frames [OF r(4) C q pg(2)] .
  moreover have "in_region (mr_of s) (unat cap) w"
    using r(5,6) off F(1) by (intro in_region_off [of w s off cap]) (auto simp: fresh_wr_def)
  moreover have "opcode w = IB_WR_RDMA_READ" using r(5) q F(2) by (simp add: fresh_wr_def)
  moreover have "wr_pfn s' w = p" "far_page s' off = far_page s off"
    using F by (simp_all add: s' wr_pfn_def far_page_def far_addr_def)
  ultimately have "landing cap q p off (far_page s off) (frames s p) s'"
    using r(6) F by (auto simp: landing_def waiting_def s' far_addr_def)
  then show ?thesis using r(3) by blast
qed

lemma landed:
  assumes "landing cap q p off v pg s" "sq s q = []"
  shows "frames s p = page_filled v pg"
  using assms by (auto simp: landing_def waiting_def)

lemma rdma_run_Cons:
  assumes "rdma_run E s cs0 s'" "cs0 = c # cs"
  shows "\<exists>s1. rdma_step E s c s1 \<and> rdma_run E s1 cs s'"
  using assms
proof (induction arbitrary: cs rule: rdma_run.induct)
  case (run_snoc s cs0 s1 c' s2)
  show ?case
  proof (cases cs0)
    case Nil
    then have "s1 = s" using run_snoc.hyps(1) by (auto elim: rdma_run.cases)
    moreover have "c' = c" "cs = []" using run_snoc.prems Nil by simp_all
    ultimately show ?thesis
      using run_snoc.hyps(2) by (intro exI [of _ s2]) (simp add: rdma_run.run_nil)
  next
    case (Cons c0 ds)
    then obtain s0 where "rdma_step E s c s0" "rdma_run E s0 ds s1"
      using run_snoc.IH [of ds] run_snoc.prems by auto
    moreover have "cs = ds @ [c']" using run_snoc.prems Cons by auto
    ultimately show ?thesis using rdma_run.run_snoc [OF _ run_snoc.hyps(2)] by blast
  qed
qed simp

lemma rdma_run_snocE:
  assumes "rdma_run E s (cs @ [c]) s'"
  obtains s1 where "rdma_run E s cs s1" "rdma_step E s1 c s'"
  using assms by (cases rule: rdma_run.cases) auto

end
