(* ===== verification/Rdma_Loopback.thy ===== *)
theory Rdma_Loopback
  imports Rdma_Backend
begin

text \<open>
  A loopback environment: an allocator and a DMA layer that return the first free object,
  and a verbs layer that accepts a request while the queue has room and completes every
  posted request at the next poll, successfully when it lies inside the region. The
  hypotheses of \<open>Rdma_Poll\<close> hold of it, and of a state with one processor the invariant
  holds: the contracts of the driver are not vacuous.
\<close>

section \<open>First free object\<close>

partial_function (option) first_free :: "nat \<Rightarrow> (nat \<Rightarrow> bool) \<Rightarrow> nat option" where
  "first_free k live = (if live k then first_free (Suc k) live else Some k)"

lemma first_free_bound:
  assumes "\<not> live (k + n)"
  shows "\<exists>r. first_free k live = Some r \<and> \<not> live r \<and> k \<le> r \<and> r \<le> k + n"
  using assms
proof (induction n arbitrary: k)
  case 0
  then show ?case by (simp add: first_free.simps)
next
  case (Suc n)
  show ?case
  proof (cases "live k")
    case True
    moreover have "\<not> live (Suc k + n)" using Suc.prems by simp
    then obtain r where "first_free (Suc k) live = Some r" "\<not> live r" "Suc k \<le> r" "r \<le> Suc k + n"
      using Suc.IH [of "Suc k"] by blast
    ultimately show ?thesis by (subst first_free.simps) auto
  next
    case False
    then show ?thesis by (subst first_free.simps) simp
  qed
qed

lemma first_free_finite:
  assumes "finite {r. live r}"
  shows "\<exists>r. first_free k live = Some r \<and> \<not> live r"
proof -
  obtain r where r: "\<not> live r" "k \<le> r"
    using assms by (metis (mono_tags, lifting) finite_nat_set_iff_bounded_le leI mem_Collect_eq
        nat_le_linear not_less_eq_eq)
  then have "\<not> live (k + (r - k))" by simp
  then show ?thesis using first_free_bound by blast
qed

lemma free_addr:
  fixes m :: "u64 \<Rightarrow> bool"
  assumes "card {a. m a} \<le> 2 ^ 30"
  shows "\<exists>n \<le> 2 ^ 30. \<not> m (of_nat (1 + n))"
proof (rule ccontr)
  assume "\<not> ?thesis"
  then have "(\<lambda>n. of_nat (1 + n)) ` {0..2 ^ 30} \<subseteq> {a. m a}" by auto
  then have "card ((\<lambda>n. of_nat (1 + n) :: u64) ` {0..2 ^ 30}) \<le> card {a. m a}"
    by (intro card_mono) simp_all
  moreover have "inj_on (\<lambda>n. of_nat (1 + n) :: u64) {0..2 ^ 30}"
  proof (rule inj_onI)
    fix x y :: nat
    assume xy: "x \<in> {0..2 ^ 30}" "y \<in> {0..2 ^ 30}" "of_nat (1 + x) = (of_nat (1 + y) :: u64)"
    then have "unat (of_nat (1 + x) :: u64) = unat (of_nat (1 + y) :: u64)" by (simp only:)
    then show "x = y" using xy(1,2) unfolding unat_of_nat by simp
  qed
  ultimately show False using assms by (simp add: card_image)
qed

section \<open>The environment\<close>

definition LOOP_SIZE :: nat where
  "LOOP_SIZE = 2 ^ 30"

definition loop_mr :: sswap_rdma_memregion where
  "loop_mr = \<lparr>baseaddr = 4096, key = 7\<rparr>"

text \<open>
  The status of each transfer and the strictness of the DMA layer are parameters, so that
  connections with errors are instances too.
\<close>

definition loop_env_of :: "(send_wr \<Rightarrow> nat) \<Rightarrow> bool \<Rightarrow> rdma_env" where
  "loop_env_of status strict =
     \<lparr>debug_vm = True,
      kmem_cache_alloc = (\<lambda>t live. first_free 0 live),
      ib_dma_map_page = (\<lambda>t m p d. of_nat (the (first_free 1 (\<lambda>n. m (of_nat n))))),
      ib_dma_map_single = (\<lambda>t m d. of_nat (the (first_free 1 (\<lambda>n. m (of_nat n))))),
      ib_dma_mapping_error = (\<lambda>a. a = 0),
      ib_post_send = (\<lambda>t q ws w. if int (length ws) < QP_MAX_SEND_WR then 0 else -12),
      ib_post_recv = (\<lambda>t q ws w. 0),
      ib_poll_cq = (\<lambda>t q ws rs n.
         if ws = [] then map (\<lambda>r. \<lparr>wc_cqe = rwr_cqe r, wc_status = 0\<rparr>) (take n rs)
         else map (\<lambda>w. \<lparr>wc_cqe = wr_cqe w, wc_status = status w\<rparr>) (take n ws)),
      dma_residue = (\<lambda>w d. d),
      iommu_strict = strict,
      recv_message = [0, 16, 0, 0, 0, 0, 0, 0, 7, 0, 0, 0, 0, 0, 0, 0]\<rparr>"

definition loop_env :: rdma_env where
  "loop_env = loop_env_of (\<lambda>w. if in_region loop_mr LOOP_SIZE w then 0 else 10) False"

lemma loop_poll_of:
  "ib_poll_cq (loop_env_of f b) t q ws [] n =
     map (\<lambda>w. \<lparr>wc_cqe = wr_cqe w, wc_status = f w\<rparr>) (take n ws)"
  by (simp add: loop_env_of_def)

lemma loop_poll:
  "ib_poll_cq loop_env t q ws [] n =
     map (\<lambda>w. \<lparr>wc_cqe = wr_cqe w,
               wc_status = (if in_region loop_mr LOOP_SIZE w then 0 else 10)\<rparr>) (take n ws)"
  by (simp add: loop_env_def loop_poll_of)

lemma loop_addr:
  fixes m :: "u64 \<Rightarrow> bool"
  assumes "card {a. m a} \<le> 2 ^ 30"
  shows "of_nat (the (first_free 1 (\<lambda>n. m (of_nat n)))) \<noteq> (0 :: u64)"
    "\<not> m (of_nat (the (first_free 1 (\<lambda>n. m (of_nat n)))))"
proof -
  obtain n where n: "n \<le> 2 ^ 30" "\<not> m (of_nat (1 + n))" using free_addr [OF assms] by blast
  then obtain r where r: "first_free 1 (\<lambda>n. m (of_nat n)) = Some r" "\<not> m (of_nat r)"
      "1 \<le> r" "r \<le> 1 + n"
    using first_free_bound [of "\<lambda>n. m (of_nat n)" 1 n] by blast
  have "unat (of_nat r :: u64) = r" using r(4) n(1) by (simp add: unat_of_nat)
  then have "(of_nat r :: u64) \<noteq> 0" using r(3) by (metis not_one_le_zero unsigned_0)
  with r(1,2) show "of_nat (the (first_free 1 (\<lambda>n. m (of_nat n)))) \<noteq> (0 :: u64)"
    "\<not> m (of_nat (the (first_free 1 (\<lambda>n. m (of_nat n)))))" by simp_all
qed

lemma loop_mem_ok: "mem_ok (loop_env_of f b)"
  unfolding mem_ok_def
proof (intro conjI allI impI)
  fix t :: nat and live :: "req_ptr \<Rightarrow> bool"
  assume "finite {r. live r}"
  then show "\<exists>r. kmem_cache_alloc (loop_env_of f b) t live = Some r \<and> \<not> live r"
    using first_free_finite [of live 0] by (simp add: loop_env_of_def)
next
  fix t :: nat and m :: "u64 \<Rightarrow> bool" and p :: pfn and d
  assume "card {a. m a} \<le> 2 ^ 30"
  then show "let a = ib_dma_map_page (loop_env_of f b) t m p d
      in a \<noteq> 0 \<and> \<not> m a \<and> \<not> ib_dma_mapping_error (loop_env_of f b) a"
    using loop_addr by (simp add: loop_env_of_def Let_def)
qed

lemma loop_nic_ok_of: "nic_ok (loop_env_of f b)"
proof -
  have "nic_ordered (loop_env_of f b)"
    unfolding nic_ordered_def loop_poll_of by (intro allI exI conjI, rule le_refl) (simp add: comp_def)
  moreover have "nic_live (loop_env_of f b)" unfolding nic_live_def loop_poll_of by auto
  moreover have "nic_accepts (loop_env_of f b)" by (simp add: nic_accepts_def loop_env_of_def)
  ultimately show ?thesis using loop_mem_ok by (simp add: nic_ok_def)
qed

lemma loop_nic_ok: "nic_ok loop_env"
  by (simp add: loop_env_def loop_nic_ok_of)

lemma loop_outcome_of: "nic_outcome (loop_env_of f b) (\<lambda>w ok. ok = (f w = 0))"
  unfolding nic_outcome_def
proof (intro allI impI)
  fix t q ws n wc w
  assume A: "distinct (map wr_cqe ws) \<and> wc \<in> set (ib_poll_cq (loop_env_of f b) t q ws [] n)
    \<and> w \<in> set ws \<and> wr_cqe w = wc_cqe wc"
  then obtain v where v: "v \<in> set (take n ws)" "wc = \<lparr>wc_cqe = wr_cqe v, wc_status = f v\<rparr>"
    by (auto simp: loop_poll_of)
  then have "v \<in> set ws" "wr_cqe v = wr_cqe w" using A in_set_takeD by fastforce+
  then have "v = w" using A by (simp add: distinct_map inj_on_def)
  moreover have "wc_status wc = f v" by (subst v(2)) simp
  ultimately show "(wc_status wc = 0) = (f w = 0)" by simp
qed

lemma loop_reliable: "nic_outcome loop_env (region_succeeds loop_mr LOOP_SIZE)"
  using loop_outcome_of [of "\<lambda>w. if in_region loop_mr LOOP_SIZE w then 0 else 10" False]
  unfolding nic_outcome_def loop_env_def region_succeeds_def by (metis (mono_tags, lifting))

section \<open>A state of the driver\<close>

text \<open>One processor, three connected queues, nothing posted; every frame awaits a read.\<close>

definition loop_queue :: "nat \<Rightarrow> qp_type \<Rightarrow> rdma_queue" where
  "loop_queue h ty = \<lparr>qp = Some h, cq = Some h, cq_lock = False, qtype = ty, q_ctrl = True,
     cm_id = Some h, cm_error = 0, cm_done = 0, pending = 0\<rparr>"

definition loop_state :: kst where
  "loop_state =
     \<lparr>frames = (\<lambda>p. \<lparr>pg_data = (\<lambda>i. of_nat p), PageSwapCache = True, PageLocked = True,
                     PageUptodate = False\<rparr>),
      gctrl = Some \<lparr>rdev = Some \<lparr>dev = 1, pd_local_dma_lkey = 5\<rparr>,
        queues = Some [loop_queue 0 QP_READ_SYNC, loop_queue 1 QP_READ_ASYNC,
          loop_queue 2 QP_WRITE_SYNC],
        servermr = loop_mr,
        addr_in = \<lparr>sin_family = 2, sin_port = 0, s_addr = []\<rparr>,
        srcaddr_in = \<lparr>sin_family = 2, sin_port = 0, s_addr = []\<rparr>\<rparr>,
      numcpus = 1, numqueues = 3, req_cache = True, this_cpu = 0, reqs = Map.empty,
      dma_maps = Map.empty, dma_warn = 0, sq = (\<lambda>q. []), rq = (\<lambda>q. []),
      farmem = (\<lambda>a. 0), clock = 0\<rparr>"

lemma loop_qlist: "qlist loop_state =
    [loop_queue 0 QP_READ_SYNC, loop_queue 1 QP_READ_ASYNC, loop_queue 2 QP_WRITE_SYNC]"
  by (simp add: qlist_def loop_state_def)

lemma loop_inv: "rdma_inv loop_state"
proof -
  have "queue_ok {} loop_state q" if "q < 3" for q
  proof -
    have "q = 0 \<or> q = 1 \<or> q = 2" using that by auto
    then obtain h ty where "qof q loop_state = loop_queue h ty"
      by (auto simp: qof_def loop_qlist)
    then show ?thesis
      by (auto simp: queue_ok_def loop_queue_def loop_state_def QP_MAX_SEND_WR_def)
  qed
  moreover have "pool_ok loop_state" by (simp add: pool_ok_def loop_state_def)
  ultimately show ?thesis
    by (simp add: rdma_inv_def rdma_core_def loop_qlist) (simp add: loop_state_def dev_of_def)
qed

lemma loop_quiet: "rdma_quiet loop_env (word_of_nat LOOP_SIZE) loop_state"
proof -
  have "mr_of loop_state = loop_mr" by (simp add: mr_of_def loop_state_def)
  moreover have "unat (word_of_nat LOOP_SIZE :: u64) = LOOP_SIZE"
    by (simp add: LOOP_SIZE_def)
  moreover have "\<not> iommu_strict loop_env" by (simp add: loop_env_def loop_env_of_def)
  ultimately have "good_link loop_env (word_of_nat LOOP_SIZE) loop_state"
    using loop_nic_ok loop_reliable by (simp add: good_link_def)
  then show ?thesis using loop_inv by (simp add: rdma_quiet_def loop_state_def)
qed

end
