(* ===== verification/Rdma_Props.thy ===== *)
theory Rdma_Props
  imports Rdma_System Rdma_Loopback
begin

text \<open>
  The correctness properties of the RDMA data path, each with an instance on the loopback
  environment.
\<close>

lemma sys_step_exists:
  "nic_ok E \<Longrightarrow> sys_inv s \<Longrightarrow> may_call s c \<Longrightarrow> \<exists>s'. rdma_step E s c s'"
  using call_ok_inv by (metis rdma_step.step)

lemma loop_sys_inv: "sys_inv loop_state"
  using loop_inv by (simp add: sys_inv_def loop_state_def)

lemma loop_good_link: "good_link loop_env (word_of_nat LOOP_SIZE) loop_state"
  using loop_quiet by (simp add: rdma_quiet_def)

lemma loop_calls:
  "may_call loop_state (CWrite p off)" "may_call loop_state (CReadSync p off)"
  "may_call loop_state (CReadAsync p off)"
  by (simp_all add: loop_state_def busy_def read_target_def)

lemma loop_run2:
  assumes "may_call loop_state c" "\<And>s. numcpus s = 1 \<Longrightarrow> may_call s c'"
  shows "\<exists>s'. rdma_run loop_env loop_state [c, c'] s'"
proof -
  obtain s1 where s1: "rdma_step loop_env loop_state c s1"
    using sys_step_exists [OF loop_nic_ok loop_sys_inv assms(1)] by blast
  note I = step_inv [OF loop_nic_ok loop_sys_inv s1]
  have "numcpus s1 = 1" using I(2) by (simp add: call_frame_def loop_state_def)
  then obtain s2 where "rdma_step loop_env s1 c' s2"
    using sys_step_exists [OF loop_nic_ok I(1) assms(2)] by blast
  then have "rdma_run loop_env loop_state ([] @ [c] @ [c']) s2"
    using s1 rdma_run.intros by (metis append_Cons append_Nil)
  then show ?thesis by auto
qed

lemma loop_softirq_empties:
  assumes "sys_inv s" "numcpus s = 1" "length (sq s 1) \<le> n" "rdma_step loop_env s (CSoftirq 0 n) s'"
  shows "sq s' 1 = []"
proof -
  obtain q r where r: "int q = uint (0 :: u32) + numcpus s"
      "r = int (length (sq s q)) - int (length (sq s' q))"
      "r = int (length (ib_poll_cq loop_env (clock s) q (sq s q) [] n))"
    using async_softirq_ok [OF loop_nic_ok loop_reliable, of s 0 n] assms
    by (auto simp: sys_inv_def elim!: rdma_stepE)
  have "q = 1" using r(1) assms(2) by simp
  then show ?thesis using r(2,3) assms(3) by (simp add: loop_poll)
qed

lemma loop_read_async_length:
  assumes "rdma_step loop_env loop_state (CReadAsync p off) s'"
  shows "length (sq s' 1) = 1"
proof -
  have I: "rdma_inv loop_state" "uint (this_cpu loop_state) < numcpus loop_state"
    using loop_sys_inv by (simp_all add: sys_inv_def)
  have e: "sq loop_state = (\<lambda>q. [])" "this_cpu loop_state = 0" "numcpus loop_state = 1"
    by (simp_all add: loop_state_def)
  obtain q s1 w where r: "sswap_rdma_read_async loop_env p off loop_state = Ret 0 (enq q p w s1)"
      "int q = uint (this_cpu loop_state) + numcpus loop_state"
      "polled loop_env (region_succeeds loop_mr LOOP_SIZE) q loop_state s1"
    using rdma_read_ok [OF loop_nic_ok loop_reliable I, of p sswap_rdma_read_async QP_READ_ASYNC off]
      loop_calls(3) [of p off] by auto
  have "q = 1" using r(2) e by simp
  moreover have "sq s1 = sq loop_state" using polled_sq [OF r(3)] e by auto
  moreover have "s' = enq q p w s1" using assms r(1) by (auto elim!: rdma_stepE)
  ultimately show ?thesis using e by simp
qed

section \<open>Swapping in\<close>

text \<open>
  C1: a page that the kernel asks for with \<open>sswap_rdma_read_sync\<close> and then waits for with
  \<open>sswap_rdma_poll_load\<close> on the same processor holds, valid and unlocked, what far memory
  held at that offset when the read was issued; between the two calls any processors may
  store other slots, read other pages, poll, migrate and take softirqs.
\<close>

theorem swapin_interleaved:
  assumes "good_link E cap s" "sys_inv s"
    and "unat off + unat PAGE_SIZE \<le> unat cap"
    and "rdma_run E s (CReadSync p off # cs @ [CPollLoad (cpu_id s)]) s'"
    and "\<forall>c \<in> set cs. spares p off c"
  shows "frames s' p = page_filled (far_page s off) (frames s p)"
proof -
  have N: "nic_ok E" using assms(1) by (simp add: good_link_def)
  obtain s1 s2 where st: "rdma_step E s (CReadSync p off) s1" "rdma_run E s1 cs s2"
      "rdma_step E s2 (CPollLoad (cpu_id s)) s'"
    using rdma_run_Cons [OF assms(4) refl] by (blast elim: rdma_run_snocE)
  obtain q where q: "int q = uint (this_cpu s)"
      and L: "landing cap q p off (far_page s off) (frames s p) s1"
    using read_starts_landing [OF assms(1,2) _ _ assms(3), of p sswap_rdma_read_sync QP_READ_SYNC] st(1)
    by (auto elim!: rdma_stepE)
  have I: "sys_inv s1" "sys_inv s2" "mr_of s1 = mr_of s" "mr_of s2 = mr_of s"
    using step_inv [OF N assms(2) st(1)] run_inv [OF st(2) N] by (auto simp: call_frame_def)
  then have G: "good_link E cap s1" "good_link E cap s2" using assms(1) by (simp_all add: good_link_def)
  have L2: "landing cap q p off (far_page s off) (frames s p) s2"
    using landing_run [OF st(2) G(1) I(1) assms(5) L] .
  have L': "landing cap q p off (far_page s off) (frames s p) s'"
    using landing_step [OF G(2) I(2) st(3) _ L2] by simp
  have qc: "nat (cpu_id s) = q" unfolding cpu_id_def q [symmetric] by (rule nat_int)
  have "sq s' q = []"
    using st(3) rdma_poll_load_ok [OF N, of _ s2 "cpu_id s"] G(2) I(2) unfolding qc
    by (auto simp: good_link_def sys_inv_def elim!: rdma_stepE)
  with L' show ?thesis by (rule landed)
qed

theorem swapin_interleaved_witness:
  "\<exists>s'. rdma_run loop_env loop_state [CReadSync 5 8192, CPollLoad 0] s'
     \<and> frames s' 5 = page_filled (\<lambda>i. 0) (frames loop_state 5)"
proof -
  obtain s' where s': "rdma_run loop_env loop_state [CReadSync 5 8192, CPollLoad 0] s'"
    using loop_run2 [OF loop_calls(2), of "CPollLoad 0" 5 8192] by auto
  have "cpu_id loop_state = 0" by (simp add: cpu_id_def loop_state_def)
  moreover have "far_page loop_state 8192 = (\<lambda>i. 0)"
    by (simp add: far_page_def mem_read_def loop_state_def fun_eq_iff)
  ultimately have "frames s' 5 = page_filled (\<lambda>i. 0) (frames loop_state 5)"
    using swapin_interleaved [OF loop_good_link loop_sys_inv, of 8192 5 "[]" s'] s'
    by (simp add: PAGE_SIZE_def LOOP_SIZE_def)
  then show ?thesis using s' by blast
qed

text \<open>
  C8: a page read ahead with \<open>sswap_rdma_read_async\<close> holds what far memory held at that
  offset, valid and unlocked, in every later state in which the softirqs of the processor
  that issued the read have emptied its queue, whatever else has happened to other pages
  and other slots.
\<close>

theorem readahead_interleaved:
  assumes "good_link E cap s" "sys_inv s"
    and "unat off + unat PAGE_SIZE \<le> unat cap"
    and "rdma_run E s (CReadAsync p off # cs) s'"
    and "\<forall>c \<in> set cs. spares p off c"
    and "sq s' (nat (cpu_id s + numcpus s)) = []"
  shows "frames s' p = page_filled (far_page s off) (frames s p)"
proof -
  have N: "nic_ok E" using assms(1) by (simp add: good_link_def)
  obtain s1 where st: "rdma_step E s (CReadAsync p off) s1" "rdma_run E s1 cs s'"
    using rdma_run_Cons [OF assms(4) refl] by blast
  obtain q where q: "int q = uint (this_cpu s) + numcpus s"
      and L: "landing cap q p off (far_page s off) (frames s p) s1"
    using read_starts_landing [OF assms(1,2) _ _ assms(3), of p sswap_rdma_read_async QP_READ_ASYNC]
      st(1) by (auto elim!: rdma_stepE)
  have I: "sys_inv s1" "mr_of s1 = mr_of s"
    using step_inv [OF N assms(2) st(1)] by (auto simp: call_frame_def)
  then have "good_link E cap s1" using assms(1) by (simp add: good_link_def)
  then have L': "landing cap q p off (far_page s off) (frames s p) s'"
    using landing_run [OF st(2) _ I(1) assms(5) L] by blast
  have "nat (cpu_id s + numcpus s) = q" unfolding cpu_id_def q [symmetric] by (rule nat_int)
  with L' show ?thesis using assms(6) by (auto intro: landed)
qed

theorem readahead_interleaved_witness:
  "\<exists>s'. rdma_run loop_env loop_state [CReadAsync 5 8192, CSoftirq 0 16] s'
     \<and> frames s' 5 = page_filled (\<lambda>i. 0) (frames loop_state 5)"
proof -
  obtain s' where s': "rdma_run loop_env loop_state [CReadAsync 5 8192, CSoftirq 0 16] s'"
    using loop_run2 [OF loop_calls(3), of "CSoftirq 0 16" 5 8192] by auto
  obtain s1 where s1: "rdma_step loop_env loop_state (CReadAsync 5 8192) s1"
      "rdma_run loop_env s1 [CSoftirq 0 16] s'"
    using rdma_run_Cons [OF s' refl] by blast
  note I = step_inv [OF loop_nic_ok loop_sys_inv s1(1)]
  have "rdma_step loop_env s1 (CSoftirq 0 16) s'"
    using rdma_run_Cons [OF s1(2) refl] by (auto elim: rdma_run.cases)
  moreover have "numcpus s1 = 1" using I(2) by (simp add: call_frame_def loop_state_def)
  ultimately have "sq s' 1 = []"
    using loop_softirq_empties [OF I(1), of 16 s'] loop_read_async_length [OF s1(1)] by simp
  moreover have "cpu_id loop_state = 0" "numcpus loop_state = 1"
    by (simp_all add: cpu_id_def loop_state_def)
  moreover have "far_page loop_state 8192 = (\<lambda>i. 0)"
    by (simp add: far_page_def mem_read_def loop_state_def fun_eq_iff)
  ultimately have "frames s' 5 = page_filled (\<lambda>i. 0) (frames loop_state 5)"
    using readahead_interleaved [OF loop_good_link loop_sys_inv, of 8192 5 "[CSoftirq 0 16]" s'] s'
    by (simp add: PAGE_SIZE_def LOOP_SIZE_def)
  then show ?thesis using s' by blast
qed

section \<open>Storing\<close>

text \<open>
  C7: after \<open>sswap_rdma_write\<close> far memory holds the page at its offset, and keeps it under
  every later interleaving of events that has no store overlapping that slot.
\<close>

theorem store_persists:
  assumes "good_link E cap s" "sys_inv s"
    and "unat off + unat PAGE_SIZE \<le> unat cap"
    and "rdma_run E s (CWrite p off # cs) s'"
    and "\<forall>c \<in> set cs. writes_apart off c"
  shows "far_page s' off = pg_data (frames s p)"
proof -
  have N: "nic_ok E" "nic_outcome E (region_succeeds (mr_of s) (unat cap))"
    using assms(1) by (simp_all add: good_link_def)
  have I: "rdma_inv s" "uint (this_cpu s) < numcpus s" using assms(2) by (simp_all add: sys_inv_def)
  obtain s1 where st: "rdma_step E s (CWrite p off) s1" "rdma_run E s1 cs s'"
    using rdma_run_Cons [OF assms(4) refl] by blast
  have ok: "PageSwapCache (frames s p)" "p \<notin> busy s" using st(1) by (auto elim: rdma_stepE)
  obtain d w t ok where w: "sswap_rdma_write E p off s =
        Ret 0 (s\<lparr>farmem := mem_write (farmem s) (far_addr s off) d, clock := t\<rparr>)"
      "remote_addr w = far_addr s off" "rkey w = key (mr_of s)" "sge_length w = PAGE_SIZE"
      "region_succeeds (mr_of s) (unat cap) w ok"
      "d = (if ok then pg_data (frames s p) else dma_residue E w (far_page s off))"
    using rdma_write_ok [OF N I ok] by blast
  have "d = pg_data (frames s p)" using w(5,6) in_region_off [OF w(2-4) assms(3)] by (simp add: region_succeeds_def)
  then have "far_page s1 off = pg_data (frames s p)"
    using st(1) w(1) far_page_write(1) [where s = s and off = off and d = d and t = t] by (auto elim: rdma_stepE)
  moreover have "far_page s' off = far_page s1 off"
    using run_far_page [OF st(2) N(1) _ assms(5)] step_inv(1) [OF N(1) assms(2) st(1)] by simp
  ultimately show ?thesis by simp
qed

theorem store_persists_witness:
  "\<exists>s'. rdma_run loop_env loop_state [CWrite 5 8192, CMigrate 0] s'
     \<and> far_page s' 8192 = (\<lambda>i. 5)"
proof -
  obtain s' where s': "rdma_run loop_env loop_state [CWrite 5 8192, CMigrate 0] s'"
    using loop_run2 [OF loop_calls(1), of "CMigrate 0" 5 8192] by auto
  have "far_page s' 8192 = pg_data (frames loop_state 5)"
    using store_persists [OF loop_good_link loop_sys_inv, of 8192 5 "[CMigrate 0]" s'] s'
    by (simp add: PAGE_SIZE_def LOOP_SIZE_def)
  moreover have "pg_data (frames loop_state 5) = (\<lambda>i. 5)" by (simp add: loop_state_def)
  ultimately show ?thesis using s' by auto
qed

section \<open>Safety of every interleaving\<close>

text \<open>
  C6: in every state reached by any interleaving, every event that the kernel may issue
  returns (no \<open>BUG\<close>, no invalid memory access, no endless loop) and keeps the invariant;
  the transfers themselves may fail.
\<close>

theorem every_event_returns:
  assumes "nic_ok E" "sys_inv s" "rdma_run E s cs s'" "may_call s' c"
  shows "\<exists>r s''. do_call E c s' = Ret r s'' \<and> sys_inv s''"
  using call_ok_inv [OF assms(1) _ assms(4)] run_inv [OF assms(3,1,2)] by blast

theorem every_event_returns_witness:
  "\<exists>r s''. do_call loop_env (CWrite 3 0) loop_state = Ret r s'' \<and> sys_inv s''"
  using every_event_returns [OF loop_nic_ok loop_sys_inv rdma_run.run_nil loop_calls(1)] .

text \<open>
  C9: the counter \<open>pending\<close> of a queue is, in every reachable state, the number of requests
  posted on it, at most \<open>QP_MAX_SEND_WR\<close>, so the send queue never overflows; and no
  completion lock is left held.
\<close>

theorem pending_counts_posted:
  assumes "nic_ok E" "sys_inv s" "rdma_run E s cs s'" "q < nq s'"
  shows "pending (qof q s') = int (length (sq s' q)) \<and> pending (qof q s') \<le> QP_MAX_SEND_WR
    \<and> \<not> cq_lock (qof q s')"
proof -
  have "rdma_core {} s'" using run_inv [OF assms(3,1,2)] by (simp add: sys_inv_def rdma_inv_def)
  note Q = queue_okD [OF rdma_coreD(6) [OF this assms(4)]]
  show ?thesis using Q(4-6) by simp
qed

theorem pending_counts_posted_witness:
  "pending (qof 2 loop_state) = 0"
  using pending_counts_posted [OF loop_nic_ok loop_sys_inv rdma_run.run_nil, of 2]
  by (simp add: loop_qlist) (simp add: loop_state_def)

text \<open>
  C10: nothing leaks: in every reachable state the live request objects are exactly those of
  posted requests, and the live DMA mappings exactly theirs; when the queues are empty both
  pools are empty.
\<close>

theorem no_request_leaks:
  assumes "nic_ok E" "sys_inv s" "rdma_run E s cs s'"
  shows "dom (reqs s') = wr_cqe ` (\<Union>q. set (sq s' q))
    \<and> dom (dma_maps s') = sge_addr ` (\<Union>q. set (sq s' q))"
proof -
  have P: "pool_ok s'"
    using run_inv [OF assms(3,1,2)] rdma_coreD(8) [OF rdma_invD(1)] by (auto simp: sys_inv_def)
  have live: "reqs s' (wr_cqe w) \<noteq> None \<and> dma_maps s' (sge_addr w) \<noteq> None"
    if "w \<in> set (sq s' q)" for w q
    using pool_okD(4) [OF P that] by (auto simp: wr_ok_def)
  have r: "dom (reqs s') \<subseteq> wr_cqe ` (\<Union>q. set (sq s' q))"
    using pool_okD(3) [OF P] by fastforce
  have "dom (dma_maps s') \<subseteq> sge_addr ` (\<Union>q. set (sq s' q))"
  proof
    fix a assume "a \<in> dom (dma_maps s')"
    then obtain r x where x: "reqs s' r = Some x" "dma x = a" using pool_okD(7) [OF P] by blast
    then obtain q w where "w \<in> set (sq s' q)" "wr_cqe w = r" using pool_okD(3) [OF P] by blast
    then show "a \<in> sge_addr ` (\<Union>q. set (sq s' q))" using wr_pfn_ok [OF P] x by force
  qed
  with r live show ?thesis by auto
qed

theorem no_request_leaks_witness:
  "\<exists>s'. rdma_run loop_env loop_state [CWrite 5 8192, CMigrate 0] s'
     \<and> dom (reqs s') = wr_cqe ` (\<Union>q. set (sq s' q))"
  using loop_run2 [OF loop_calls(1), of "CMigrate 0" 5 8192]
    no_request_leaks [OF loop_nic_ok loop_sys_inv] by fastforce

section \<open>The swap device\<close>

text \<open>
  C2: the frontswap module over the RDMA backend implements the swap device: every sequence
  of stores and faults (\<open>sswap_load\<close> and \<open>sswap_poll_load\<close>), with any changes of pages in
  between, returns 0 at each call and leaves pages and far memory as the device has them.
\<close>

theorem rdma_refines_device:
  assumes "rdma_quiet E cap s" "dev_rel cap (far_page s) (frames s) d" "calls_ok cap cs d"
  shows "\<exists>s'. run_calls (rdma_backend E) cpu_id set_frame cs s = Ret (replicate (length cs) 0) s'
    \<and> rdma_quiet E cap s' \<and> dev_rel cap (far_page s') (frames s') (fold dev_call cs d)"
  using rdma.calls_refine [of E cap s d cs] assms by blast

theorem rdma_refines_device_witness:
  "\<exists>s'. run_calls (rdma_backend loop_env) cpu_id set_frame [Store 0 2 5, Store 0 3 6, Load 0 2 7]
          loop_state = Ret [0, 0, 0] s'
     \<and> pg_data (frames s' 7) = (\<lambda>i. 5)"
proof -
  let ?d = "\<lparr>slots = Map.empty, memory = frames loop_state\<rparr>"
  let ?cs = "[Store 0 2 5, Store 0 3 6, Load 0 2 7]"
  have "dev_rel (word_of_nat LOOP_SIZE) (far_page loop_state) (frames loop_state) ?d"
    by (simp add: dev_rel_def)
  moreover have "calls_ok (word_of_nat LOOP_SIZE) ?cs ?d"
    by (simp add: slot_fits_def LOOP_SIZE_def) (simp add: loop_state_def read_target_def)
  ultimately obtain s' where s': "run_calls (rdma_backend loop_env) cpu_id set_frame ?cs loop_state =
        Ret (replicate (length ?cs) 0) s'"
      "dev_rel (word_of_nat LOOP_SIZE) (far_page s') (frames s') (fold dev_call ?cs ?d)"
    using rdma_refines_device [OF loop_quiet, of ?d ?cs] by blast
  have "frames s' 7 = page_filled (\<lambda>i. 5) (frames loop_state 7)"
    using s'(2) by (simp add: dev_rel_def) (simp add: loop_state_def)
  moreover have "replicate (length ?cs) (0 :: int) = [0, 0, 0]" by simp
  ultimately show ?thesis using s'(1) by (metis page_filled_sel(1))
qed

section \<open>Queues\<close>

text \<open>
  C12: the index computed for a processor and a kind of queue lies inside the array, the
  kind computed back from it is the same, and different processors or kinds have different
  queues, so every queue serves one processor and one kind of request.
\<close>

theorem queue_assignment:
  assumes "0 < n" "n \<le> 8192" "uint c < n" "uint c' < n"
  shows "uint (queue_index n c t) < n * 3
    \<and> get_queue_type n (queue_index n c t) s = Ret t s
    \<and> (queue_index n c t = queue_index n c' t' \<longrightarrow> c = c' \<and> t = t')"
proof -
  have i: "uint (queue_index n c t) = uint c + queue_base n t"
    "uint (queue_index n c' t') = uint c' + queue_base n t'"
    using queue_index_uint assms by blast+
  have pos: "0 \<le> uint c" "0 \<le> uint c'" by (rule uint_ge_0)+
  have lt: "uint (queue_index n c t) < n * 3" unfolding i(1) using assms by (cases t) auto
  have "get_queue_type n (queue_index n c t) s = Ret t s"
    using get_queue_type_ok [OF assms(2) lt, of s] assms pos unfolding i(1) by (cases t) auto
  moreover have "c = c' \<and> t = t'" if "queue_index n c t = queue_index n c' t'"
  proof -
    have "uint c + queue_base n t = uint c' + queue_base n t'" using that i by simp
    then have "uint c = uint c' \<and> t = t'" using assms pos by (cases t; cases t') auto
    then show ?thesis by (simp add: word_uint_eq_iff)
  qed
  ultimately show ?thesis using lt by blast
qed

theorem queue_assignment_witness:
  "get_queue_type 8 (queue_index 8 5 QP_WRITE_SYNC) loop_state = Ret QP_WRITE_SYNC loop_state"
  using queue_assignment [of 8 5 5 QP_WRITE_SYNC loop_state QP_WRITE_SYNC] by simp

section \<open>Polling\<close>

text \<open>
  C11: \<open>sswap_rdma_poll_load\<close> returns, even when transfers fail: the queue of synchronous
  reads of that processor is then empty, every page that was waiting on it is valid and
  unlocked, every other page and far memory are as before.
\<close>

theorem poll_load_completes:
  assumes "nic_ok E" "rdma_inv s" "0 \<le> cpu" "cpu < numcpus s"
  shows "\<exists>s'. sswap_rdma_poll_load E cpu s = Ret 1 s' \<and> rdma_inv s' \<and> farmem s' = farmem s
    \<and> sq s' = (sq s)(nat cpu := [])
    \<and> (\<forall>w \<in> set (sq s (nat cpu)). PageUptodate (frames s' (wr_pfn s w))
          \<and> \<not> PageLocked (frames s' (wr_pfn s w)))
    \<and> (\<forall>p. p \<notin> wr_pfn s ` set (sq s (nat cpu)) \<longrightarrow> frames s' p = frames s p)"
proof -
  have R: "nic_outcome E (\<lambda>_ _. True)" by (simp add: nic_outcome_def)
  obtain s' oks where s': "sswap_rdma_poll_load E cpu s = Ret 1 s'" "rdma_inv s'"
      "sq s' = (sq s)(nat cpu := [])" "length oks = length (sq s (nat cpu))"
      "reads_done E s (zip (sq s (nat cpu)) oks) s'"
    using rdma_poll_load_ok [OF assms(1) R assms(2-4)] by blast
  have f: "fst ` set (zip (sq s (nat cpu)) oks) = set (sq s (nat cpu))"
    using s'(4) by (metis map_fst_zip set_map)
  have "PageUptodate (frames s' (wr_pfn s w)) \<and> \<not> PageLocked (frames s' (wr_pfn s w))"
    if wq: "w \<in> set (sq s (nat cpu))" for w
  proof -
    have "w \<in> fst ` set (zip (sq s (nat cpu)) oks)" using wq f by simp
    then obtain ok where "(w, ok) \<in> set (zip (sq s (nat cpu)) oks)" by auto
    then have "frames s' (wr_pfn s w) =
        page_filled (read_result E s w ok) (frames s (wr_pfn s w))"
      using s'(5) unfolding reads_done_def by blast
    then show ?thesis by simp
  qed
  then show ?thesis using s'(1-3,5) f by (auto simp: reads_done_def)
qed

theorem poll_load_completes_witness:
  "\<exists>s'. sswap_rdma_poll_load loop_env 0 loop_state = Ret 1 s' \<and> rdma_inv s'"
  using poll_load_completes [OF loop_nic_ok loop_inv, of 0] by (auto simp: loop_state_def)

end
