(* ===== verification/Rdma_Faults.thy ===== *)
theory Rdma_Faults
  imports Rdma_Props
begin

text \<open>
  How the RDMA backend behaves when something fails: a transfer, an allocation, a mapping,
  the posting of a request, or the exchange of the memory region. Every theorem follows one
  error path of the code to its end.
\<close>

section \<open>Failed transfers\<close>

text \<open>A connection on which every transfer fails and leaves its target as it was.\<close>

definition dead_link :: "rdma_env \<Rightarrow> bool" where
  "dead_link E \<longleftrightarrow> nic_ok E \<and> nic_outcome E (\<lambda>_ ok. \<not> ok) \<and> (\<forall>w d. dma_residue E w d = d)"

lemma dead_loop: "dead_link (loop_env_of (\<lambda>_. 12) False)"
  using loop_outcome_of [of "\<lambda>_. 12" False] loop_nic_ok_of
  by (simp add: dead_link_def nic_outcome_def) (simp add: loop_env_of_def)





text \<open>
  C15: reads are mapped with \<open>DMA_TO_DEVICE\<close> although the device writes the page, and
  unmapped with \<open>DMA_FROM_DEVICE\<close>. Under a DMA layer that enforces the direction every page
  fault therefore returns 0 with the page marked valid and its old contents, even though the
  transfer reports success; and each fault adds one mismatched unmapping.
\<close>

theorem strict_dma_loads_nothing:
  assumes "nic_ok E" "iommu_strict E" "sys_inv s" "\<forall>q. sq s q = []" "read_target (frames s p)"
  shows "\<exists>s'. swap_load_page (rdma_backend E) cpu_id ty i p s = Ret 0 s'
    \<and> frames s' p = page_filled (pg_data (frames s p)) (frames s p)
    \<and> dma_warn s' = dma_warn s + 1"
proof -
  have R: "nic_outcome E (\<lambda>_ _. True)" by (simp add: nic_outcome_def)
  have I: "rdma_inv s" "uint (this_cpu s) < numcpus s" using assms(3) by (simp_all add: sys_inv_def)
  have b: "p \<notin> busy s" using quiet_busy [OF I(1) assms(4)] by simp
  show ?thesis
    using rdma_read_poll_ok [OF assms(1) R I assms(4,5) b, of "page_off i"] assms(2)
    by (auto simp: swap_load_page_def sswap_load_def sswap_poll_load_def rdma_backend_def cpu_id_def)
qed

theorem strict_dma_loads_nothing_witness:
  "\<exists>s'. swap_load_page (rdma_backend (loop_env_of (\<lambda>_. 0) True)) cpu_id 0 3 5 loop_state = Ret 0 s'
     \<and> dma_warn s' = 1"
proof -
  have "\<forall>q. sq loop_state q = []" "read_target (frames loop_state 5)"
    "iommu_strict (loop_env_of (\<lambda>_. 0) True)" "dma_warn loop_state = 0"
    by (simp_all add: loop_state_def read_target_def loop_env_of_def)
  then show ?thesis
    using strict_dma_loads_nothing [OF loop_nic_ok_of _ loop_sys_inv, of "\<lambda>_. 0" True 5 0 3] by auto
qed

section \<open>Exhausted resources\<close>

lemma back_pressure_idle:
  assumes "rdma_core {} s" "q < nq s" "int (length (sq s q)) < limit"
  shows "back_pressure E q limit target s = Ret () s"
  using assms by (simp add: back_pressure_def get_q_ok whileK_stop q_pending_ok)

text \<open>A store reaches \<open>get_req_for_page\<close> at once: its queue is empty between calls.\<close>

lemma write_at_get_req:
  assumes I: "sys_inv s" and ok: "may_call s (CWrite p off)"
    and g: "get_req_for_page E p DMA_TO_DEVICE s = Crash f"
  shows "sswap_rdma_write E p off s = Crash f"
proof -
  have I': "rdma_inv s" "uint (this_cpu s) < numcpus s" using I by (simp_all add: sys_inv_def)
  note C = rdma_invD(1) [OF I'(1)]
  obtain q where q: "sswap_rdma_get_queue (this_cpu s) QP_WRITE_SYNC s = Ret q s" "q < nq s"
      "int q = uint (this_cpu s) + 2 * numcpus s"
    using get_queue_ok [OF C I'(2), of QP_WRITE_SYNC] by auto
  have "sq s q = []" using rdma_invD(2) [OF I'(1), of q] q(3) by simp
  then have "back_pressure E q (QP_MAX_SEND_WR - 8) 2048 s = Ret () s"
    using back_pressure_idle [OF C q(2)] by (simp add: QP_MAX_SEND_WR_def)
  moreover obtain d where "dev_of s = Some d" using rdma_coreD(1) [OF C] by auto
  ultimately show ?thesis
    using q(1,2) g ok queue_okD(1) [OF rdma_coreD(6) [OF C q(2)]]
    by (simp add: sswap_rdma_write_def write_queue_add_def get_rdev_ok)
qed

lemma read_at_get_req:
  assumes I: "sys_inv s" and e: "\<forall>q. sq s q = []" and ok: "may_call s (CReadSync p off)"
    and g: "get_req_for_page E p DMA_TO_DEVICE s = Crash f"
  shows "sswap_rdma_read_sync E p off s = Crash f"
proof -
  have I': "rdma_inv s" "uint (this_cpu s) < numcpus s" using I by (simp_all add: sys_inv_def)
  note C = rdma_invD(1) [OF I'(1)]
  obtain q where q: "sswap_rdma_get_queue (this_cpu s) QP_READ_SYNC s = Ret q s" "q < nq s"
    using get_queue_ok [OF C I'(2), of QP_READ_SYNC] by auto
  have "back_pressure E q QP_MAX_SEND_WR 8 s = Ret () s"
    using back_pressure_idle [OF C q(2)] e by (simp add: QP_MAX_SEND_WR_def)
  moreover have "check_read_target E p s = Ret () s"
    using ok by (simp add: check_read_target_def read_target_def)
  moreover obtain d where "dev_of s = Some d" using rdma_coreD(1) [OF C] by auto
  ultimately show ?thesis
    using q g queue_okD(1) [OF rdma_coreD(6) [OF C q(2)]]
    by (simp add: sswap_rdma_read_sync_def begin_read_def get_rdev_ok)
qed

text \<open>
  When the request cache is exhausted a store and a load dereference a null pointer
  instead of reporting the error: the test after \<open>kmem_cache_alloc\<close> looks at the address of
  the caller's variable and not at the result.
\<close>

theorem exhausted_cache_crashes:
  assumes "sys_inv s" "kmem_cache_alloc E (clock s) (\<lambda>r. reqs s r \<noteq> None) = None"
  shows "(may_call s (CWrite p off) \<longrightarrow> sswap_rdma_write E p off s = Crash NullDeref)
    \<and> (may_call s (CReadSync p off) \<and> (\<forall>q. sq s q = [])
        \<longrightarrow> sswap_rdma_read_sync E p off s = Crash NullDeref)"
proof -
  have "get_req_for_page E p DMA_TO_DEVICE s = Crash NullDeref"
    by (simp add: get_req_for_page_def assms(2) del: not_None_eq)
  then show ?thesis using write_at_get_req [OF assms(1)] read_at_get_req [OF assms(1)] by blast
qed

theorem exhausted_cache_crashes_witness:
  "sswap_rdma_write (loop_env\<lparr>kmem_cache_alloc := (\<lambda>t live. None)\<rparr>) 5 8192 loop_state = Crash NullDeref"
  using exhausted_cache_crashes
      [OF loop_sys_inv, of "loop_env\<lparr>kmem_cache_alloc := (\<lambda>t live. None)\<rparr>" 5 8192]
    loop_calls(1) by simp

text \<open>
  When a page cannot be mapped for DMA, a store and a load release the address of the
  caller's variable to the request cache instead of the request.
\<close>

theorem mapping_error_bad_free:
  assumes "sys_inv s" "kmem_cache_alloc E (clock s) (\<lambda>r. reqs s r \<noteq> None) = Some r"
    and "\<forall>a. ib_dma_mapping_error E a"
  shows "(may_call s (CWrite p off) \<longrightarrow> sswap_rdma_write E p off s = Crash BadFree)
    \<and> (may_call s (CReadSync p off) \<and> (\<forall>q. sq s q = [])
        \<longrightarrow> sswap_rdma_read_sync E p off s = Crash BadFree)"
proof -
  have "get_req_for_page E p DMA_TO_DEVICE s = Crash BadFree"
    by (simp add: get_req_for_page_def assms(2,3) Let_def del: not_None_eq)
  then show ?thesis using write_at_get_req [OF assms(1)] read_at_get_req [OF assms(1)] by blast
qed

theorem mapping_error_bad_free_witness:
  "sswap_rdma_write (loop_env\<lparr>ib_dma_mapping_error := (\<lambda>a. True)\<rparr>) 5 8192 loop_state = Crash BadFree"
proof -
  have "kmem_cache_alloc (loop_env\<lparr>ib_dma_mapping_error := (\<lambda>a. True)\<rparr>) (clock loop_state)
      (\<lambda>r. reqs loop_state r \<noteq> None) = Some 0"
    by (simp add: loop_env_def loop_env_of_def loop_state_def first_free.simps)
  then show ?thesis
    using mapping_error_bad_free [OF loop_sys_inv, of "loop_env\<lparr>ib_dma_mapping_error := (\<lambda>a. True)\<rparr>"]
      loop_calls(1) by simp
qed

section \<open>A request that cannot be posted\<close>

text \<open>
  One round of a poll that delivers nothing: only time passes.
\<close>

lemma idle_round:
  assumes q: "q < nq s" and lk: "\<not> cq_lock (qof q s)" and c: "cq (qof q s) = Some h"
    and none: "ib_poll_cq E (clock s) q (sq s q) (rq s q) n = []"
  shows "kthen (spin_lock_irqsave q) (kthen (ib_process_cq_direct E q n)
      (kthen (spin_unlock_irqrestore q) cpu_relax)) s = Ret () (s\<lparr>clock := Suc (clock s)\<rparr>)"
proof -
  have 1: "spin_lock_irqsave q s = Ret () (lock_q q s)"
    using q lk by (simp add: spin_lock_irqsave_def rdma_simps)
  have 2: "ib_process_cq_direct E q n (lock_q q s) = Ret 0 (lock_q q s)"
    using q c none by (simp add: ib_process_cq_direct_def get_handles_ok)
  have 3: "spin_unlock_irqrestore q (lock_q q s) = Ret () s"
    using q unlock_lock_id [OF q lk] by (simp add: spin_unlock_irqrestore_def upd_q_ok)
  show ?thesis using 1 2 3 by (simp add: cpu_relax_def)
qed

lemma drain_queue_stuck:
  assumes q: "q < nq s" and lk: "\<not> cq_lock (qof q s)" and c: "cq (qof q s) = Some h"
    and p: "0 < pending (qof q s)" and none: "\<And>t. ib_poll_cq E t q (sq s q) (rq s q) 16 = []"
  shows "drain_queue E q s = Hang"
proof -
  let ?I = "\<lambda>(_::unit) t. \<exists>n. t = s\<lparr>clock := n\<rparr>"
  have "whileK (\<lambda>_ s. q_pending q s > 0) (\<lambda>_. kthen (spin_lock_irqsave q)
      (kthen (ib_process_cq_direct E q 16) (kthen (spin_unlock_irqrestore q) cpu_relax))) () s = Hang"
  proof (rule whileK_hangs [where I = ?I])
    show "?I () s" by (intro exI [of _ "clock s"]) simp
    fix x t
    assume "?I x t"
    then obtain n where t: "t = s\<lparr>clock := n\<rparr>" by blast
    have "q_pending q t > 0"
      using q p by (simp add: t q_pending_def atomic_read_pending_def get_q_ok)
    moreover have "kthen (spin_lock_irqsave q) (kthen (ib_process_cq_direct E q 16)
        (kthen (spin_unlock_irqrestore q) cpu_relax)) t = Ret () (t\<lparr>clock := Suc (clock t)\<rparr>)"
      by (rule idle_round [where h = h]) (use q lk c none in \<open>simp_all add: t\<close>)
    ultimately show "q_pending q t > 0 \<and> (\<exists>x' s'. kthen (spin_lock_irqsave q)
        (kthen (ib_process_cq_direct E q 16) (kthen (spin_unlock_irqrestore q) cpu_relax)) t
        = Ret x' s' \<and> ?I x' s')"
      using t by auto
  qed
  then show ?thesis using q by (simp add: drain_queue_def get_q_ok)
qed

lemma post_rdma_fails:
  assumes q: "q < nq t" and Q: "q_ctrl (qof q t)" "qp (qof q t) = Some h"
    and d: "dev_of t = Some d" and x: "reqs t r = Some x" "dma x \<noteq> 0"
    and post: "\<And>t ws w. ib_post_send E t q ws w = e" "e \<noteq> 0"
  shows "sswap_rdma_post_rdma E q r off op t = Ret e
      (setq q (\<lambda>qu. qu\<lparr>pending := wrap32 (pending qu + 1)\<rparr>) t)"
  using q Q d x post
  by (simp add: sswap_rdma_post_rdma_def get_req_def get_rdev_ok get_servermr_ok get_handles_ok
      atomic_inc_pending_def upd_q_ok Let_def)

text \<open>
  C16: when the verbs layer refuses to post a read, the load reports -1 but the counter of
  the queue stays incremented (and the request and its mapping are never released), so the
  next \<open>sswap_poll_load\<close> of that processor never returns.
\<close>

theorem refused_read_blocks_polling:
  assumes "mem_ok E" "sys_inv s" "\<forall>q. sq s q = []" "read_target (frames s p)"
    and "\<forall>t q ws w. ib_post_send E t q ws w = e" "e \<noteq> 0"
    and "\<forall>t q n. ib_poll_cq E t q [] [] n = []"
  shows "\<exists>s'. sswap_load (rdma_backend E) ty i p s = Ret (-1) s'
    \<and> card (dom (reqs s')) = 1
    \<and> sswap_poll_load (rdma_backend E) (cpu_id s) s' = Hang"
proof -
  have I: "rdma_inv s" "uint (this_cpu s) < numcpus s" using assms(2) by (simp_all add: sys_inv_def)
  note C = rdma_invD(1) [OF I(1)]
  have u: "word_of_int (cpu_id s) = this_cpu s" by (simp add: cpu_id_def)
  obtain q where q: "sswap_rdma_get_queue (this_cpu s) QP_READ_SYNC s = Ret q s" "q < nq s"
    using get_queue_ok [OF C I(2), of QP_READ_SYNC] by auto
  note Q = queue_okD [OF rdma_coreD(6) [OF C q(2)]]
  obtain d h h' where d: "dev_of s = Some d" "qp (qof q s) = Some h" "cq (qof q s) = Some h'"
    using rdma_coreD(1) [OF C] Q(2,3) by auto
  have bp: "back_pressure E q QP_MAX_SEND_WR 8 s = Ret () s"
    using back_pressure_idle [OF C q(2)] assms(3) by (simp add: QP_MAX_SEND_WR_def)
  let ?x = "\<lambda>a fn. \<lparr>req_done = init_completion, cqe_done = fn, dma = a, req_page = Some p\<rparr>"
  obtain r a where g: "get_req_for_page E p DMA_TO_DEVICE s = Ret (0, r)
      (s\<lparr>reqs := (reqs s)(r \<mapsto> ?x a None),
         dma_maps := (dma_maps s)(a \<mapsto> (DmaPage p, DMA_TO_DEVICE))\<rparr>)"
    and fr: "reqs s r = None" "a \<noteq> 0"
    using get_req_for_page_ok [OF assms(1) C, of p DMA_TO_DEVICE] by blast
  let ?t = "s\<lparr>dma_maps := (dma_maps s)(a \<mapsto> (DmaPage p, DMA_TO_DEVICE)),
    reqs := (reqs s)(r \<mapsto> ?x a (Some Read_done))\<rparr>"
  let ?s = "setq q (\<lambda>qu. qu\<lparr>pending := wrap32 (pending qu + 1)\<rparr>) ?t"
  have post: "sswap_rdma_post_rdma E q r (page_off i) IB_WR_RDMA_READ ?t = Ret e ?s"
    using post_rdma_fails [of q ?t h d r "?x a (Some Read_done)" E e] q(2) Q d fr assms(5,6) by simp
  have chk: "check_read_target E p s = Ret () s"
    using assms(4) by (simp add: check_read_target_def read_target_def)
  have "sswap_rdma_read_sync E p (page_off i) s = Ret e ?s"
    using q bp g post chk Q(1) d(1)
    by (simp add: sswap_rdma_read_sync_def begin_read_def get_rdev_ok upd_req_def get_req_def)
  then have load: "sswap_load (rdma_backend E) ty i p s = Ret (-1) ?s"
    using assms(6) by (simp add: sswap_load_def rdma_backend_def)
  have "reqs s = Map.empty"
    using pool_okD(3) [OF rdma_coreD(8) [OF C]] assms(3) by (fastforce simp: fun_eq_iff)
  then have card: "card (dom (reqs ?s)) = 1" by simp
  have "sswap_rdma_get_queue (this_cpu s) QP_READ_SYNC ?s = Ret q ?s"
    using q(1) by (auto simp: sswap_rdma_get_queue_def split: if_splits)
  moreover have "drain_queue E q ?s = Hang"
    by (rule drain_queue_stuck [where h = h'])
      (use q(2) Q d(3) assms(3,7) in \<open>simp_all add: wrap32_def\<close>)
  ultimately have "sswap_poll_load (rdma_backend E) (cpu_id s) ?s = Hang"
    by (simp add: sswap_poll_load_def rdma_backend_def sswap_rdma_poll_load_def u)
  with load card show ?thesis by blast
qed

theorem refused_read_blocks_polling_witness:
  "\<exists>s'. sswap_load (rdma_backend (loop_env\<lparr>ib_post_send := (\<lambda>t q ws w. -12)\<rparr>)) 0 3 5 loop_state
       = Ret (-1) s'
     \<and> sswap_poll_load (rdma_backend (loop_env\<lparr>ib_post_send := (\<lambda>t q ws w. -12)\<rparr>)) 0 s' = Hang"
proof -
  let ?E = "loop_env\<lparr>ib_post_send := (\<lambda>t q ws w. -12)\<rparr>"
  have "mem_ok ?E" using loop_mem_ok by (simp add: mem_ok_def loop_env_def loop_env_of_def)
  moreover have "\<forall>q. sq loop_state q = []" "read_target (frames loop_state 5)"
    by (simp_all add: loop_state_def read_target_def)
  moreover have "\<forall>t q n. ib_poll_cq ?E t q [] [] n = []" by (simp add: loop_poll)
  moreover have "cpu_id loop_state = 0" by (simp add: cpu_id_def loop_state_def)
  ultimately show ?thesis
    using refused_read_blocks_polling [of ?E loop_state 5 "-12" 0 3] loop_sys_inv by auto
qed

section \<open>Processor numbers with gaps\<close>

lemma get_rdev_beyond: "rdma_inv s \<Longrightarrow> nq s \<le> q \<Longrightarrow> get_rdev q s = Crash OutOfBounds"
proof -
  assume I: "rdma_inv s" and q: "nq s \<le> q"
  have "dev_of s \<noteq> None" "0 < numcpus s" "int (nq s) = numcpus s * 3"
    using rdma_coreD(1,2,5) [OF rdma_invD(1) [OF I]] by simp_all
  then have "0 < nq s" by linarith
  then show ?thesis using q \<open>dev_of s \<noteq> None\<close>
    by (auto simp: get_rdev_def get_q_def dev_of_def qlist_def split: option.splits)
qed



end
