(* ===== verification/Cm_Event.thy ===== *)
theory Cm_Event
  imports Prelude
begin

text \<open>
  The events of the RDMA connection manager (\<open>enum rdma_cm_event_type\<close>), which drive both the
  client's \<open>sswap_rdma_cm_handler\<close> and the server's \<open>on_event\<close>, and the error numbers the
  drivers return, the parameters of a connection, and the byte order of port numbers.
\<close>

datatype rdma_cm_event =
    RDMA_CM_EVENT_ADDR_RESOLVED
  | RDMA_CM_EVENT_ADDR_ERROR
  | RDMA_CM_EVENT_ROUTE_RESOLVED
  | RDMA_CM_EVENT_ROUTE_ERROR
  | RDMA_CM_EVENT_CONNECT_REQUEST
  | RDMA_CM_EVENT_CONNECT_RESPONSE
  | RDMA_CM_EVENT_CONNECT_ERROR
  | RDMA_CM_EVENT_UNREACHABLE
  | RDMA_CM_EVENT_REJECTED
  | RDMA_CM_EVENT_ESTABLISHED
  | RDMA_CM_EVENT_DISCONNECTED
  | RDMA_CM_EVENT_DEVICE_REMOVAL
  | RDMA_CM_EVENT_MULTICAST_JOIN
  | RDMA_CM_EVENT_MULTICAST_ERROR
  | RDMA_CM_EVENT_ADDR_CHANGE
  | RDMA_CM_EVENT_TIMEWAIT_EXIT

definition ENOMEM :: int where "ENOMEM = 12"

definition ENODEV :: int where "ENODEV = 19"

definition EINVAL :: int where "EINVAL = 22"

definition ECONNRESET :: int where "ECONNRESET = 104"

definition ETIMEDOUT :: int where "ETIMEDOUT = 110"

lemmas errno_defs = ENOMEM_def ENODEV_def EINVAL_def ECONNRESET_def ETIMEDOUT_def

text \<open>
  The parameters of a connection (\<open>struct rdma_conn_param\<close>): those the server reads and echoes,
  and those only the requesting side sets. A queue pair is named by its handle; the client
  sends no private data.
\<close>

record conn_param =
  initiator_depth :: u8
  responder_resources :: u8
  rnr_retry_count :: u8
  flow_control :: u8

record conn_request = conn_param +
  retry_count :: u8
  qp_num :: nat

text \<open>\<open>cpu_to_be16\<close> and \<open>htons\<close> on a little-endian machine.\<close>

definition cpu_to_be16 :: "int \<Rightarrow> u16" where
  "cpu_to_be16 x = (let w = word_of_int x :: u16 in push_bit 8 w + drop_bit 8 w)"

end
