(* ===== verification/Rdma_Cm.thy ===== *)
theory Rdma_Cm
  imports Rdma_Backend Cm_Event
begin

text \<open>
  Setting up and tearing down the RDMA backend: the connection manager's handler, the
  initialisation of the queues, the controller, and the module's init and exit functions
  (\<open>src/code/drivers/fastswap_rdma.c\<close>). Around the driver's own state the model keeps the
  objects that the kernel has handed out and that have not been given back.
\<close>

section \<open>State and environment\<close>

text \<open>
  \<open>live_ids\<close>, \<open>live_qps\<close> and \<open>live_cqs\<close> are the connection identifiers, queue pairs (named
  by the identifier they belong to) and completion queues that exist; the counters are the
  protection domains, device structures, controllers, queue arrays and request caches.
  \<open>connects\<close> lists the identifiers connected so far with the parameters asked for.
\<close>

record cmst =
  drv :: kst
  live_ids :: "nat set"
  live_qps :: "nat set"
  live_cqs :: "nat set"
  n_pds :: nat
  n_rdevs :: nat
  n_ctrls :: nat
  n_qarrays :: nat
  n_caches :: nat
  client_registered :: bool
  connects :: "(nat \<times> conn_request) list"

text \<open>
  The kernel functions the set-up calls, by the index of the queue where it matters:
  allocations, verbs, the connection manager's calls, and the events it delivers to a queue
  until the wait for the connection times out. \<open>serverip\<close>, \<open>clientip\<close> and \<open>serverport\<close> are
  the module's parameters.
\<close>

record cm_env =
  base_env :: rdma_env
  kzalloc_ctrl :: bool
  kzalloc_queues :: bool
  kzalloc_dev :: "qid \<Rightarrow> bool"
  cm_device :: "qid \<Rightarrow> nat"
  ib_alloc_pd :: "qid \<Rightarrow> u32 option"
  mem_mgt_extensions :: bool
  ib_alloc_cq :: "qid \<Rightarrow> nat set \<Rightarrow> int + nat"
  rdma_create_qp :: "qid \<Rightarrow> int"
  rdma_create_id :: "qid \<Rightarrow> nat set \<Rightarrow> nat option"
  rdma_resolve_addr :: "qid \<Rightarrow> int"
  rdma_resolve_route :: "qid \<Rightarrow> int"
  rdma_connect :: "qid \<Rightarrow> conn_request \<Rightarrow> int"
  cm_events :: "qid \<Rightarrow> rdma_cm_event list"
  num_online_cpus :: int
  kmem_cache_create :: bool
  in4_pton :: "string \<Rightarrow> u8 list option"
  serverip :: string
  clientip :: string
  serverport :: int

definition on_drv :: "(kst, 'a) kmon \<Rightarrow> (cmst, 'a) kmon" where
  "on_drv m s =
     (case m (drv s) of
        None \<Rightarrow> Hang
      | Some (Inl f) \<Rightarrow> Crash f
      | Some (Inr (r, d)) \<Rightarrow> Ret r (s\<lparr>drv := d\<rparr>))"

text \<open>A pointer that must not be null.\<close>

definition need :: "'a option \<Rightarrow> ('s, 'a) kmon" where
  "need x = (case x of None \<Rightarrow> kcrash NullDeref | Some v \<Rightarrow> kret v)"

definition free_from :: "(cmst \<Rightarrow> nat set) \<Rightarrow> ((nat set \<Rightarrow> nat set) \<Rightarrow> cmst \<Rightarrow> cmst) \<Rightarrow> nat \<Rightarrow> (cmst, unit) kmon" where
  "free_from sel upd h s =
     (if h \<in> sel s then Ret () (upd (\<lambda>l. l - {h}) s) else Crash BadFree)"

section \<open>Devices and queue pairs\<close>

definition sswap_rdma_get_device :: "cm_env \<Rightarrow> qid \<Rightarrow> (cmst, sswap_rdma_dev option) kmon" where
  "sswap_rdma_get_device E q =
     kbind (on_drv (get_q q)) (\<lambda>qu.
     kbind (kgets (\<lambda>s. if q_ctrl qu then gctrl (drv s) else None)) (\<lambda>c.
     kbind (need c) (\<lambda>ct.
       case rdev ct of
         Some d \<Rightarrow> kret (Some d)
       | None \<Rightarrow>
           if \<not> kzalloc_dev E q then kret None
           else
             kthen (kmodify (\<lambda>s. s\<lparr>n_rdevs := n_rdevs s + 1\<rparr>))
            (kbind (need (cm_id qu)) (\<lambda>cid.
               case ib_alloc_pd E q of
                 None \<Rightarrow> kthen (kmodify (\<lambda>s. s\<lparr>n_rdevs := n_rdevs s - 1\<rparr>)) (kret None)
               | Some lkey \<Rightarrow>
                   kthen (kmodify (\<lambda>s. s\<lparr>n_pds := n_pds s + 1\<rparr>))
                  (if \<not> mem_mgt_extensions E then
                     kthen (kmodify (\<lambda>s. s\<lparr>n_pds := n_pds s - 1\<rparr>))
                    (kthen (kmodify (\<lambda>s. s\<lparr>n_rdevs := n_rdevs s - 1\<rparr>)) (kret None))
                   else
                     (let d = \<lparr>dev = cm_device E q, pd_local_dma_lkey = lkey\<rparr> in
                      kthen (on_drv (kmodify (\<lambda>s. s\<lparr>gctrl := map_option (\<lambda>c. c\<lparr>rdev := Some d\<rparr>)
                               (gctrl s)\<rparr>)))
                            (kret (Some d)))))))))"

definition sswap_rdma_create_qp :: "cm_env \<Rightarrow> qid \<Rightarrow> (cmst, int) kmon" where
  "sswap_rdma_create_qp E q =
     kbind (on_drv (get_rdev q)) (\<lambda>d.
     kbind (on_drv (get_q q)) (\<lambda>qu.
     kbind (need (cm_id qu)) (\<lambda>cid.
       let ret = rdma_create_qp E q in
       if ret \<noteq> 0 then kret ret
       else
         kthen (kmodify (\<lambda>s. s\<lparr>live_qps := insert cid (live_qps s)\<rparr>))
        (kthen (on_drv (upd_q q (\<lambda>qu. qu\<lparr>qp := Some cid\<rparr>))) (kret ret)))))"

definition ib_free_cq :: "qid \<Rightarrow> (cmst, unit) kmon" where
  "ib_free_cq q =
     kbind (on_drv (get_q q)) (\<lambda>qu.
     kbind (need (cq qu)) (\<lambda>h. free_from live_cqs live_cqs_update h))"

definition sswap_rdma_destroy_queue_ib :: "qid \<Rightarrow> (cmst, unit) kmon" where
  "sswap_rdma_destroy_queue_ib q =
     kthen (on_drv (get_rdev q)) (ib_free_cq q)"

text \<open>
  A queue of asynchronous reads gets a completion queue served by softirqs, the others one
  that is polled directly; the field \<open>cq\<close> is unset when the allocation returned an error.
\<close>

definition sswap_rdma_create_queue_ib :: "cm_env \<Rightarrow> qid \<Rightarrow> (cmst, int) kmon" where
  "sswap_rdma_create_queue_ib E q =
     kbind (on_drv (get_rdev q)) (\<lambda>d.
     kbind (kgets (\<lambda>s. ib_alloc_cq E q (live_cqs s))) (\<lambda>r.
       case r of
         Inl e \<Rightarrow> kthen (on_drv (upd_q q (\<lambda>qu. qu\<lparr>cq := None\<rparr>))) (kret e)
       | Inr h \<Rightarrow>
           kthen (kmodify (\<lambda>s. s\<lparr>live_cqs := insert h (live_cqs s)\<rparr>))
          (kthen (on_drv (upd_q q (\<lambda>qu. qu\<lparr>cq := Some h\<rparr>)))
          (kbind (sswap_rdma_create_qp E q) (\<lambda>ret.
             if ret \<noteq> 0 then kthen (ib_free_cq q) (kret ret) else kret 0)))))"

section \<open>Connection events\<close>

definition sswap_rdma_addr_resolved :: "cm_env \<Rightarrow> qid \<Rightarrow> (cmst, int) kmon" where
  "sswap_rdma_addr_resolved E q =
     kbind (sswap_rdma_get_device E q) (\<lambda>d.
       if d = None then kret (- ENODEV)
       else
         kbind (sswap_rdma_create_queue_ib E q) (\<lambda>ret.
           if ret \<noteq> 0 then kret ret
           else
             kthen (if rdma_resolve_route E q \<noteq> 0 then sswap_rdma_destroy_queue_ib q else kret ())
                   (kret 0)))"

definition connect_params :: "nat \<Rightarrow> conn_request" where
  "connect_params h =
     \<lparr>initiator_depth = 16, responder_resources = 16, rnr_retry_count = 7, flow_control = 1,
      retry_count = 7, qp_num = h\<rparr>"

definition sswap_rdma_route_resolved :: "cm_env \<Rightarrow> qid \<Rightarrow> (cmst, int) kmon" where
  "sswap_rdma_route_resolved E q =
     kbind (on_drv (get_qp q)) (\<lambda>h.
     kthen (on_drv (get_rdev q))
    (kbind (on_drv (get_q q)) (\<lambda>qu.
     kbind (need (cm_id qu)) (\<lambda>cid.
     kthen (if rdma_connect E q (connect_params h) \<noteq> 0 then sswap_rdma_destroy_queue_ib q
            else kmodify (\<lambda>s. s\<lparr>connects := connects s @ [(cid, connect_params h)]\<rparr>))
           (kret 0)))))"

definition sswap_rdma_conn_established :: "qid \<Rightarrow> (cmst, int) kmon" where
  "sswap_rdma_conn_established q = kret 0"

definition cm_complete :: "qid \<Rightarrow> int \<Rightarrow> (cmst, unit) kmon" where
  "cm_complete q e = on_drv (upd_q q (\<lambda>qu. qu\<lparr>cm_error := e, cm_done := complete (cm_done qu)\<rparr>))"

definition sswap_rdma_cm_handler :: "cm_env \<Rightarrow> qid \<Rightarrow> rdma_cm_event \<Rightarrow> (cmst, int) kmon" where
  "sswap_rdma_cm_handler E q ev =
     (if ev = RDMA_CM_EVENT_ESTABLISHED then
        kbind (sswap_rdma_conn_established q) (\<lambda>e. kthen (cm_complete q e) (kret 0))
      else
        kbind
          (case ev of
             RDMA_CM_EVENT_ADDR_RESOLVED \<Rightarrow> sswap_rdma_addr_resolved E q
           | RDMA_CM_EVENT_ROUTE_RESOLVED \<Rightarrow> sswap_rdma_route_resolved E q
           | RDMA_CM_EVENT_ADDR_ERROR \<Rightarrow> kret (- ECONNRESET)
           | RDMA_CM_EVENT_ROUTE_ERROR \<Rightarrow> kret (- ECONNRESET)
           | RDMA_CM_EVENT_CONNECT_ERROR \<Rightarrow> kret (- ECONNRESET)
           | RDMA_CM_EVENT_UNREACHABLE \<Rightarrow> kret (- ECONNRESET)
           | _ \<Rightarrow> kret 0)
          (\<lambda>cm_err. if cm_err \<noteq> 0 then kthen (cm_complete q cm_err) (kret 0) else kret 0))"

text \<open>
  The wait: events are handled until \<open>cm_done\<close> is signalled, or until no more come and the
  wait times out. The wait takes one signal back.
\<close>

definition cm_wait_step :: "qid \<Rightarrow> (cmst, unit) kmon \<Rightarrow> (cmst, unit) kmon" where
  "cm_wait_step q rest =
     kbind (on_drv (get_q q)) (\<lambda>qu.
       if completion_done (cm_done qu) then on_drv (upd_q q (\<lambda>qu. qu\<lparr>cm_done := cm_done qu - 1\<rparr>))
       else rest)"

fun cm_wait :: "cm_env \<Rightarrow> qid \<Rightarrow> rdma_cm_event list \<Rightarrow> (cmst, unit) kmon" where
  "cm_wait E q [] = cm_wait_step q (kret ())"
| "cm_wait E q (ev # evs) = cm_wait_step q (kthen (sswap_rdma_cm_handler E q ev) (cm_wait E q evs))"

definition sswap_rdma_wait_for_cm :: "cm_env \<Rightarrow> qid \<Rightarrow> (cmst, int) kmon" where
  "sswap_rdma_wait_for_cm E q =
     kthen (cm_wait E q (cm_events E q))
    (kbind (on_drv (get_q q)) (\<lambda>qu. kret (cm_error qu)))"

section \<open>Queues\<close>

definition rdma_destroy_id :: "qid \<Rightarrow> (cmst, unit) kmon" where
  "rdma_destroy_id q =
     kbind (on_drv (get_q q)) (\<lambda>qu.
     kbind (need (cm_id qu)) (\<lambda>cid. free_from live_ids live_ids_update cid))"

definition rdma_destroy_qp :: "qid \<Rightarrow> (cmst, unit) kmon" where
  "rdma_destroy_qp q =
     kbind (on_drv (get_q q)) (\<lambda>qu.
     kbind (need (cm_id qu)) (\<lambda>cid. free_from live_qps live_qps_update cid))"

definition sswap_rdma_init_queue :: "cm_env \<Rightarrow> qid \<Rightarrow> (cmst, int) kmon" where
  "sswap_rdma_init_queue E idx =
     kthen (on_drv (upd_q idx (\<lambda>qu. qu\<lparr>q_ctrl := True, cm_done := init_completion, pending := 0,
                                     cq_lock := False\<rparr>)))
    (kbind (kgets (\<lambda>s. numcpus (drv s))) (\<lambda>n.
     kbind (get_queue_type n (of_nat idx)) (\<lambda>ty.
     kthen (on_drv (upd_q idx (\<lambda>qu. qu\<lparr>qtype := ty\<rparr>)))
    (kbind (kgets (\<lambda>s. rdma_create_id E idx (live_ids s))) (\<lambda>r.
       case r of
         None \<Rightarrow> kthen (on_drv (upd_q idx (\<lambda>qu. qu\<lparr>cm_id := None\<rparr>))) (kret (- ENODEV))
       | Some cid \<Rightarrow>
           kthen (kmodify (\<lambda>s. s\<lparr>live_ids := insert cid (live_ids s)\<rparr>))
          (kthen (on_drv (upd_q idx (\<lambda>qu. qu\<lparr>cm_id := Some cid\<rparr>)))
          (kthen (on_drv (upd_q idx (\<lambda>qu. qu\<lparr>cm_error := - ETIMEDOUT\<rparr>)))
          (let ret = rdma_resolve_addr E idx in
           if ret \<noteq> 0 then kthen (rdma_destroy_id idx) (kret ret)
           else
             kbind (sswap_rdma_wait_for_cm E idx) (\<lambda>ret.
               if ret \<noteq> 0 then kthen (rdma_destroy_id idx) (kret ret) else kret 0)))))))))"

text \<open>\<open>rdma_disconnect\<close> is a call of the connection manager on the identifier.\<close>

definition sswap_rdma_stop_queue :: "qid \<Rightarrow> (cmst, unit) kmon" where
  "sswap_rdma_stop_queue q =
     kbind (on_drv (get_q q)) (\<lambda>qu.
     kbind (need (cm_id qu)) (\<lambda>cid.
     kbind (kgets live_ids) (\<lambda>l. if cid \<in> l then kret () else kcrash UseAfterFree)))"

definition sswap_rdma_free_queue :: "qid \<Rightarrow> (cmst, unit) kmon" where
  "sswap_rdma_free_queue q = kthen (rdma_destroy_qp q) (kthen (ib_free_cq q) (rdma_destroy_id q))"

text \<open>The loops over the queues: upwards from \<open>i\<close> for \<open>n\<close> queues, and downwards from \<open>i - 1\<close>.\<close>

fun init_up :: "cm_env \<Rightarrow> qid \<Rightarrow> nat \<Rightarrow> (cmst, int \<times> qid) kmon" where
  "init_up E i 0 = kret (0, i)"
| "init_up E i (Suc n) =
     kbind (sswap_rdma_init_queue E i) (\<lambda>ret. if ret \<noteq> 0 then kret (ret, i) else init_up E (Suc i) n)"

fun free_down :: "qid \<Rightarrow> (cmst, unit) kmon" where
  "free_down 0 = kret ()"
| "free_down (Suc i) =
     kthen (sswap_rdma_stop_queue i) (kthen (sswap_rdma_free_queue i) (free_down i))"

fun free_up :: "qid \<Rightarrow> nat \<Rightarrow> (cmst, unit) kmon" where
  "free_up i 0 = kret ()"
| "free_up i (Suc n) =
     kthen (sswap_rdma_stop_queue i) (kthen (sswap_rdma_free_queue i) (free_up (Suc i) n))"

definition sswap_rdma_init_queues :: "cm_env \<Rightarrow> (cmst, int) kmon" where
  "sswap_rdma_init_queues E =
     kbind (kgets (\<lambda>s. nat (numqueues (drv s)))) (\<lambda>n.
     kbind (init_up E 0 n) (\<lambda>(ret, i).
       if ret \<noteq> 0 then kthen (free_down i) (kret ret) else kret 0))"

definition sswap_rdma_stopandfree_queues :: "(cmst, unit) kmon" where
  "sswap_rdma_stopandfree_queues =
     kbind (kgets (\<lambda>s. nat (numqueues (drv s)))) (\<lambda>n. free_up 0 n)"

section \<open>Controller and module\<close>

definition INET_ADDRSTRLEN :: nat where
  "INET_ADDRSTRLEN = 16"

definition AF_INET :: nat where
  "AF_INET = 2"

definition sswap_rdma_parse_ipaddr :: "cm_env \<Rightarrow> string \<Rightarrow> sockaddr_in \<Rightarrow> int \<times> sockaddr_in" where
  "sswap_rdma_parse_ipaddr E ip saddr =
     (if length ip > INET_ADDRSTRLEN then (- EINVAL, saddr)
      else
        (case in4_pton E ip of
           None \<Rightarrow> (- EINVAL, saddr)
         | Some a \<Rightarrow> (0, saddr\<lparr>s_addr := a, sin_family := AF_INET\<rparr>)))"

definition zero_queue :: rdma_queue where
  "zero_queue = \<lparr>qp = None, cq = None, cq_lock = False, qtype = QP_READ_SYNC, q_ctrl = False,
     cm_id = None, cm_error = 0, cm_done = 0, pending = 0\<rparr>"

definition zero_addr :: sockaddr_in where
  "zero_addr = \<lparr>sin_family = 0, sin_port = 0, s_addr = [0, 0, 0, 0]\<rparr>"

definition zero_ctrl :: sswap_rdma_ctrl where
  "zero_ctrl = \<lparr>rdev = None, queues = None, servermr = \<lparr>baseaddr = 0, key = 0\<rparr>,
     addr_in = zero_addr, srcaddr_in = zero_addr\<rparr>"

abbreviation upd_ctrl :: "(sswap_rdma_ctrl \<Rightarrow> sswap_rdma_ctrl) \<Rightarrow> (cmst, unit) kmon" where
  "upd_ctrl f \<equiv> on_drv (kmodify (\<lambda>s. s\<lparr>gctrl := map_option f (gctrl s)\<rparr>))"

text \<open>
  The result of the second allocation is not tested. The errors of address parsing return
  without releasing anything, and so does a failure of \<open>sswap_rdma_init_queues\<close>.
\<close>

definition sswap_rdma_create_ctrl :: "cm_env \<Rightarrow> (cmst, int) kmon" where
  "sswap_rdma_create_ctrl E =
     (if \<not> kzalloc_ctrl E then kthen (on_drv (kmodify (\<lambda>s. s\<lparr>gctrl := None\<rparr>))) (kret (- ENOMEM))
      else
        kthen (kmodify (\<lambda>s. s\<lparr>n_ctrls := n_ctrls s + 1\<rparr>))
       (kthen (on_drv (kmodify (\<lambda>s. s\<lparr>gctrl := Some zero_ctrl\<rparr>)))
       (kthen (if kzalloc_queues E then
                 kthen (kmodify (\<lambda>s. s\<lparr>n_qarrays := n_qarrays s + 1\<rparr>))
                       (on_drv (kmodify (\<lambda>s. s\<lparr>gctrl := map_option
                          (\<lambda>c. c\<lparr>queues := Some (replicate (nat (numqueues s)) zero_queue)\<rparr>) (gctrl s)\<rparr>)))
               else kret ())
       (let (ret, a) = sswap_rdma_parse_ipaddr E (serverip E) zero_addr in
        kthen (upd_ctrl (\<lambda>c. c\<lparr>addr_in := a\<rparr>))
       (if ret \<noteq> 0 then kret (- EINVAL)
        else
          kthen (upd_ctrl (\<lambda>c. c\<lparr>addr_in := a\<lparr>sin_port := cpu_to_be16 (serverport E)\<rparr>\<rparr>))
         (let (ret, b) = sswap_rdma_parse_ipaddr E (clientip E) zero_addr in
          kthen (upd_ctrl (\<lambda>c. c\<lparr>srcaddr_in := b\<rparr>))
         (if ret \<noteq> 0 then kret (- EINVAL) else sswap_rdma_init_queues E)))))))"

definition sswap_rdma_init_module :: "cm_env \<Rightarrow> (cmst, int) kmon" where
  "sswap_rdma_init_module E =
     kthen (on_drv (kmodify (\<lambda>s. s\<lparr>numcpus := num_online_cpus E\<rparr>)))
    (kthen (on_drv (kmodify (\<lambda>s. s\<lparr>numqueues := num_online_cpus E * 3\<rparr>)))
    (kthen (on_drv (kmodify (\<lambda>s. s\<lparr>req_cache := kmem_cache_create E\<rparr>)))
    (if \<not> kmem_cache_create E then kret (- ENOMEM)
     else
       kthen (kmodify (\<lambda>s. s\<lparr>n_caches := n_caches s + 1\<rparr>))
      (kthen (kmodify (\<lambda>s. s\<lparr>client_registered := True\<rparr>))
      (kbind (sswap_rdma_create_ctrl E) (\<lambda>ret.
         if ret \<noteq> 0 then kthen (kmodify (\<lambda>s. s\<lparr>client_registered := False\<rparr>)) (kret (- ENODEV))
         else
           kbind (on_drv (sswap_rdma_recv_remotemr (base_env E))) (\<lambda>ret.
             if ret \<noteq> 0 then kthen (kmodify (\<lambda>s. s\<lparr>client_registered := False\<rparr>)) (kret (- ENODEV))
             else kret 0)))))))"

definition sswap_rdma_cleanup_module :: "(cmst, unit) kmon" where
  "sswap_rdma_cleanup_module =
     kthen sswap_rdma_stopandfree_queues
    (kthen (kmodify (\<lambda>s. s\<lparr>client_registered := False\<rparr>))
    (kthen (kmodify (\<lambda>s. s\<lparr>n_ctrls := n_ctrls s - 1\<rparr>))
    (kthen (on_drv (kmodify (\<lambda>s. s\<lparr>gctrl := None\<rparr>)))
    (kbind (kgets (\<lambda>s. req_cache (drv s))) (\<lambda>c.
       if c then kmodify (\<lambda>s. s\<lparr>n_caches := n_caches s - 1\<rparr>) else kret ())))))"

end
