(* ===== verification/Rdma_Setup.thy ===== *)
theory Rdma_Setup
  imports Rdma_Cm Rdma_Loopback
begin

text \<open>
  Setting up the connection: when every call of the environment succeeds, the module's init
  function returns 0 in a state that satisfies the invariant of the data path, and the exit
  function then gives back every connection, queue pair and completion queue. The lemmas
  follow one queue through its three connection events; the loop over the queues keeps
  \<open>setup_inv\<close>.
\<close>

section \<open>Evaluation\<close>

lemma on_drv_Ret [simp]: "m (drv s) = Ret r d \<Longrightarrow> on_drv m s = Ret r (s\<lparr>drv := d\<rparr>)"
  by (simp add: on_drv_def)

lemma on_drv_Crash [simp]: "m (drv s) = Crash f \<Longrightarrow> on_drv m s = Crash f"
  by (simp add: on_drv_def)

lemma on_drv_Hang [simp]: "m (drv s) = Hang \<Longrightarrow> on_drv m s = Hang"
  by (simp add: on_drv_def)

lemma need_Some [simp]: "need (Some v) = kret v"
  by (simp add: need_def)

lemma need_None [simp]: "need None = kcrash NullDeref"
  by (simp add: need_def)

definition set_rdev :: "sswap_rdma_dev \<Rightarrow> kst \<Rightarrow> kst" where
  "set_rdev d s = s\<lparr>gctrl := map_option (\<lambda>c. c\<lparr>rdev := Some d\<rparr>) (gctrl s)\<rparr>"

lemma set_rdev_sel [simp]:
  "qlist (set_rdev d s) = qlist s" "qof q (set_rdev d s) = qof q s" "mr_of (set_rdev d s) = mr_of s"
  "numcpus (set_rdev d s) = numcpus s" "numqueues (set_rdev d s) = numqueues s"
  "req_cache (set_rdev d s) = req_cache s" "sq (set_rdev d s) = sq s" "rq (set_rdev d s) = rq s"
  "reqs (set_rdev d s) = reqs s" "dma_maps (set_rdev d s) = dma_maps s"
  "frames (set_rdev d s) = frames s" "this_cpu (set_rdev d s) = this_cpu s"
  "dma_warn (set_rdev d s) = dma_warn s" "farmem (set_rdev d s) = farmem s"
  "clock (set_rdev d s) = clock s"
  by (auto simp: set_rdev_def qlist_def qof_def mr_of_def split: option.splits)

lemma dev_of_set_rdev: "gctrl s \<noteq> None \<Longrightarrow> dev_of (set_rdev d s) = Some d"
  by (auto simp: dev_of_def set_rdev_def)

lemma set_rdev_id: "dev_of s = Some d \<Longrightarrow> set_rdev d s = s"
  by (cases "gctrl s") (auto simp: dev_of_def set_rdev_def intro!: kst.equality)

section \<open>Hypotheses\<close>

text \<open>Every allocation, verb and call of the connection manager succeeds, for every queue.\<close>

definition cm_ok :: "cm_env \<Rightarrow> bool" where
  "cm_ok E \<longleftrightarrow>
     kzalloc_ctrl E \<and> kzalloc_queues E \<and> (\<forall>q. kzalloc_dev E q) \<and> (\<forall>q. ib_alloc_pd E q \<noteq> None)
   \<and> mem_mgt_extensions E
   \<and> (\<forall>q l. finite l \<longrightarrow> (\<exists>h. ib_alloc_cq E q l = Inr h \<and> h \<notin> l))
   \<and> (\<forall>q. rdma_create_qp E q = 0)
   \<and> (\<forall>q l. finite l \<longrightarrow> (\<exists>h. rdma_create_id E q l = Some h \<and> h \<notin> l))
   \<and> (\<forall>q. rdma_resolve_addr E q = 0 \<and> rdma_resolve_route E q = 0)
   \<and> (\<forall>q p. rdma_connect E q p = 0)
   \<and> 0 < num_online_cpus E \<and> num_online_cpus E \<le> 8192 \<and> kmem_cache_create E
   \<and> in4_pton E (serverip E) \<noteq> None \<and> in4_pton E (clientip E) \<noteq> None
   \<and> length (serverip E) \<le> INET_ADDRSTRLEN \<and> length (clientip E) \<le> INET_ADDRSTRLEN"

text \<open>And the server accepts every connection.\<close>

abbreviation good_events :: "rdma_cm_event list" where
  "good_events \<equiv> [RDMA_CM_EVENT_ADDR_RESOLVED, RDMA_CM_EVENT_ROUTE_RESOLVED, RDMA_CM_EVENT_ESTABLISHED]"

definition cm_good :: "cm_env \<Rightarrow> bool" where
  "cm_good E \<longleftrightarrow> cm_ok E \<and> (\<forall>q. cm_events E q = good_events)"

lemma cm_okD:
  assumes "cm_ok E"
  shows "kzalloc_ctrl E" "kzalloc_queues E" "kzalloc_dev E q" "mem_mgt_extensions E"
    "rdma_create_qp E q = 0" "rdma_resolve_addr E q = 0" "rdma_resolve_route E q = 0"
    "rdma_connect E q pa = 0" "kmem_cache_create E" "0 < num_online_cpus E" "num_online_cpus E \<le> 8192"
    "length (serverip E) \<le> INET_ADDRSTRLEN" "length (clientip E) \<le> INET_ADDRSTRLEN"
  using assms unfolding cm_ok_def by simp_all

lemma cm_ok_exD:
  assumes "cm_ok E"
  shows "\<exists>lk. ib_alloc_pd E q = Some lk" "\<exists>a. in4_pton E (serverip E) = Some a"
    "\<exists>a. in4_pton E (clientip E) = Some a"
    "finite l \<Longrightarrow> \<exists>h. ib_alloc_cq E q l = Inr h \<and> h \<notin> l"
    "finite l \<Longrightarrow> \<exists>h. rdma_create_id E q l = Some h \<and> h \<notin> l"
  using assms unfolding cm_ok_def by simp_all

lemma cm_goodD:
  assumes "cm_good E"
  shows "cm_ok E" "cm_events E q = good_events"
  using assms by (simp_all add: cm_good_def)

section \<open>One queue\<close>

text \<open>The first queue to resolve its address makes the device structure.\<close>

definition new_dev :: "kst \<Rightarrow> nat" where
  "new_dev s = (if dev_of s = None then 1 else 0)"

lemma setq_cong: "q < nq s \<Longrightarrow> f (qof q s) = g (qof q s) \<Longrightarrow> setq q f s = setq q g s"
  by (cases "gctrl s"; cases "queues (the (gctrl s))")
    (auto simp: setq_def map_q_def qlist_def qof_def)

lemma get_device_ok:
  assumes G: "cm_ok E" and q: "q < nq (drv s)" "q_ctrl (qof q (drv s))" "cm_id (qof q (drv s)) = Some cid"
  shows "\<exists>d. sswap_rdma_get_device E q s =
      Ret (Some d) (s\<lparr>n_rdevs := n_rdevs s + new_dev (drv s), n_pds := n_pds s + new_dev (drv s), drv := set_rdev d (drv s)\<rparr>)"
proof -
  obtain c where c: "gctrl (drv s) = Some c" using nq_pos_gctrl [OF q(1)] by auto
  have get: "on_drv (get_q q) s = Ret (qof q (drv s)) s" using q(1) by (simp add: get_q_ok)
  show ?thesis
  proof (cases "rdev c")
    case (Some d)
    then have dv: "dev_of (drv s) = Some d" using c by (simp add: dev_of_def)
    have "sswap_rdma_get_device E q s = Ret (Some d) s"
      using get q(2) c Some by (simp add: sswap_rdma_get_device_def)
    then show ?thesis
      using set_rdev_id [OF dv] by (intro exI [of _ d]) (simp add: new_dev_def dv)
  next
    case None
    then have dv: "dev_of (drv s) = None" using c by (simp add: dev_of_def)
    obtain lk where lk: "ib_alloc_pd E q = Some lk" using cm_ok_exD(1) [OF G] by blast
    let ?d = "\<lparr>dev = cm_device E q, pd_local_dma_lkey = lk\<rparr>"
    have "sswap_rdma_get_device E q s = Ret (Some ?d)
        (s\<lparr>n_rdevs := n_rdevs s + 1, n_pds := n_pds s + 1, drv := set_rdev ?d (drv s)\<rparr>)"
      using get q(2,3) c None lk cm_okD(3,4) [OF G]
      by (simp add: sswap_rdma_get_device_def Let_def set_rdev_def)
    then show ?thesis
      by (intro exI [of _ ?d]) (simp add: new_dev_def dv)
  qed
qed

lemma create_queue_ib_ok:
  assumes G: "cm_ok E" and q: "q < nq (drv s)" "q_ctrl (qof q (drv s))" "cm_id (qof q (drv s)) = Some cid"
    and d: "dev_of (drv s) = Some d" and fin: "finite (live_cqs s)"
  shows "\<exists>h. h \<notin> live_cqs s \<and> sswap_rdma_create_queue_ib E q s = Ret 0
      (s\<lparr>live_cqs := insert h (live_cqs s), live_qps := insert cid (live_qps s),
         drv := setq q (\<lambda>qu. qu\<lparr>cq := Some h, qp := Some cid\<rparr>) (drv s)\<rparr>)"
proof -
  obtain h where h: "ib_alloc_cq E q (live_cqs s) = Inr h" "h \<notin> live_cqs s"
    using cm_ok_exD(4) [OF G fin] by blast
  have "sswap_rdma_create_queue_ib E q s = Ret 0
      (s\<lparr>live_cqs := insert h (live_cqs s), live_qps := insert cid (live_qps s),
         drv := setq q (\<lambda>qu. qu\<lparr>cq := Some h, qp := Some cid\<rparr>) (drv s)\<rparr>)"
    using h(1) q d cm_okD(5) [OF G, of q]
    by (simp add: sswap_rdma_create_queue_ib_def sswap_rdma_create_qp_def Let_def get_rdev_ok
        get_q_ok upd_q_ok)
  then show ?thesis using h(2) by blast
qed

lemma addr_resolved_ok:
  assumes G: "cm_ok E" and q: "q < nq (drv s)" "q_ctrl (qof q (drv s))" "cm_id (qof q (drv s)) = Some cid"
    and fin: "finite (live_cqs s)"
  shows "\<exists>h d. h \<notin> live_cqs s
    \<and> sswap_rdma_cm_handler E q RDMA_CM_EVENT_ADDR_RESOLVED s = Ret 0
        (s\<lparr>n_rdevs := n_rdevs s + new_dev (drv s), n_pds := n_pds s + new_dev (drv s), live_cqs := insert h (live_cqs s),
           live_qps := insert cid (live_qps s),
           drv := setq q (\<lambda>qu. qu\<lparr>cq := Some h, qp := Some cid\<rparr>) (set_rdev d (drv s))\<rparr>)"
proof -
  obtain d where g: "sswap_rdma_get_device E q s =
        Ret (Some d) (s\<lparr>n_rdevs := n_rdevs s + new_dev (drv s), n_pds := n_pds s + new_dev (drv s), drv := set_rdev d (drv s)\<rparr>)"
    using get_device_ok [OF G q] by blast
  let ?s1 = "s\<lparr>n_rdevs := n_rdevs s + new_dev (drv s), n_pds := n_pds s + new_dev (drv s), drv := set_rdev d (drv s)\<rparr>"
  have "dev_of (drv ?s1) = Some d" using nq_pos_gctrl [OF q(1)] by (simp add: dev_of_set_rdev)
  then obtain h where h: "h \<notin> live_cqs s" "sswap_rdma_create_queue_ib E q ?s1 = Ret 0
      (?s1\<lparr>live_cqs := insert h (live_cqs s), live_qps := insert cid (live_qps s),
         drv := setq q (\<lambda>qu. qu\<lparr>cq := Some h, qp := Some cid\<rparr>) (set_rdev d (drv s))\<rparr>)"
    using create_queue_ib_ok [OF G, of q ?s1 cid d] q fin by auto
  have "sswap_rdma_cm_handler E q RDMA_CM_EVENT_ADDR_RESOLVED s = Ret 0
      (s\<lparr>n_rdevs := n_rdevs s + new_dev (drv s), n_pds := n_pds s + new_dev (drv s), live_cqs := insert h (live_cqs s),
         live_qps := insert cid (live_qps s),
         drv := setq q (\<lambda>qu. qu\<lparr>cq := Some h, qp := Some cid\<rparr>) (set_rdev d (drv s))\<rparr>)"
    using g(1) h(2) cm_okD(7) [OF G, of q]
    by (simp add: sswap_rdma_cm_handler_def sswap_rdma_addr_resolved_def)
  then show ?thesis using h(1) by blast
qed

text \<open>An identifier whose connection the client has asked for.\<close>

abbreviation conn_of :: "nat \<Rightarrow> nat \<times> conn_request" where
  "conn_of cid \<equiv> (cid, connect_params cid)"

lemma route_resolved_ok:
  assumes G: "cm_ok E" and q: "q < nq (drv s)" "q_ctrl (qof q (drv s))" "qp (qof q (drv s)) = Some cid"
      "cm_id (qof q (drv s)) = Some cid"
    and d: "dev_of (drv s) = Some d"
  shows "sswap_rdma_cm_handler E q RDMA_CM_EVENT_ROUTE_RESOLVED s =
    Ret 0 (s\<lparr>connects := connects s @ [conn_of cid]\<rparr>)"
  using assms cm_okD(8) [OF G, of q]
  by (simp add: sswap_rdma_cm_handler_def sswap_rdma_route_resolved_def get_rdev_ok get_handles_ok get_q_ok)

lemma established_ok:
  assumes q: "q < nq (drv s)"
  shows "sswap_rdma_cm_handler E q RDMA_CM_EVENT_ESTABLISHED s =
    Ret 0 (s\<lparr>drv := setq q (\<lambda>qu. qu\<lparr>cm_error := 0, cm_done := Suc (cm_done qu)\<rparr>) (drv s)\<rparr>)"
  using q by (simp add: sswap_rdma_cm_handler_def sswap_rdma_conn_established_def cm_complete_def
      upd_q_ok complete_def)

lemma cm_wait_step_go:
  "q < nq (drv s) \<Longrightarrow> cm_done (qof q (drv s)) = 0 \<Longrightarrow> cm_wait_step q m s = m s"
  by (simp add: cm_wait_step_def get_q_ok completion_done_def)

lemma cm_wait_step_done:
  "q < nq (drv s) \<Longrightarrow> cm_done (qof q (drv s)) = Suc n \<Longrightarrow>
   cm_wait_step q m s = Ret () (s\<lparr>drv := setq q (\<lambda>qu. qu\<lparr>cm_done := cm_done qu - 1\<rparr>) (drv s)\<rparr>)"
  by (simp add: cm_wait_step_def get_q_ok completion_done_def upd_q_ok)

text \<open>The wait for the connection of a queue whose events all come.\<close>

lemma wait_for_cm_ok:
  assumes G: "cm_ok E" and ev: "cm_events E q = good_events"
    and q: "q < nq (drv s)" "q_ctrl (qof q (drv s))" "cm_id (qof q (drv s)) = Some cid"
    and cd: "cm_done (qof q (drv s)) = 0" and fin: "finite (live_cqs s)"
  shows "\<exists>h d. h \<notin> live_cqs s
    \<and> sswap_rdma_wait_for_cm E q s = Ret 0
        (s\<lparr>n_rdevs := n_rdevs s + new_dev (drv s), n_pds := n_pds s + new_dev (drv s), live_cqs := insert h (live_cqs s),
           live_qps := insert cid (live_qps s), connects := connects s @ [conn_of cid],
           drv := setq q (\<lambda>qu. qu\<lparr>cq := Some h, qp := Some cid, cm_error := 0, cm_done := 0\<rparr>)
             (set_rdev d (drv s))\<rparr>)"
proof -
  obtain h d where a: "h \<notin> live_cqs s"
      "sswap_rdma_cm_handler E q RDMA_CM_EVENT_ADDR_RESOLVED s = Ret 0
        (s\<lparr>n_rdevs := n_rdevs s + new_dev (drv s), n_pds := n_pds s + new_dev (drv s), live_cqs := insert h (live_cqs s),
           live_qps := insert cid (live_qps s),
           drv := setq q (\<lambda>qu. qu\<lparr>cq := Some h, qp := Some cid\<rparr>) (set_rdev d (drv s))\<rparr>)"
    using addr_resolved_ok [OF G q fin] by blast
  let ?d1 = "setq q (\<lambda>qu. qu\<lparr>cq := Some h, qp := Some cid\<rparr>) (set_rdev d (drv s))"
  let ?s1 = "s\<lparr>n_rdevs := n_rdevs s + new_dev (drv s), n_pds := n_pds s + new_dev (drv s), live_cqs := insert h (live_cqs s),
    live_qps := insert cid (live_qps s), drv := ?d1\<rparr>"
  have dv: "dev_of ?d1 = Some d" using nq_pos_gctrl [OF q(1)] by (simp add: dev_of_set_rdev)
  let ?s2 = "s\<lparr>n_rdevs := n_rdevs s + new_dev (drv s), n_pds := n_pds s + new_dev (drv s), live_cqs := insert h (live_cqs s),
    live_qps := insert cid (live_qps s), drv := ?d1, connects := connects s @ [conn_of cid]\<rparr>"
  have r: "sswap_rdma_cm_handler E q RDMA_CM_EVENT_ROUTE_RESOLVED ?s1 = Ret 0 ?s2"
    using route_resolved_ok [OF G, of q ?s1 cid d] q dv by simp
  have e: "sswap_rdma_cm_handler E q RDMA_CM_EVENT_ESTABLISHED ?s2 =
      Ret 0 (?s2\<lparr>drv := setq q (\<lambda>qu. qu\<lparr>cm_error := 0, cm_done := Suc (cm_done qu)\<rparr>) ?d1\<rparr>)"
    using established_ok [of q ?s2] q by simp
  let ?d2 = "setq q (\<lambda>qu. qu\<lparr>cm_error := 0, cm_done := Suc (cm_done qu)\<rparr>) ?d1"
  have w: "cm_wait E q (cm_events E q) s = Ret () (?s2\<lparr>drv := setq q (\<lambda>qu. qu\<lparr>cm_done := cm_done qu - 1\<rparr>) ?d2\<rparr>)"
    using a(2) r e q cd by (simp add: ev cm_wait_step_go cm_wait_step_done)
  have "setq q (\<lambda>qu. qu\<lparr>cm_done := cm_done qu - 1\<rparr>) ?d2 =
      setq q (\<lambda>qu. qu\<lparr>cq := Some h, qp := Some cid, cm_error := 0, cm_done := 0\<rparr>) (set_rdev d (drv s))"
    by (simp add: q(1)) (rule setq_cong, simp_all add: q(1) cd)
  then have "sswap_rdma_wait_for_cm E q s = Ret 0 (?s2\<lparr>drv :=
      setq q (\<lambda>qu. qu\<lparr>cq := Some h, qp := Some cid, cm_error := 0, cm_done := 0\<rparr>) (set_rdev d (drv s))\<rparr>)"
    using w q(1) by (simp add: sswap_rdma_wait_for_cm_def get_q_ok)
  then show ?thesis using a(1) by (intro exI [of _ h] exI [of _ d]) simp
qed

text \<open>The queue after its connection is established.\<close>

definition queue_kind :: "int \<Rightarrow> qid \<Rightarrow> qp_type" where
  "queue_kind n q =
     (if int q < n then QP_READ_SYNC else if int q < 2 * n then QP_READ_ASYNC else QP_WRITE_SYNC)"

definition ready_queue :: "qp_type \<Rightarrow> nat \<Rightarrow> nat \<Rightarrow> rdma_queue" where
  "ready_queue ty cid h = \<lparr>qp = Some cid, cq = Some h, cq_lock = False, qtype = ty, q_ctrl = True,
     cm_id = Some cid, cm_error = 0, cm_done = 0, pending = 0\<rparr>"

lemma set_rdev_setq: "set_rdev d (setq q f s) = setq q f (set_rdev d s)"
  by (cases "gctrl s") (simp_all add: set_rdev_def setq_def map_q_def)

lemma get_queue_kind:
  assumes "n \<le> 8192" "int q < n * 3"
  shows "get_queue_type n (of_nat q) s = Ret (queue_kind n q) s"
proof -
  have "uint (of_nat q :: u32) = int q"
    using assms uint_word_of_int_small [of "int q"] by simp
  then show ?thesis using get_queue_type_ok [of n "of_nat q" s] assms by (simp add: queue_kind_def)
qed

lemma init_queue_ok:
  assumes G: "cm_ok E" and ev: "cm_events E q = good_events"
    and q: "q < nq (drv s)" and n: "numcpus (drv s) \<le> 8192"
      "int q < numcpus (drv s) * 3"
    and fin: "finite (live_cqs s)" "finite (live_ids s)"
  shows "\<exists>h cid d. h \<notin> live_cqs s \<and> cid \<notin> live_ids s
    \<and> sswap_rdma_init_queue E q s = Ret 0
        (s\<lparr>live_ids := insert cid (live_ids s),
           n_rdevs := n_rdevs s + new_dev (drv s), n_pds := n_pds s + new_dev (drv s),
           live_cqs := insert h (live_cqs s), live_qps := insert cid (live_qps s), connects := connects s @ [conn_of cid],
           drv := setq q (\<lambda>_. ready_queue (queue_kind (numcpus (drv s)) q) cid h)
             (set_rdev d (drv s))\<rparr>)"
proof -
  obtain cid where cid: "rdma_create_id E q (live_ids s) = Some cid" "cid \<notin> live_ids s"
    using cm_ok_exD(5) [OF G fin(2)] by blast
  let ?ty = "queue_kind (numcpus (drv s)) q"
  let ?f = "\<lambda>qu. qu\<lparr>q_ctrl := True, cm_done := 0, pending := 0, cq_lock := False, qtype := ?ty,
    cm_id := Some cid, cm_error := - ETIMEDOUT\<rparr>"
  let ?s1 = "s\<lparr>live_ids := insert cid (live_ids s), drv := setq q ?f (drv s)\<rparr>"
  obtain h d where w: "h \<notin> live_cqs s" "sswap_rdma_wait_for_cm E q ?s1 = Ret 0
      (?s1\<lparr>n_rdevs := n_rdevs s + new_dev (drv s), n_pds := n_pds s + new_dev (drv s),
         live_cqs := insert h (live_cqs s), live_qps := insert cid (live_qps s), connects := connects s @ [conn_of cid],
         drv := setq q (\<lambda>qu. qu\<lparr>cq := Some h, qp := Some cid, cm_error := 0, cm_done := 0\<rparr>)
           (set_rdev d (setq q ?f (drv s)))\<rparr>)"
    using wait_for_cm_ok [OF G ev, of ?s1 cid] q fin(1) by (auto simp: new_dev_def)
  have eq: "setq q (\<lambda>qu. qu\<lparr>cq := Some h, qp := Some cid, cm_error := 0, cm_done := 0\<rparr>)
      (set_rdev d (setq q ?f (drv s))) =
      setq q (\<lambda>_. ready_queue ?ty cid h) (set_rdev d (drv s))"
    by (simp add: set_rdev_setq q) (rule setq_cong, simp_all add: q ready_queue_def)
  have "sswap_rdma_init_queue E q s = Ret 0
      (s\<lparr>live_ids := insert cid (live_ids s),
         n_rdevs := n_rdevs s + new_dev (drv s), n_pds := n_pds s + new_dev (drv s),
         live_cqs := insert h (live_cqs s), live_qps := insert cid (live_qps s), connects := connects s @ [conn_of cid],
         drv := setq q (\<lambda>_. ready_queue ?ty cid h) (set_rdev d (drv s))\<rparr>)"
    using q n cid(1) w(2) cm_okD(6) [OF G, of q]
    by (simp add: sswap_rdma_init_queue_def upd_q_ok get_queue_kind Let_def init_completion_def eq)
  then show ?thesis using w(1) cid(2) by blast
qed

section \<open>All queues\<close>

text \<open>The first \<open>i\<close> queues are connected, and what is live belongs to them.\<close>

definition setup_inv :: "kst \<Rightarrow> nat \<Rightarrow> nat list \<Rightarrow> nat list \<Rightarrow> cmst \<Rightarrow> bool" where
  "setup_inv s0 i cids hs s \<longleftrightarrow>
     length cids = i \<and> length hs = i \<and> distinct cids \<and> distinct hs
   \<and> live_ids s = set cids \<and> live_qps s = set cids \<and> live_cqs s = set hs
   \<and> int (nq (drv s)) = numcpus s0 * 3 \<and> mr_of (drv s) = mr_of s0
   \<and> (\<forall>q < i. qof q (drv s) = ready_queue (queue_kind (numcpus s0) q) (cids ! q) (hs ! q))
   \<and> (0 < i) = (dev_of (drv s) \<noteq> None)
   \<and> (drv s)\<lparr>gctrl := None\<rparr> = s0\<lparr>gctrl := None\<rparr>
   \<and> n_rdevs s = (if i = 0 then 0 else 1) \<and> n_pds s = (if i = 0 then 0 else 1)
   \<and> n_ctrls s = 1 \<and> n_qarrays s = 1 \<and> n_caches s = 1 \<and> client_registered s
   \<and> connects s = map conn_of cids"

lemma setup_inv_step:
  assumes G: "cm_ok E" and ev: "cm_events E i = good_events" and I: "setup_inv s0 i cids hs s"
    and n: "numcpus s0 \<le> 8192" "int i < numcpus s0 * 3"
  shows "\<exists>cid h s'. sswap_rdma_init_queue E i s = Ret 0 s'
    \<and> setup_inv s0 (Suc i) (cids @ [cid]) (hs @ [h]) s'"
proof -
  have nc: "numcpus (drv s) = numcpus s0"
    using I unfolding setup_inv_def by (metis kst.select_convs(2) kst.surjective kst.update_convs(1))
  have i: "i < nq (drv s)" using I n(2) by (simp add: setup_inv_def)
  obtain h cid d where q: "h \<notin> live_cqs s" "cid \<notin> live_ids s"
      "sswap_rdma_init_queue E i s = Ret 0
        (s\<lparr>live_ids := insert cid (live_ids s),
           n_rdevs := n_rdevs s + new_dev (drv s), n_pds := n_pds s + new_dev (drv s),
           live_cqs := insert h (live_cqs s), live_qps := insert cid (live_qps s), connects := connects s @ [conn_of cid],
           drv := setq i (\<lambda>_. ready_queue (queue_kind (numcpus (drv s)) i) cid h)
             (set_rdev d (drv s))\<rparr>)" (is "_ = Ret 0 ?s")
    using init_queue_ok [OF G ev i] n nc I by (auto simp: setup_inv_def)
  let ?d = "setq i (\<lambda>_. ready_queue (queue_kind (numcpus (drv s)) i) cid h) (set_rdev d (drv s))"
  have rest: "?d\<lparr>gctrl := None\<rparr> = (drv s)\<lparr>gctrl := None\<rparr>"
    by (simp add: setq_def set_rdev_def)
  have dv: "dev_of ?d \<noteq> None" using nq_pos_gctrl [OF i] by (simp add: dev_of_set_rdev)
  have qs: "qof q ?d = ready_queue (queue_kind (numcpus s0) q) ((cids @ [cid]) ! q) ((hs @ [h]) ! q)"
    if "q < Suc i" for q
    using that I i nc by (auto simp: setup_inv_def nth_append less_Suc_eq)
  have "setup_inv s0 (Suc i) (cids @ [cid]) (hs @ [h]) ?s"
    unfolding setup_inv_def
    using I q(1,2) rest dv qs by (auto simp: setup_inv_def new_dev_def)
  then show ?thesis using q(3) by blast
qed

lemma init_up_ok:
  assumes G: "cm_ok E" and n: "numcpus s0 \<le> 8192"
  shows "setup_inv s0 i cids hs s \<Longrightarrow> int i + int k \<le> numcpus s0 * 3 \<Longrightarrow>
    \<forall>q < i + k. cm_events E q = good_events \<Longrightarrow>
    \<exists>cids' hs' s'. setup_inv s0 (i + k) cids' hs' s' \<and> (\<forall>m. init_up E i (k + m) s = init_up E (i + k) m s')"
proof (induction k arbitrary: i cids hs s)
  case 0
  then show ?case by auto
next
  case (Suc k)
  have "int i < numcpus s0 * 3" "cm_events E i = good_events" using Suc.prems(2,3) by simp_all
  then obtain cid h s1 where s1: "sswap_rdma_init_queue E i s = Ret 0 s1"
      "setup_inv s0 (Suc i) (cids @ [cid]) (hs @ [h]) s1"
    using setup_inv_step [OF G _ Suc.prems(1) n] by blast
  then show ?case using Suc.IH [OF s1(2)] Suc.prems(2,3) by simp
qed

text \<open>Tearing down: the last connected queue first, or the first one first.\<close>

lemma free_queue_ok:
  assumes "q < nq (drv s)" "qof q (drv s) = ready_queue ty cid h"
    "cid \<in> live_ids s" "cid \<in> live_qps s" "h \<in> live_cqs s"
  shows "sswap_rdma_stop_queue q s = Ret () s"
    "sswap_rdma_free_queue q s = Ret () (s\<lparr>live_qps := live_qps s - {cid},
       live_cqs := live_cqs s - {h}, live_ids := live_ids s - {cid}\<rparr>)"
  using assms
  by (simp_all add: sswap_rdma_stop_queue_def sswap_rdma_free_queue_def rdma_destroy_qp_def
      ib_free_cq_def rdma_destroy_id_def get_q_ok ready_queue_def free_from_def)

lemma free_up_ok:
  assumes "\<forall>q < length cids. qof (i + q) (drv s) = ready_queue (ty (i + q)) (cids ! q) (hs ! q)"
    "i + length cids \<le> nq (drv s)" "length hs = length cids" "distinct cids" "distinct hs"
    "live_ids s = set cids" "live_qps s = set cids" "live_cqs s = set hs"
  shows "free_up i (length cids) s = Ret () (s\<lparr>live_qps := {}, live_cqs := {}, live_ids := {}\<rparr>)"
  using assms
proof (induction cids arbitrary: i hs s)
  case Nil
  then show ?case by (auto intro!: cmst.equality)
next
  case (Cons cid cids)
  obtain h hs' where hs: "hs = h # hs'" using Cons.prems(3) by (cases hs) auto
  let ?s = "s\<lparr>live_qps := live_qps s - {cid}, live_cqs := live_cqs s - {h},
    live_ids := live_ids s - {cid}\<rparr>"
  have q0: "qof i (drv s) = ready_queue (ty i) cid h" using Cons.prems(1) hs by auto
  have q1: "qof (Suc i + q) (drv s) = ready_queue (ty (Suc i + q)) (cids ! q) (hs' ! q)"
    if "q < length cids" for q
    using Cons.prems(1) that hs by (auto dest!: spec [of _ "Suc q"])
  have fr: "sswap_rdma_stop_queue i s = Ret () s" "sswap_rdma_free_queue i s = Ret () ?s"
    using free_queue_ok [OF _ q0] Cons.prems hs by simp_all
  have "free_up (Suc i) (length cids) ?s = Ret () (?s\<lparr>live_qps := {}, live_cqs := {}, live_ids := {}\<rparr>)"
    by (rule Cons.IH [where hs = hs']) (use Cons.prems hs q1 in auto)
  then show ?case using fr by simp
qed

lemma free_down_ok:
  "\<forall>q < length cids. qof q (drv s) = ready_queue (ty q) (cids ! q) (hs ! q) \<Longrightarrow> length cids \<le> nq (drv s) \<Longrightarrow>
   length hs = length cids \<Longrightarrow> distinct cids \<Longrightarrow> distinct hs \<Longrightarrow>
   set cids \<subseteq> live_ids s \<Longrightarrow> set cids \<subseteq> live_qps s \<Longrightarrow> set hs \<subseteq> live_cqs s \<Longrightarrow>
   free_down (length cids) s = Ret () (s\<lparr>live_qps := live_qps s - set cids,
     live_cqs := live_cqs s - set hs, live_ids := live_ids s - set cids\<rparr>)"
proof (induction cids arbitrary: hs s rule: rev_induct)
  case (snoc cid cids)
  obtain h hs' where hs: "hs = hs' @ [h]" "length hs' = length cids"
    using snoc.prems(3) by (cases hs rule: rev_cases) auto
  let ?s = "s\<lparr>live_qps := live_qps s - {cid}, live_cqs := live_cqs s - {h}, live_ids := live_ids s - {cid}\<rparr>"
  have "qof (length cids) (drv s) = ready_queue (ty (length cids)) cid h"
    using snoc.prems(1) hs by (auto simp: nth_append)
  then have fr: "sswap_rdma_stop_queue (length cids) s = Ret () s" "sswap_rdma_free_queue (length cids) s = Ret () ?s"
    using free_queue_ok [of "length cids" s] snoc.prems hs by simp_all
  have q: "\<forall>q < length cids. qof q (drv ?s) = ready_queue (ty q) (cids ! q) (hs' ! q)"
    using snoc.prems(1) hs by (auto simp: nth_append)
  have "free_down (length cids) ?s = Ret () (?s\<lparr>live_qps := live_qps ?s - set cids,
      live_cqs := live_cqs ?s - set hs', live_ids := live_ids ?s - set cids\<rparr>)"
    by (rule snoc.IH [OF q]) (use snoc.prems(2-8) hs in auto)
  then show ?case using fr by (simp add: hs Diff_insert2 [symmetric])
qed (auto intro!: cmst.equality)

section \<open>The server's memory region\<close>

text \<open>
  The receive posted on the first queue completes with status \<open>st\<close> some time after it is
  posted; before that, and afterwards, the queue reports nothing.
\<close>

definition recv_delivers :: "rdma_env \<Rightarrow> nat \<Rightarrow> bool" where
  "recv_delivers E st \<longleftrightarrow>
     (\<forall>t w. ib_post_recv E t 0 [] w = 0)
   \<and> (\<forall>t w. \<exists>k. (\<forall>j < k. ib_poll_cq E (t + j) 0 [] [w] 1 = [])
        \<and> ib_poll_cq E (t + k) 0 [] [w] 1 = [\<lparr>wc_cqe = rwr_cqe w, wc_status = st\<rparr>])
   \<and> (\<forall>t. ib_poll_cq E t 0 [] [] 1 = [])
   \<and> (\<forall>t m d. finite {a. m a} \<and> card {a. m a} \<le> 2 ^ 30 \<longrightarrow>
        \<not> ib_dma_mapping_error E (ib_dma_map_single E t m d) \<and> \<not> m (ib_dma_map_single E t m d))"

text \<open>The driver between posting the receive and its completion.\<close>

definition recv_posted :: "req_ptr \<Rightarrow> u64 \<Rightarrow> recv_wr \<Rightarrow> kst \<Rightarrow> bool" where
  "recv_posted r a w s \<longleftrightarrow>
     0 < nq s \<and> q_ctrl (qof 0 s) \<and> cq (qof 0 s) \<noteq> None \<and> dev_of s \<noteq> None
   \<and> sq s 0 = [] \<and> rq s 0 = [w] \<and> rwr_cqe w = r \<and> rsge_addr w = a
   \<and> reqs s r = Some \<lparr>req_done = 0, cqe_done = Some Recv_remotemr_done, dma = a, req_page = None\<rparr>
   \<and> dma_maps s a = Some (DmaServermr, DMA_FROM_DEVICE)"

definition set_mr :: "sswap_rdma_memregion \<Rightarrow> kst \<Rightarrow> kst" where
  "set_mr mr s = s\<lparr>gctrl := map_option (\<lambda>c. c\<lparr>servermr := mr\<rparr>) (gctrl s)\<rparr>"

definition wait_body :: "rdma_env \<Rightarrow> unit \<Rightarrow> (kst, unit) kmon" where
  "wait_body E = (\<lambda>_. kthen cpu_relax (kthen (ib_process_cq_direct E 0 1) (kret ())))"

lemma wait_body_idle:
  assumes "0 < nq s" "cq (qof 0 s) \<noteq> None" "ib_poll_cq E (Suc (clock s)) 0 (sq s 0) (rq s 0) 1 = []"
  shows "wait_body E x s = Ret () (s\<lparr>clock := Suc (clock s)\<rparr>)"
proof -
  obtain h where "cq (qof 0 s) = Some h" using assms(2) by auto
  then show ?thesis
    using assms(1,3) by (simp add: wait_body_def cpu_relax_def ib_process_cq_direct_def get_handles_ok)
qed

text \<open>What the receive leaves: the region on success, an unchanged request on failure.\<close>

lemma wait_body_arrives:
  assumes P: "recv_posted r a w s"
    and poll: "ib_poll_cq E (Suc (clock s)) 0 [] [w] 1 = [\<lparr>wc_cqe = r, wc_status = st\<rparr>]"
  shows "st = 0 \<Longrightarrow> wait_body E x s = Ret ()
      ((set_mr (memregion_of_bytes (recv_message E)) s)\<lparr>clock := Suc (clock s), rq := (rq s)(0 := []),
         dma_maps := (dma_maps s)(a := None),
         reqs := (reqs s)(r \<mapsto> \<lparr>req_done = complete_all 0, cqe_done = Some Recv_remotemr_done,
           dma = a, req_page = None\<rparr>)\<rparr>)"
    and "st \<noteq> 0 \<Longrightarrow> wait_body E x s = Ret () (s\<lparr>clock := Suc (clock s), rq := (rq s)(0 := [])\<rparr>)"
proof -
  obtain h d where h: "cq (qof 0 s) = Some h" "dev_of s = Some d"
    using P by (auto simp: recv_posted_def)
  let ?t = "s\<lparr>clock := Suc (clock s)\<rparr>"
  let ?wc = "\<lparr>wc_cqe = r, wc_status = st\<rparr>"
  let ?u = "(if st = 0 then set_mr (memregion_of_bytes (recv_message E)) ?t else ?t)
    \<lparr>rq := (rq s)(0 := [])\<rparr>"
  have nc: "nic_complete E 0 ?wc ?t = ?u"
    using P by (simp add: recv_posted_def nic_complete_def nic_receive_def set_mr_def)
  have u: "nq ?u = nq s" "qof 0 ?u = qof 0 s" "dev_of ?u = dev_of s" "reqs ?u = reqs s"
      "dma_maps ?u = dma_maps s"
    by (auto simp: set_mr_def qlist_def qof_def dev_of_def split: option.splits)
  have rd: "get_rdev 0 ?u = Ret d ?u"
    using P u h by (intro get_rdev_ok) (simp_all add: recv_posted_def)
  have run: "wait_body E x s = (case cqe_dispatch 0 ?wc ?u of
      Some (Inr (_, v)) \<Rightarrow> Ret () v | Some (Inl f) \<Rightarrow> Crash f | None \<Rightarrow> Hang)"
    using P h poll nc
    by (simp add: wait_body_def recv_posted_def cpu_relax_def ib_process_cq_direct_def get_handles_ok kthen_def
        kbind_def split: option.splits sum.splits)
  have x: "reqs ?u r = Some \<lparr>req_done = 0, cqe_done = Some Recv_remotemr_done, dma = a, req_page = None\<rparr>"
    "dma_maps ?u a = Some (DmaServermr, DMA_FROM_DEVICE)"
    using P u(4,5) by (simp_all add: recv_posted_def)
  define v where "v = ?u"
  note v = nc [folded v_def] run [folded v_def] rd [folded v_def] x [folded v_def]
  show "wait_body E x s = Ret ()
      ((set_mr (memregion_of_bytes (recv_message E)) s)\<lparr>clock := Suc (clock s), rq := (rq s)(0 := []),
         dma_maps := (dma_maps s)(a := None),
         reqs := (reqs s)(r \<mapsto> \<lparr>req_done = complete_all 0, cqe_done = Some Recv_remotemr_done,
           dma = a, req_page = None\<rparr>)\<rparr>)" if st: "st = 0"
  proof -
    have "cqe_dispatch 0 ?wc v = Ret () (v\<lparr>dma_maps := (dma_maps v)(a := None), dma_warn := dma_warn v,
        reqs := (reqs v)(r \<mapsto> \<lparr>req_done = complete_all 0, cqe_done = Some Recv_remotemr_done,
           dma = a, req_page = None\<rparr>)\<rparr>)"
      using v(3-5) st
      by (simp add: cqe_dispatch_def sswap_rdma_recv_remotemr_done_def get_req_def upd_req_def
          ib_dma_unmap_def)
    then show ?thesis using v(2) st by (simp add: v_def set_mr_def)
  qed
  show "wait_body E x s = Ret () (s\<lparr>clock := Suc (clock s), rq := (rq s)(0 := [])\<rparr>)" if st: "st \<noteq> 0"
  proof -
    have "cqe_dispatch 0 ?wc v = Ret () v"
      using v(3-5) st
      by (simp add: cqe_dispatch_def sswap_rdma_recv_remotemr_done_def get_req_def)
    then show ?thesis using v(2) st by (simp add: v_def)
  qed
qed

definition recv_done_state :: "rdma_env \<Rightarrow> req_ptr \<Rightarrow> u64 \<Rightarrow> nat \<Rightarrow> kst \<Rightarrow> kst" where
  "recv_done_state E r a t s =
     (set_mr (memregion_of_bytes (recv_message E)) s)\<lparr>clock := t, rq := (rq s)(0 := []),
        dma_maps := (dma_maps s)(a := None),
        reqs := (reqs s)(r \<mapsto> \<lparr>req_done = complete_all 0, cqe_done = Some Recv_remotemr_done,
          dma = a, req_page = None\<rparr>)\<rparr>"

lemma recv_posted_clock: "recv_posted r a w (s\<lparr>clock := t\<rparr>) = recv_posted r a w s"
  by (simp add: recv_posted_def)

lemma recv_posted_idle:
  assumes "recv_posted r a w s" "ib_poll_cq E (Suc (clock s)) 0 [] [w] 1 = []"
  shows "\<not> req_is_done r s" "wait_body E x s = Ret () (s\<lparr>clock := Suc (clock s)\<rparr>)"
  using assms wait_body_idle [where s = s and E = E and x = x]
  by (simp_all add: recv_posted_def req_is_done_def completion_done_def)

lemma wait_loop_ok:
  assumes "recv_posted r a w s" "\<forall>j < k. ib_poll_cq E (Suc (clock s) + j) 0 [] [w] 1 = []"
    "ib_poll_cq E (Suc (clock s) + k) 0 [] [w] 1 = [\<lparr>wc_cqe = r, wc_status = 0\<rparr>]"
  shows "\<exists>t. whileK (\<lambda>_ s. \<not> req_is_done r s) (wait_body E) () s = Ret () (recv_done_state E r a t s)"
  using assms
proof (induction k arbitrary: s)
  case 0
  have nd: "\<not> req_is_done r s"
    using 0(1) by (simp add: recv_posted_def req_is_done_def completion_done_def)
  have b: "wait_body E () s = Ret () (recv_done_state E r a (Suc (clock s)) s)"
    using wait_body_arrives(1) [OF 0(1), of E 0] 0(3) by (simp add: recv_done_state_def)
  have "req_is_done r (recv_done_state E r a (Suc (clock s)) s)"
    by (simp add: recv_done_state_def req_is_done_def completion_done_def complete_all_def)
  then have "whileK (\<lambda>_ s. \<not> req_is_done r s) (wait_body E) () (recv_done_state E r a (Suc (clock s)) s)
      = Ret () (recv_done_state E r a (Suc (clock s)) s)"
    by (intro whileK_stop) simp
  moreover have "whileK (\<lambda>_ s. \<not> req_is_done r s) (wait_body E) () s =
      whileK (\<lambda>_ s. \<not> req_is_done r s) (wait_body E) () (recv_done_state E r a (Suc (clock s)) s)"
    by (rule whileK_step) (use nd b in simp_all)
  ultimately show ?case by auto
next
  case (Suc k)
  let ?s = "s\<lparr>clock := Suc (clock s)\<rparr>"
  have i: "\<not> req_is_done r s" "wait_body E () s = Ret () ?s"
    using recv_posted_idle [OF Suc.prems(1)] Suc.prems(2) by (auto dest!: spec [of _ 0])
  have p1: "ib_poll_cq E (Suc (clock ?s) + j) 0 [] [w] 1 = []" if "j < k" for j
    using Suc.prems(2) that by (auto dest!: spec [of _ "Suc j"])
  then obtain t where "whileK (\<lambda>_ s. \<not> req_is_done r s) (wait_body E) () ?s =
      Ret () (recv_done_state E r a t ?s)"
    using Suc.IH [of ?s] Suc.prems(1,3) by (auto simp: recv_posted_clock)
  moreover have "recv_done_state E r a t ?s = recv_done_state E r a t s"
    by (simp add: recv_done_state_def set_mr_def)
  moreover have "whileK (\<lambda>_ s. \<not> req_is_done r s) (wait_body E) () s =
      whileK (\<lambda>_ s. \<not> req_is_done r s) (wait_body E) () ?s"
    by (rule whileK_step) (use i in simp_all)
  ultimately show ?case by auto
qed

lemma wait_loop_failed:
  assumes "recv_posted r a w s" "\<forall>j < k. ib_poll_cq E (Suc (clock s) + j) 0 [] [w] 1 = []"
    "ib_poll_cq E (Suc (clock s) + k) 0 [] [w] 1 = [\<lparr>wc_cqe = r, wc_status = st\<rparr>]" "st \<noteq> 0"
    and none: "\<forall>t. ib_poll_cq E t 0 [] [] 1 = []"
  shows "whileK (\<lambda>_ s. \<not> req_is_done r s) (wait_body E) () s = Hang"
  using assms(1-3)
proof (induction k arbitrary: s)
  case 0
  let ?s = "s\<lparr>clock := Suc (clock s), rq := (rq s)(0 := [])\<rparr>"
  let ?I = "\<lambda>(_::unit) t. \<exists>n. t = ?s\<lparr>clock := n\<rparr>"
  have nd: "\<not> req_is_done r s"
    using 0(1) by (simp add: recv_posted_def req_is_done_def completion_done_def)
  have b: "wait_body E () s = Ret () ?s"
    using wait_body_arrives(2) [OF 0(1), of E st] 0(3) assms(4) by simp
  have "whileK (\<lambda>_ s. \<not> req_is_done r s) (wait_body E) () ?s = Hang"
  proof (rule whileK_hangs [where I = ?I])
    show "?I () ?s" by (intro exI [of _ "Suc (clock s)"]) simp
    fix x t
    assume "?I x t"
    then obtain n where t: "t = ?s\<lparr>clock := n\<rparr>" by blast
    have "wait_body E x t = Ret () (t\<lparr>clock := Suc (clock t)\<rparr>)"
      by (rule wait_body_idle) (use 0(1) none in \<open>simp_all add: t recv_posted_def\<close>)
    moreover have "\<not> req_is_done r t"
      using 0(1) by (simp add: t recv_posted_def req_is_done_def completion_done_def)
    ultimately show "\<not> req_is_done r t \<and> (\<exists>x' s'. wait_body E x t = Ret x' s' \<and> ?I x' s')"
      using t by auto
  qed
  moreover have "whileK (\<lambda>_ s. \<not> req_is_done r s) (wait_body E) () s =
      whileK (\<lambda>_ s. \<not> req_is_done r s) (wait_body E) () ?s"
    by (rule whileK_step) (use nd b in simp_all)
  ultimately show ?case by simp
next
  case (Suc k)
  let ?s = "s\<lparr>clock := Suc (clock s)\<rparr>"
  have i: "\<not> req_is_done r s" "wait_body E () s = Ret () ?s"
    using recv_posted_idle [OF Suc.prems(1)] Suc.prems(2) by (auto dest!: spec [of _ 0])
  have p1: "ib_poll_cq E (Suc (clock ?s) + j) 0 [] [w] 1 = []" if "j < k" for j
    using Suc.prems(2) that by (auto dest!: spec [of _ "Suc j"])
  then have "whileK (\<lambda>_ s. \<not> req_is_done r s) (wait_body E) () ?s = Hang"
    using Suc.IH [of ?s] Suc.prems(1,3) by (auto simp: recv_posted_clock)
  moreover have "whileK (\<lambda>_ s. \<not> req_is_done r s) (wait_body E) () s =
      whileK (\<lambda>_ s. \<not> req_is_done r s) (wait_body E) () ?s"
    by (rule whileK_step) (use i in simp_all)
  ultimately show ?case by simp
qed

lemma recv_remotemr_start:
  assumes M: "mem_ok E" and D: "recv_delivers E st"
    and q: "0 < nq s" "q_ctrl (qof 0 s)" "qp (qof 0 s) \<noteq> None" "cq (qof 0 s) \<noteq> None"
    and d: "dev_of s \<noteq> None" and e: "sq s 0 = []" "rq s 0 = []" "reqs s = Map.empty" "dma_maps s = Map.empty"
  shows "\<exists>r a w s1. recv_posted r a w s1
    \<and> s1 = s\<lparr>dma_maps := [a \<mapsto> (DmaServermr, DMA_FROM_DEVICE)],
         reqs := [r \<mapsto> \<lparr>req_done = 0, cqe_done = Some Recv_remotemr_done, dma = a, req_page = None\<rparr>],
         rq := (rq s)(0 := [w]), clock := Suc (clock s)\<rparr>
    \<and> sswap_rdma_recv_remotemr E s =
        kthen (whileK (\<lambda>_ s. \<not> req_is_done r s) (wait_body E) ())
          (kthen (kmem_cache_free r) (kret 0)) s1"
proof -
  obtain dv h where dv: "dev_of s = Some dv" "qp (qof 0 s) = Some h" using d q(3) by auto
  have cr: "get_ctrl_rdev s = Ret dv s"
    using dv(1) by (auto simp: get_ctrl_rdev_def dev_of_def split: option.splits)
  obtain r where r: "kmem_cache_alloc E (clock s) (\<lambda>r. reqs s r \<noteq> None) = Some r"
    using mem_okD(1) [OF M, of "\<lambda>r. reqs s r \<noteq> None" "clock s"] e(3) by auto
  define a where "a = ib_dma_map_single E (clock s) (\<lambda>x. dma_maps s x \<noteq> None) DMA_FROM_DEVICE"
  have a: "\<not> ib_dma_mapping_error E a"
    using D e(4) unfolding recv_delivers_def a_def by (simp only: finite.emptyI) simp
  let ?x = "\<lambda>f. \<lparr>req_done = 0, cqe_done = f, dma = a, req_page = None\<rparr>"
  have g: "get_req_for_buf E DMA_FROM_DEVICE s = Ret (0, r) (s\<lparr>reqs := [r \<mapsto> ?x None],
      dma_maps := [a \<mapsto> (DmaServermr, DMA_FROM_DEVICE)]\<rparr>)"
    unfolding get_req_for_buf_def r a_def [symmetric] Let_def using a e(3,4) by (simp add: init_completion_def)
  let ?w = "\<lparr>rwr_cqe = r, rsge_addr = a, rsge_length = 16, rsge_lkey = pd_local_dma_lkey dv\<rparr>"
  let ?s0 = "s\<lparr>dma_maps := [a \<mapsto> (DmaServermr, DMA_FROM_DEVICE)], reqs := [r \<mapsto> ?x (Some Recv_remotemr_done)]\<rparr>"
  let ?s1 = "?s0\<lparr>rq := (rq s)(0 := [?w]), clock := Suc (clock s)\<rparr>"
  have post: "sswap_rdma_post_recv E 0 r 16 ?s0 = Ret 0 (?s0\<lparr>rq := (rq s)(0 := [?w])\<rparr>)"
    using q dv D e(2)
    by (simp add: sswap_rdma_post_recv_def get_req_def get_rdev_ok get_handles_ok Let_def recv_delivers_def)
  have "recv_posted r a ?w ?s1" using q d e(1) by (simp add: recv_posted_def)
  moreover have "sswap_rdma_recv_remotemr E s =
      kthen (whileK (\<lambda>_ s. \<not> req_is_done r s) (wait_body E) ()) (kthen (kmem_cache_free r) (kret 0)) ?s1"
    using cr g post
    by (simp add: sswap_rdma_recv_remotemr_def upd_req_def get_req_def sswap_rdma_wait_completion_def
        cpu_relax_def wait_body_def kthen_def kbind_def)
  ultimately show ?thesis by blast
qed

text \<open>The receive succeeds: the region is known and nothing is left behind.\<close>

lemma recv_remotemr_ok:
  assumes M: "mem_ok E" and D: "recv_delivers E 0"
    and q: "0 < nq s" "q_ctrl (qof 0 s)" "qp (qof 0 s) \<noteq> None" "cq (qof 0 s) \<noteq> None"
    and d: "dev_of s \<noteq> None" and e: "sq s 0 = []" "rq s 0 = []" "reqs s = Map.empty" "dma_maps s = Map.empty"
  shows "\<exists>t. sswap_rdma_recv_remotemr E s =
    Ret 0 ((set_mr (memregion_of_bytes (recv_message E)) s)\<lparr>clock := t\<rparr>)"
proof -
  obtain r a w s1 where p: "recv_posted r a w s1"
      "s1 = s\<lparr>dma_maps := [a \<mapsto> (DmaServermr, DMA_FROM_DEVICE)],
         reqs := [r \<mapsto> \<lparr>req_done = 0, cqe_done = Some Recv_remotemr_done, dma = a, req_page = None\<rparr>],
         rq := (rq s)(0 := [w]), clock := Suc (clock s)\<rparr>"
      "sswap_rdma_recv_remotemr E s =
        kthen (whileK (\<lambda>_ s. \<not> req_is_done r s) (wait_body E) ())
          (kthen (kmem_cache_free r) (kret 0)) s1"
    using recv_remotemr_start [OF M D q d e] by blast
  have r: "rwr_cqe w = r" using p(1) by (simp add: recv_posted_def)
  obtain k where k: "\<forall>j < k. ib_poll_cq E (Suc (clock s1) + j) 0 [] [w] 1 = []"
      "ib_poll_cq E (Suc (clock s1) + k) 0 [] [w] 1 = [\<lparr>wc_cqe = r, wc_status = 0\<rparr>]"
    using D unfolding recv_delivers_def r [symmetric] by blast
  obtain t where w: "whileK (\<lambda>_ s. \<not> req_is_done r s) (wait_body E) () s1 =
      Ret () (recv_done_state E r a t s1)"
    using wait_loop_ok [OF p(1) k] by blast
  have "(rq s)(0 := []) = rq s" using e(2) by auto
  then have "kthen (kmem_cache_free r) (kret 0) (recv_done_state E r a t s1) =
      Ret 0 ((set_mr (memregion_of_bytes (recv_message E)) s)\<lparr>clock := t\<rparr>)"
    using e(3,4)
    by (simp add: recv_done_state_def kmem_cache_free_def)
      (auto intro!: kst.equality simp: p(2) set_mr_def)
  then show ?thesis using p(3) w by (intro exI [of _ t]) simp
qed

text \<open>The receive fails: the handler does not signal the waiting function.\<close>

lemma recv_remotemr_stuck:
  assumes M: "mem_ok E" and D: "recv_delivers E st" "st \<noteq> 0"
    and q: "0 < nq s" "q_ctrl (qof 0 s)" "qp (qof 0 s) \<noteq> None" "cq (qof 0 s) \<noteq> None"
    and d: "dev_of s \<noteq> None" and e: "sq s 0 = []" "rq s 0 = []" "reqs s = Map.empty" "dma_maps s = Map.empty"
  shows "sswap_rdma_recv_remotemr E s = Hang"
proof -
  obtain r a w s1 where p: "recv_posted r a w s1"
      "sswap_rdma_recv_remotemr E s =
        kthen (whileK (\<lambda>_ s. \<not> req_is_done r s) (wait_body E) ())
          (kthen (kmem_cache_free r) (kret 0)) s1"
    using recv_remotemr_start [OF M D(1) q d e] by blast
  have r: "rwr_cqe w = r" using p(1) by (simp add: recv_posted_def)
  obtain k where k: "\<forall>j < k. ib_poll_cq E (Suc (clock s1) + j) 0 [] [w] 1 = []"
      "ib_poll_cq E (Suc (clock s1) + k) 0 [] [w] 1 = [\<lparr>wc_cqe = r, wc_status = st\<rparr>]"
    and none: "\<forall>t. ib_poll_cq E t 0 [] [] 1 = []"
    using D(1) unfolding recv_delivers_def r [symmetric] by blast
  have "whileK (\<lambda>_ s. \<not> req_is_done r s) (wait_body E) () s1 = Hang"
    by (rule wait_loop_failed [OF p(1) k D(2) none])
  then show ?thesis using p(2) by simp
qed

section \<open>The module\<close>

text \<open>The module is loaded into a kernel in which it has nothing yet.\<close>

definition fresh_module :: "cmst \<Rightarrow> bool" where
  "fresh_module s \<longleftrightarrow>
     live_ids s = {} \<and> live_qps s = {} \<and> live_cqs s = {}
   \<and> reqs (drv s) = Map.empty \<and> dma_maps (drv s) = Map.empty
   \<and> sq (drv s) = (\<lambda>q. []) \<and> rq (drv s) = (\<lambda>q. [])
   \<and> n_rdevs s = 0 \<and> n_pds s = 0 \<and> n_ctrls s = 0 \<and> n_qarrays s = 0 \<and> n_caches s = 0
   \<and> connects s = []"

text \<open>Before the first queue is connected: controller, queues and addresses.\<close>

lemma create_ctrl_start:
  assumes G: "cm_ok E" and F: "fresh_module (s\<lparr>n_caches := 0\<rparr>)" "n_caches s = 1" "client_registered s"
    and n: "numcpus (drv s) = num_online_cpus E" "numqueues (drv s) = num_online_cpus E * 3"
  shows "\<exists>s0 s1. sswap_rdma_create_ctrl E s = sswap_rdma_init_queues E s1 \<and> setup_inv s0 0 [] [] s1
    \<and> s0\<lparr>gctrl := None\<rparr> = (drv s)\<lparr>gctrl := None\<rparr> \<and> numcpus s0 = num_online_cpus E
    \<and> numqueues (drv s1) = num_online_cpus E * 3"
proof -
  note G' = cm_okD [OF G]
  obtain a b where ab: "in4_pton E (serverip E) = Some a" "in4_pton E (clientip E) = Some b"
    using cm_ok_exD(2,3) [OF G] by blast
  let ?qs = "replicate (nat (num_online_cpus E * 3)) zero_queue"
  let ?c = "zero_ctrl\<lparr>queues := Some ?qs,
    addr_in := zero_addr\<lparr>s_addr := a, sin_family := AF_INET, sin_port := cpu_to_be16 (serverport E)\<rparr>,
    srcaddr_in := zero_addr\<lparr>s_addr := b, sin_family := AF_INET\<rparr>\<rparr>"
  let ?d = "(drv s)\<lparr>gctrl := Some ?c\<rparr>"
  let ?s1 = "s\<lparr>n_ctrls := n_ctrls s + 1, n_qarrays := n_qarrays s + 1, drv := ?d\<rparr>"
  have "sswap_rdma_create_ctrl E s = sswap_rdma_init_queues E ?s1"
    using G'(1,2,12,13) ab n
    by (simp add: sswap_rdma_create_ctrl_def sswap_rdma_parse_ipaddr_def Let_def)
  moreover have "0 \<le> num_online_cpus E * 3" "num_online_cpus E * 3 = int (nat (num_online_cpus E * 3))"
    using G'(10) by simp_all
  then have "setup_inv ?d 0 [] [] ?s1"
    using F n by (simp add: setup_inv_def fresh_module_def qlist_def dev_of_def zero_ctrl_def)
  ultimately show ?thesis using n by (intro exI [of _ ?d] exI [of _ ?s1]) simp
qed

lemma create_ctrl_ok:
  assumes G: "cm_good E" and F: "fresh_module (s\<lparr>n_caches := 0\<rparr>)" "n_caches s = 1" "client_registered s"
    and n: "numcpus (drv s) = num_online_cpus E" "numqueues (drv s) = num_online_cpus E * 3"
  shows "\<exists>cids hs s' s0. sswap_rdma_create_ctrl E s = Ret 0 s'
    \<and> setup_inv s0 (nat (num_online_cpus E * 3)) cids hs s'
    \<and> s0\<lparr>gctrl := None\<rparr> = (drv s)\<lparr>gctrl := None\<rparr> \<and> gctrl (drv s') \<noteq> None"
proof -
  let ?n = "nat (num_online_cpus E * 3)"
  note G' = cm_okD [OF cm_goodD(1) [OF G]]
  obtain s0 s1 where s1: "sswap_rdma_create_ctrl E s = sswap_rdma_init_queues E s1" "setup_inv s0 0 [] [] s1"
      "s0\<lparr>gctrl := None\<rparr> = (drv s)\<lparr>gctrl := None\<rparr>" "numcpus s0 = num_online_cpus E"
      "numqueues (drv s1) = num_online_cpus E * 3"
    using create_ctrl_start [OF cm_goodD(1) [OF G] F n] by blast
  obtain cids hs s' where s': "setup_inv s0 ?n cids hs s'" "\<forall>m. init_up E 0 (?n + m) s1 = init_up E ?n m s'"
    using init_up_ok [OF cm_goodD(1) [OF G] _ s1(2), of ?n] G'(10,11) s1(4) cm_goodD(2) [OF G] by auto
  have "sswap_rdma_init_queues E s1 = Ret 0 s'"
    using spec [OF s'(2), of 0] s1(5) by (simp add: sswap_rdma_init_queues_def)
  moreover have "gctrl (drv s') \<noteq> None"
    using s'(1) G'(10) s1(4) by (intro nq_pos_gctrl [of 0]) (auto simp: setup_inv_def)
  ultimately show ?thesis
    using s1(1,3) s'(1) by (intro exI [of _ cids] exI [of _ hs] exI [of _ s'] exI [of _ s0]) simp
qed

lemma rest_fields:
  assumes "d\<lparr>gctrl := None\<rparr> = e\<lparr>gctrl := None\<rparr>"
  shows "numcpus d = numcpus e" "numqueues d = numqueues e" "req_cache d = req_cache e"
    "sq d = sq e" "rq d = rq e" "reqs d = reqs e" "dma_maps d = dma_maps e" "frames d = frames e"
    "this_cpu d = this_cpu e" "farmem d = farmem e"
  using assms [THEN arg_cong, of numcpus] assms [THEN arg_cong, of numqueues]
    assms [THEN arg_cong, of req_cache] assms [THEN arg_cong, of sq] assms [THEN arg_cong, of rq]
    assms [THEN arg_cong, of reqs] assms [THEN arg_cong, of dma_maps] assms [THEN arg_cong, of frames]
    assms [THEN arg_cong, of this_cpu] assms [THEN arg_cong, of farmem]
  by simp_all

lemma set_mr_sel [simp]:
  "qlist (set_mr mr s) = qlist s" "qof q (set_mr mr s) = qof q s" "dev_of (set_mr mr s) = dev_of s"
  "numcpus (set_mr mr s) = numcpus s" "numqueues (set_mr mr s) = numqueues s"
  "sq (set_mr mr s) = sq s" "rq (set_mr mr s) = rq s" "reqs (set_mr mr s) = reqs s"
  "dma_maps (set_mr mr s) = dma_maps s" "frames (set_mr mr s) = frames s"
  "this_cpu (set_mr mr s) = this_cpu s" "farmem (set_mr mr s) = farmem s"
  "req_cache (set_mr mr s) = req_cache s"
  by (auto simp: set_mr_def qlist_def qof_def dev_of_def split: option.splits)

text \<open>A fully connected driver with nothing posted satisfies the invariant of the data path.\<close>

lemma setup_inv_rdma_inv:
  assumes I: "setup_inv s0 (nat (numcpus s0 * 3)) cids hs s"
    and n: "0 < numcpus s0" "numcpus s0 \<le> 8192" "numqueues s0 = numcpus s0 * 3"
    and e: "sq s0 = (\<lambda>q. [])" "rq s0 = (\<lambda>q. [])" "reqs s0 = Map.empty" "dma_maps s0 = Map.empty"
  shows "rdma_inv ((set_mr mr (drv s))\<lparr>clock := t\<rparr>)"
proof -
  have f: "numcpus (drv s) = numcpus s0" "numqueues (drv s) = numqueues s0" "sq (drv s) = sq s0"
    "rq (drv s) = rq s0" "reqs (drv s) = reqs s0" "dma_maps (drv s) = dma_maps s0"
    using I rest_fields [of "drv s" s0] by (simp_all add: setup_inv_def)
  have nq: "int (nq (drv s)) = numcpus s0 * 3" "nq (drv s) = nat (numcpus s0 * 3)"
    using I n by (auto simp: setup_inv_def)
  have "queue_ok {} (set_mr mr (drv s)) q" if "q < nq (drv s)" for q
  proof -
    have "qof q (drv s) = ready_queue (queue_kind (numcpus s0) q) (cids ! q) (hs ! q)"
      using I that nq(2) by (simp add: setup_inv_def)
    then show ?thesis using f e by (auto simp: queue_ok_def ready_queue_def QP_MAX_SEND_WR_def)
  qed
  moreover have "pool_ok (set_mr mr (drv s))" using f e by (simp add: pool_ok_def)
  moreover have "dev_of (drv s) \<noteq> None" using I n(1) by (simp add: setup_inv_def)
  ultimately have "rdma_core {} (set_mr mr (drv s))"
    unfolding rdma_core_def using f e n nq(1) by simp
  then show ?thesis using f e by (simp add: rdma_inv_def rdma_core_clock)
qed

lemma mr_of_set_mr: "gctrl s \<noteq> None \<Longrightarrow> mr_of (set_mr mr s) = mr"
  by (auto simp: mr_of_def set_mr_def)

lemma init_module_ok:
  assumes G: "cm_good E" and M: "mem_ok (base_env E)" and D: "recv_delivers (base_env E) 0"
    and F: "fresh_module s"
  shows "\<exists>cids hs s'. sswap_rdma_init_module E s = Ret 0 s' \<and> rdma_inv (drv s')
    \<and> (\<forall>q. sq (drv s') q = []) \<and> numcpus (drv s') = num_online_cpus E
    \<and> mr_of (drv s') = memregion_of_bytes (recv_message (base_env E))
    \<and> this_cpu (drv s') = this_cpu (drv s) \<and> frames (drv s') = frames (drv s)
    \<and> distinct cids \<and> distinct hs \<and> length cids = nat (num_online_cpus E * 3) \<and> length hs = length cids
    \<and> live_ids s' = set cids \<and> live_qps s' = set cids \<and> live_cqs s' = set hs
    \<and> nq (drv s') = length cids \<and> numqueues (drv s') = num_online_cpus E * 3
    \<and> req_cache (drv s')
    \<and> client_registered s' \<and> n_rdevs s' = 1 \<and> n_pds s' = 1 \<and> n_ctrls s' = 1 \<and> n_qarrays s' = 1
    \<and> n_caches s' = 1 \<and> connects s' = map conn_of cids
    \<and> (\<forall>q < length cids. qof q (drv s') = ready_queue (queue_kind (num_online_cpus E) q) (cids ! q) (hs ! q))"
proof -
  note G' = cm_okD [OF cm_goodD(1) [OF G]]
  let ?n = "num_online_cpus E"
  let ?d0 = "(drv s)\<lparr>numcpus := ?n, numqueues := ?n * 3, req_cache := True\<rparr>"
  let ?s0 = "s\<lparr>drv := ?d0, n_caches := n_caches s + 1, client_registered := True\<rparr>"
  obtain cids hs s1 s0 where s1: "sswap_rdma_create_ctrl E ?s0 = Ret 0 s1"
      "setup_inv s0 (nat (?n * 3)) cids hs s1"
      "s0\<lparr>gctrl := None\<rparr> = ?d0\<lparr>gctrl := None\<rparr>" "gctrl (drv s1) \<noteq> None"
    using create_ctrl_ok [OF G, of ?s0] F by (auto simp: fresh_module_def)
  have f0: "numcpus s0 = ?n" "numqueues s0 = ?n * 3" "sq s0 = (\<lambda>q. [])" "rq s0 = (\<lambda>q. [])"
      "reqs s0 = Map.empty" "dma_maps s0 = Map.empty" "this_cpu s0 = this_cpu (drv s)"
      "frames s0 = frames (drv s)" "req_cache s0"
    using rest_fields [OF s1(3)] F by (simp_all add: fresh_module_def)
  have f1: "numcpus (drv s1) = ?n" "numqueues (drv s1) = ?n * 3" "sq (drv s1) = (\<lambda>q. [])"
      "rq (drv s1) = (\<lambda>q. [])" "reqs (drv s1) = Map.empty" "dma_maps (drv s1) = Map.empty"
      "this_cpu (drv s1) = this_cpu (drv s)" "frames (drv s1) = frames (drv s)" "req_cache (drv s1)"
    using rest_fields [of "drv s1" s0] s1(2) f0 by (simp_all add: setup_inv_def)
  have q0: "0 < nat (?n * 3)" using G'(10) by simp
  have nq: "nq (drv s1) = nat (?n * 3)"
    using s1(2) f0(1) unfolding setup_inv_def by (metis nat_int)
  have r0: "qof 0 (drv s1) = ready_queue (queue_kind ?n 0) (cids ! 0) (hs ! 0)"
    using s1(2) q0 f0(1) by (simp add: setup_inv_def)
  obtain t where t: "sswap_rdma_recv_remotemr (base_env E) (drv s1) =
      Ret 0 ((set_mr (memregion_of_bytes (recv_message (base_env E))) (drv s1))\<lparr>clock := t\<rparr>)"
    using recv_remotemr_ok [OF M D, of "drv s1"] s1(2) f1 nq q0 r0
    by (auto simp: setup_inv_def ready_queue_def)
  let ?d = "(set_mr (memregion_of_bytes (recv_message (base_env E))) (drv s1))\<lparr>clock := t\<rparr>"
  have run: "sswap_rdma_init_module E s = Ret 0 (s1\<lparr>drv := ?d\<rparr>)"
    using s1(1) t G'(9) by (simp add: sswap_rdma_init_module_def)
  have "rdma_inv ?d"
    using setup_inv_rdma_inv [of s0 cids hs s1] s1(2) f0 G'(10,11) by simp
  moreover have "mr_of ?d = memregion_of_bytes (recv_message (base_env E))"
    using mr_of_set_mr [OF s1(4)] by simp
  ultimately show ?thesis
    using run s1(2) f0 f1 nq q0
    by (intro exI [of _ cids] exI [of _ hs] exI [of _ "s1\<lparr>drv := ?d\<rparr>"]) (simp add: setup_inv_def)
qed

end
