(* ===== verification/Rdma_Setup_Props.thy ===== *)
theory Rdma_Setup_Props
  imports Rdma_Setup Rdma_Props
begin

text \<open>
  The properties of loading and unloading the RDMA module, and of a load whose receive or
  whose array of queues fails, each with an instance on a loopback connection manager.
\<close>

section \<open>A loopback connection manager\<close>

definition next_free :: "nat set \<Rightarrow> nat" where
  "next_free l = (if l = {} then 0 else Suc (Max l))"

lemma next_free_fresh: "finite l \<Longrightarrow> next_free l \<notin> l"
proof
  assume "finite l" "next_free l \<in> l"
  then have "Suc (Max l) \<in> l" by (auto simp: next_free_def split: if_splits)
  then have "Suc (Max l) \<le> Max l" using \<open>finite l\<close> by simp
  then show False by simp
qed

definition loop_cm :: "rdma_env \<Rightarrow> rdma_cm_event list \<Rightarrow> cm_env" where
  "loop_cm B evs =
     \<lparr>base_env = B, kzalloc_ctrl = True, kzalloc_queues = True, kzalloc_dev = (\<lambda>q. True),
      cm_device = (\<lambda>q. 1), ib_alloc_pd = (\<lambda>q. Some 5), mem_mgt_extensions = True,
      ib_alloc_cq = (\<lambda>q l. Inr (next_free l)), rdma_create_qp = (\<lambda>q. 0),
      rdma_create_id = (\<lambda>q l. Some (next_free l)), rdma_resolve_addr = (\<lambda>q. 0),
      rdma_resolve_route = (\<lambda>q. 0), rdma_connect = (\<lambda>q p. 0), cm_events = (\<lambda>q. evs),
      num_online_cpus = 2, kmem_cache_create = True,
      in4_pton = (\<lambda>ip. if ip = ''10.0.0.1'' then Some [10, 0, 0, 1] else None),
      serverip = ''10.0.0.1'', clientip = ''10.0.0.1'', serverport = 50000\<rparr>"

lemma loop_cm_ok: "cm_ok (loop_cm B evs)"
  using next_free_fresh by (simp add: cm_ok_def loop_cm_def INET_ADDRSTRLEN_def)

lemma loop_cm_good: "cm_good (loop_cm B good_events)"
  using loop_cm_ok by (simp add: cm_good_def loop_cm_def)

definition recv_env :: "nat \<Rightarrow> rdma_env" where
  "recv_env st = loop_env\<lparr>ib_poll_cq := (\<lambda>t q ws rs n.
     if ws = [] then map (\<lambda>r. \<lparr>wc_cqe = rwr_cqe r, wc_status = st\<rparr>) (take n rs)
     else ib_poll_cq loop_env t q ws rs n)\<rparr>"

lemma recv_env_delivers: "recv_delivers (recv_env st) st"
  unfolding recv_delivers_def
proof (intro conjI allI impI)
  fix t w
  show "\<exists>k. (\<forall>j < k. ib_poll_cq (recv_env st) (t + j) 0 [] [w] 1 = [])
      \<and> ib_poll_cq (recv_env st) (t + k) 0 [] [w] 1 = [\<lparr>wc_cqe = rwr_cqe w, wc_status = st\<rparr>]"
    by (intro exI [of _ 0]) (simp add: recv_env_def)
next
  fix t :: nat and m :: "u64 \<Rightarrow> bool" and d
  assume "finite {a. m a} \<and> card {a. m a} \<le> 2 ^ 30"
  then show "\<not> ib_dma_mapping_error (recv_env st) (ib_dma_map_single (recv_env st) t m d)"
    "\<not> m (ib_dma_map_single (recv_env st) t m d)"
    using loop_addr [of m] by (simp_all add: recv_env_def loop_env_def loop_env_of_def)
qed (simp_all add: recv_env_def loop_env_def loop_env_of_def)

lemma recv_env_mem_ok: "mem_ok (recv_env st)"
  using loop_mem_ok by (simp add: mem_ok_def recv_env_def loop_env_def loop_env_of_def)

definition loop_boot :: cmst where
  "loop_boot = \<lparr>drv = loop_state\<lparr>gctrl := None\<rparr>, live_ids = {}, live_qps = {}, live_cqs = {},
     n_pds = 0, n_rdevs = 0, n_ctrls = 0, n_qarrays = 0, n_caches = 0, client_registered = False,
     connects = []\<rparr>"

lemma loop_boot_fresh: "fresh_module loop_boot"
  by (simp add: fresh_module_def loop_boot_def loop_state_def)

section \<open>Loading and unloading\<close>

text \<open>
  C17: when the connection succeeds, \<open>sswap_rdma_init_module\<close> returns 0 with three connected
  queues per processor, each with its own identifier, queue pair and completion queue, with
  the server's memory region as sent, and in a state that satisfies the invariant of the
  data path.
\<close>

theorem init_module_establishes_invariant:
  assumes "cm_good E" "mem_ok (base_env E)" "recv_delivers (base_env E) 0" "fresh_module s"
  shows "\<exists>s'. sswap_rdma_init_module E s = Ret 0 s' \<and> rdma_inv (drv s')
    \<and> (\<forall>q. sq (drv s') q = [])
    \<and> numcpus (drv s') = num_online_cpus E
    \<and> mr_of (drv s') = memregion_of_bytes (recv_message (base_env E))
    \<and> card (live_ids s') = nat (num_online_cpus E * 3) \<and> live_qps s' = live_ids s'
    \<and> card (live_cqs s') = nat (num_online_cpus E * 3)"
proof -
  obtain cids hs s' where "sswap_rdma_init_module E s = Ret 0 s'" "rdma_inv (drv s')"
      "\<forall>q. sq (drv s') q = []" "numcpus (drv s') = num_online_cpus E"
      "mr_of (drv s') = memregion_of_bytes (recv_message (base_env E))"
      "distinct cids" "distinct hs" "length cids = nat (num_online_cpus E * 3)" "length hs = length cids"
      "live_ids s' = set cids" "live_qps s' = set cids" "live_cqs s' = set hs"
    using init_module_ok [OF assms] by blast
  then show ?thesis by (auto simp: distinct_card)
qed

theorem init_module_establishes_invariant_witness:
  "\<exists>s'. sswap_rdma_init_module (loop_cm (recv_env 0) good_events) loop_boot = Ret 0 s'
     \<and> rdma_inv (drv s') \<and> mr_of (drv s') = loop_mr \<and> card (live_ids s') = 6"
proof -
  have "base_env (loop_cm (recv_env 0) good_events) = recv_env 0"
    "num_online_cpus (loop_cm (recv_env 0) good_events) = 2"
    by (simp_all add: loop_cm_def)
  moreover have "memregion_of_bytes (recv_message (recv_env 0)) = loop_mr"
    by (simp add: memregion_of_bytes_def le_word_def recv_env_def loop_env_def loop_env_of_def loop_mr_def)
  ultimately show ?thesis
    using init_module_establishes_invariant
      [OF loop_cm_good _ _ loop_boot_fresh, of "recv_env 0"] recv_env_mem_ok recv_env_delivers
    by auto
qed

text \<open>
  C18: unloading the module after a successful load disconnects every queue and gives back
  all identifiers, queue pairs, completion queues, the controller and the request cache; the
  device structure, its protection domain and the array of queues are never given back.
\<close>

theorem load_unload_releases:
  assumes "cm_good E" "mem_ok (base_env E)" "recv_delivers (base_env E) 0" "fresh_module s"
  shows "\<exists>s'. kthen (sswap_rdma_init_module E) sswap_rdma_cleanup_module s = Ret () s'
    \<and> live_ids s' = {} \<and> live_qps s' = {} \<and> live_cqs s' = {}
    \<and> gctrl (drv s') = None \<and> n_ctrls s' = 0 \<and> n_caches s' = 0 \<and> \<not> client_registered s'
    \<and> n_rdevs s' = 1 \<and> n_pds s' = 1 \<and> n_qarrays s' = 1"
proof -
  obtain cids hs s1 where s1: "sswap_rdma_init_module E s = Ret 0 s1"
      "distinct cids" "distinct hs" "length cids = nat (num_online_cpus E * 3)" "length hs = length cids"
      "live_ids s1 = set cids" "live_qps s1 = set cids" "live_cqs s1 = set hs"
      "nq (drv s1) = length cids" "numqueues (drv s1) = num_online_cpus E * 3" "req_cache (drv s1)"
      "n_rdevs s1 = 1" "n_pds s1 = 1" "n_ctrls s1 = 1" "n_qarrays s1 = 1" "n_caches s1 = 1"
      "\<forall>q < length cids. qof q (drv s1) = ready_queue (queue_kind (num_online_cpus E) q) (cids ! q) (hs ! q)"
    using init_module_ok [OF assms] by blast
  let ?s2 = "s1\<lparr>live_qps := {}, live_cqs := {}, live_ids := {}\<rparr>"
  have "free_up 0 (length cids) s1 = Ret () ?s2"
    using free_up_ok [of cids 0 s1 "queue_kind (num_online_cpus E)" hs] s1 by simp
  then have "sswap_rdma_stopandfree_queues s1 = Ret () ?s2"
    using s1(4,10) by (simp add: sswap_rdma_stopandfree_queues_def)
  then show ?thesis
    using s1 by (simp add: sswap_rdma_cleanup_module_def)
qed

theorem load_unload_releases_witness:
  "\<exists>s'. kthen (sswap_rdma_init_module (loop_cm (recv_env 0) good_events)) sswap_rdma_cleanup_module
         loop_boot = Ret () s' \<and> live_ids s' = {} \<and> live_cqs s' = {} \<and> n_pds s' = 1"
proof -
  have "base_env (loop_cm (recv_env 0) good_events) = recv_env 0" by (simp add: loop_cm_def)
  then show ?thesis
    using load_unload_releases [OF loop_cm_good _ _ loop_boot_fresh, of "recv_env 0"]
      recv_env_mem_ok recv_env_delivers by auto
qed

section \<open>Failures while loading\<close>

text \<open>
  C19: when the message with the server's memory region cannot be received, loading the
  module never ends: the completion handler returns without signalling the function that
  waits for it.
\<close>

theorem failed_receive_hangs:
  assumes "cm_good E" "mem_ok (base_env E)" "recv_delivers (base_env E) st" "st \<noteq> 0" "fresh_module s"
  shows "sswap_rdma_init_module E s = Hang"
proof -
  let ?n = "num_online_cpus E"
  let ?d0 = "(drv s)\<lparr>numcpus := ?n, numqueues := ?n * 3, req_cache := True\<rparr>"
  let ?s0 = "s\<lparr>drv := ?d0, n_caches := n_caches s + 1, client_registered := True\<rparr>"
  obtain cids hs s1 s0 where s1: "sswap_rdma_create_ctrl E ?s0 = Ret 0 s1"
      "setup_inv s0 (nat (?n * 3)) cids hs s1" "s0\<lparr>gctrl := None\<rparr> = ?d0\<lparr>gctrl := None\<rparr>"
    using create_ctrl_ok [OF assms(1), of ?s0] assms(5) by (auto simp: fresh_module_def)
  have f0: "numcpus s0 = ?n" "sq s0 = (\<lambda>q. [])" "rq s0 = (\<lambda>q. [])" "reqs s0 = Map.empty"
      "dma_maps s0 = Map.empty"
    using rest_fields [OF s1(3)] assms(5) by (simp_all add: fresh_module_def)
  have f1: "sq (drv s1) = (\<lambda>q. [])" "rq (drv s1) = (\<lambda>q. [])" "reqs (drv s1) = Map.empty"
      "dma_maps (drv s1) = Map.empty"
    using rest_fields [of "drv s1" s0] s1(2) f0 by (simp_all add: setup_inv_def)
  have q0: "0 < nat (?n * 3)" using cm_okD(10) [OF cm_goodD(1) [OF assms(1)]] by simp
  have nq: "nq (drv s1) = nat (?n * 3)"
    using s1(2) f0(1) unfolding setup_inv_def by (metis nat_int)
  have r0: "qof 0 (drv s1) = ready_queue (queue_kind ?n 0) (cids ! 0) (hs ! 0)"
    using s1(2) q0 f0(1) by (simp add: setup_inv_def)
  have "sswap_rdma_recv_remotemr (base_env E) (drv s1) = Hang"
    by (rule recv_remotemr_stuck [OF assms(2-4)])
      (use s1(2) f1 nq q0 r0 in \<open>auto simp: setup_inv_def ready_queue_def\<close>)
  then show ?thesis
    using s1(1) cm_okD(9) [OF cm_goodD(1) [OF assms(1)]] by (simp add: sswap_rdma_init_module_def)
qed

theorem failed_receive_hangs_witness:
  "sswap_rdma_init_module (loop_cm (recv_env 5) good_events) loop_boot = Hang"
proof -
  have "base_env (loop_cm (recv_env 5) good_events) = recv_env 5" by (simp add: loop_cm_def)
  then show ?thesis
    using failed_receive_hangs [OF loop_cm_good _ _ _ loop_boot_fresh, of "recv_env 5" 5]
      recv_env_mem_ok recv_env_delivers by simp
qed

text \<open>
  The array of queues is used without a test of its allocation: when that fails and the
  addresses are valid, loading the module dereferences a null pointer.
\<close>

theorem failed_queue_array_crashes:
  assumes "kzalloc_ctrl E" "\<not> kzalloc_queues E" "kmem_cache_create E" "0 < num_online_cpus E"
    and "length (serverip E) \<le> INET_ADDRSTRLEN" "length (clientip E) \<le> INET_ADDRSTRLEN"
    and "in4_pton E (serverip E) = Some a" "in4_pton E (clientip E) = Some b"
  shows "sswap_rdma_init_module E s = Crash NullDeref"
proof -
  obtain k where k: "nat (num_online_cpus E * 3) = Suc k"
    using assms(4) by (metis Suc_pred mult_pos_pos zero_less_nat_eq zero_less_numeral)
  have "sswap_rdma_create_ctrl E t = Crash NullDeref"
    if "numqueues (drv t) = num_online_cpus E * 3" for t
    using assms that k
    by (simp add: sswap_rdma_create_ctrl_def sswap_rdma_parse_ipaddr_def Let_def
        sswap_rdma_init_queues_def sswap_rdma_init_queue_def upd_q_def get_q_def zero_ctrl_def)
  then show ?thesis using assms(3) by (simp add: sswap_rdma_init_module_def)
qed

theorem failed_queue_array_crashes_witness:
  "sswap_rdma_init_module ((loop_cm loop_env good_events)\<lparr>kzalloc_queues := False\<rparr>) loop_boot
     = Crash NullDeref"
  by (rule failed_queue_array_crashes [where a = "[10, 0, 0, 1]" and b = "[10, 0, 0, 1]"])
    (simp_all add: loop_cm_def INET_ADDRSTRLEN_def)

end
