(* ===== verification/Rdma_Unwind.thy ===== *)
theory Rdma_Unwind
  imports Rdma_Setup_Props
begin

text \<open>
  Loading the RDMA module when the connection of a queue fails: what \<open>sswap_rdma_init_queue\<close>
  leaves behind, and how \<open>sswap_rdma_init_queues\<close> and \<open>sswap_rdma_init_module\<close> take back
  what the queues before it hold.
\<close>

section \<open>Broken connections\<close>

text \<open>The set-up of one queue leaves the other queues and the rest of the module as they are.\<close>

definition undisturbed :: "qid \<Rightarrow> cmst \<Rightarrow> cmst \<Rightarrow> bool" where
  "undisturbed q s t \<longleftrightarrow> nq (drv t) = nq (drv s) \<and> (\<forall>q'. q' \<noteq> q \<longrightarrow> qof q' (drv t) = qof q' (drv s))
     \<and> numqueues (drv t) = numqueues (drv s) \<and> n_ctrls t = n_ctrls s \<and> n_qarrays t = n_qarrays s
     \<and> n_caches t = n_caches s"

text \<open>The queue between the resolution of its address and the end of the wait.\<close>

definition half_open :: "qid \<Rightarrow> nat \<Rightarrow> nat \<Rightarrow> cmst \<Rightarrow> cmst \<Rightarrow> bool" where
  "half_open q cid h s t \<longleftrightarrow>
     q < nq (drv t) \<and> q_ctrl (qof q (drv t)) \<and> qp (qof q (drv t)) = Some cid
   \<and> cm_id (qof q (drv t)) = Some cid \<and> dev_of (drv t) \<noteq> None
   \<and> cm_done (qof q (drv t)) = 0 \<and> cm_error (qof q (drv t)) = - ETIMEDOUT
   \<and> cid \<notin> live_ids s \<and> h \<notin> live_cqs s
   \<and> live_ids t = insert cid (live_ids s) \<and> live_qps t = insert cid (live_qps s)
   \<and> live_cqs t = insert h (live_cqs s) \<and> undisturbed q s t"

lemma init_queue_half_open:
  assumes G: "cm_ok E" and q: "q < nq (drv s)" and n: "numcpus (drv s) \<le> 8192"
      "int q < numcpus (drv s) * 3"
    and fin: "finite (live_cqs s)" "finite (live_ids s)"
    and evs: "cm_events E q = RDMA_CM_EVENT_ADDR_RESOLVED # evs"
  shows "\<exists>cid h t. half_open q cid h s t
    \<and> sswap_rdma_init_queue E q s =
        kbind (kthen (cm_wait E q evs) (kbind (on_drv (get_q q)) (\<lambda>qu. kret (cm_error qu))))
          (\<lambda>ret. if ret \<noteq> 0 then kthen (rdma_destroy_id q) (kret ret) else kret 0) t"
proof -
  obtain cid where cid: "rdma_create_id E q (live_ids s) = Some cid" "cid \<notin> live_ids s"
    using cm_ok_exD(5) [OF G fin(2)] by blast
  let ?ty = "queue_kind (numcpus (drv s)) q"
  let ?f = "\<lambda>qu. qu\<lparr>q_ctrl := True, cm_done := 0, pending := 0, cq_lock := False, qtype := ?ty,
    cm_id := Some cid, cm_error := - ETIMEDOUT\<rparr>"
  let ?s1 = "s\<lparr>live_ids := insert cid (live_ids s), drv := setq q ?f (drv s)\<rparr>"
  obtain h d where a: "h \<notin> live_cqs s"
      "sswap_rdma_cm_handler E q RDMA_CM_EVENT_ADDR_RESOLVED ?s1 = Ret 0
        (?s1\<lparr>n_rdevs := n_rdevs s + new_dev (drv ?s1), n_pds := n_pds s + new_dev (drv ?s1),
           live_cqs := insert h (live_cqs s), live_qps := insert cid (live_qps s),
           drv := setq q (\<lambda>qu. qu\<lparr>cq := Some h, qp := Some cid\<rparr>) (set_rdev d (setq q ?f (drv s)))\<rparr>)"
      (is "_ = Ret 0 ?t")
    using addr_resolved_ok [OF G, of q ?s1 cid] q fin(1) by auto
  have "dev_of (drv ?t) \<noteq> None" using nq_pos_gctrl [OF q] by (simp add: dev_of_set_rdev)
  then have "half_open q cid h s ?t"
    using q cid(2) a(1) by (simp add: half_open_def undisturbed_def)
  moreover have "cm_wait E q (RDMA_CM_EVENT_ADDR_RESOLVED # evs) ?s1 = cm_wait E q evs ?t"
    using a(2) q by (simp add: cm_wait_step_go)
  then have "sswap_rdma_init_queue E q s =
        kbind (kthen (cm_wait E q evs) (kbind (on_drv (get_q q)) (\<lambda>qu. kret (cm_error qu))))
          (\<lambda>ret. if ret \<noteq> 0 then kthen (rdma_destroy_id q) (kret ret) else kret 0) ?t"
    using q n cid(1) cm_okD(6) [OF G, of q] evs
    by (simp add: sswap_rdma_init_queue_def upd_q_ok get_queue_kind Let_def init_completion_def
        sswap_rdma_wait_for_cm_def  kthen_def kbind_def del: cm_wait.simps)
  ultimately show ?thesis by blast
qed

text \<open>The rest of the wait: a reported error, a refused connection, or no answer at all.\<close>

lemma cm_wait_error:
  assumes H: "half_open q cid h s t"
    and ev: "ev \<in> {RDMA_CM_EVENT_ROUTE_ERROR, RDMA_CM_EVENT_CONNECT_ERROR, RDMA_CM_EVENT_UNREACHABLE}"
  shows "cm_wait E q [ev] t = Ret () (t\<lparr>drv := setq q (\<lambda>qu. qu\<lparr>cm_error := - ECONNRESET, cm_done := 0\<rparr>) (drv t)\<rparr>)"
proof -
  let ?g = "\<lambda>qu. qu\<lparr>cm_error := - ECONNRESET, cm_done := Suc (cm_done qu)\<rparr>"
  have hq: "q < nq (drv t)" "cm_done (qof q (drv t)) = 0" using H by (simp_all add: half_open_def)
  have hd: "sswap_rdma_cm_handler E q ev t = Ret 0 (t\<lparr>drv := setq q ?g (drv t)\<rparr>)"
    using ev hq(1) by (auto simp: sswap_rdma_cm_handler_def cm_complete_def upd_q_ok complete_def
        ECONNRESET_def)
  have "setq q (\<lambda>qu. qu\<lparr>cm_done := cm_done qu - 1\<rparr>) (setq q ?g (drv t)) =
      setq q (\<lambda>qu. qu\<lparr>cm_error := - ECONNRESET, cm_done := 0\<rparr>) (drv t)"
    by (simp add: hq(1)) (rule setq_cong, simp_all add: hq)
  then show ?thesis using hd hq by (simp add: cm_wait_step_go cm_wait_step_done)
qed

lemma cm_wait_rejected:
  assumes G: "cm_ok E" and H: "half_open q cid h s t"
  shows "cm_wait E q [RDMA_CM_EVENT_ROUTE_RESOLVED, RDMA_CM_EVENT_REJECTED] t =
    Ret () (t\<lparr>connects := connects t @ [conn_of cid]\<rparr>)"
proof -
  obtain d where "dev_of (drv t) = Some d" using H by (auto simp: half_open_def)
  then have "sswap_rdma_cm_handler E q RDMA_CM_EVENT_ROUTE_RESOLVED t =
      Ret 0 (t\<lparr>connects := connects t @ [conn_of cid]\<rparr>)"
    using route_resolved_ok [OF G, of q t cid] H by (simp add: half_open_def)
  moreover have "sswap_rdma_cm_handler E q RDMA_CM_EVENT_REJECTED u = Ret 0 u" for u
    by (simp add: sswap_rdma_cm_handler_def)
  ultimately show ?thesis using H by (simp add: half_open_def cm_wait_step_go)
qed

text \<open>
  A queue whose connection breaks after its address is resolved reports the error and
  gives back its identifier, but its queue pair and its completion queue stay allocated. A
  connection that the server rejects is only noticed when the wait times out.
\<close>

definition broken_after_resolve :: "rdma_cm_event list \<Rightarrow> int \<Rightarrow> bool" where
  "broken_after_resolve evs err \<longleftrightarrow>
     evs = [RDMA_CM_EVENT_ADDR_RESOLVED, RDMA_CM_EVENT_ROUTE_RESOLVED, RDMA_CM_EVENT_REJECTED] \<and> err = - ETIMEDOUT
   \<or> (\<exists>ev \<in> {RDMA_CM_EVENT_ROUTE_ERROR, RDMA_CM_EVENT_CONNECT_ERROR, RDMA_CM_EVENT_UNREACHABLE}.
        evs = [RDMA_CM_EVENT_ADDR_RESOLVED, ev]) \<and> err = - ECONNRESET"

lemma broken_connection_leaks:
  assumes "cm_ok E" "q < nq (drv s)" "numcpus (drv s) \<le> 8192" "int q < numcpus (drv s) * 3"
    and "finite (live_cqs s)" "finite (live_ids s)"
    and "broken_after_resolve (cm_events E q) err"
  shows "\<exists>cid h s'. sswap_rdma_init_queue E q s = Ret err s'
    \<and> cid \<notin> live_ids s \<and> h \<notin> live_cqs s \<and> live_ids s' = live_ids s
    \<and> live_qps s' = insert cid (live_qps s) \<and> live_cqs s' = insert h (live_cqs s) \<and> undisturbed q s s'"
proof -
  define evs where "evs = tl (cm_events E q)"
  have e: "cm_events E q = RDMA_CM_EVENT_ADDR_RESOLVED # evs" using assms(7) by (auto simp: evs_def broken_after_resolve_def)
  obtain cid h t where H: "half_open q cid h s t"
      and run: "sswap_rdma_init_queue E q s =
        kbind (kthen (cm_wait E q evs) (kbind (on_drv (get_q q)) (\<lambda>qu. kret (cm_error qu))))
          (\<lambda>ret. if ret \<noteq> 0 then kthen (rdma_destroy_id q) (kret ret) else kret 0) t"
    using init_queue_half_open [OF assms(1-6) e] by blast
  have "\<exists>f c. cm_wait E q evs t = Ret () (t\<lparr>connects := c, drv := setq q f (drv t)\<rparr>)
      \<and> cm_error (f (qof q (drv t))) = err \<and> cm_id (f (qof q (drv t))) = Some cid"
  proof (cases "err = - ETIMEDOUT")
    case True
    then have "cm_wait E q evs t = Ret () (t\<lparr>connects := connects t @ [conn_of cid]\<rparr>)"
      using cm_wait_rejected [OF assms(1) H] assms(7)
      by (auto simp: evs_def errno_defs broken_after_resolve_def)
    moreover have "setq q (\<lambda>qu. qu) (drv t) = drv t"
      by (cases "gctrl (drv t)"; cases "queues (the (gctrl (drv t)))")
        (auto simp: setq_def map_q_def intro!: kst.equality)
    ultimately show ?thesis
      using H True by (intro exI [of _ "\<lambda>qu. qu"] exI [of _ "connects t @ [conn_of cid]"])
        (simp add: half_open_def)
  next
    case False
    then obtain ev where "evs = [ev]" "ev \<in> {RDMA_CM_EVENT_ROUTE_ERROR, RDMA_CM_EVENT_CONNECT_ERROR,
        RDMA_CM_EVENT_UNREACHABLE}" "err = - ECONNRESET"
      using assms(7) by (auto simp: evs_def broken_after_resolve_def)
    then show ?thesis
      using cm_wait_error [OF H, of ev E] H
      by (intro exI [of _ "\<lambda>qu. qu\<lparr>cm_error := - ECONNRESET, cm_done := 0\<rparr>"]
          exI [of _ "connects t"]) (simp add: half_open_def)
  qed
  then obtain f c where f: "cm_wait E q evs t = Ret () (t\<lparr>connects := c, drv := setq q f (drv t)\<rparr>)"
      "cm_error (f (qof q (drv t))) = err" "cm_id (f (qof q (drv t))) = Some cid" by blast
  have "err \<noteq> 0" using assms(7) by (auto simp: errno_defs broken_after_resolve_def)
  then have "sswap_rdma_init_queue E q s = Ret err
      (t\<lparr>connects := c, drv := setq q f (drv t), live_ids := live_ids t - {cid}\<rparr>)"
    using run f H by (simp add: half_open_def get_q_ok rdma_destroy_id_def free_from_def)
  moreover have "live_ids t - {cid} = live_ids s" using H by (auto simp: half_open_def)
  ultimately show ?thesis
    using H by (intro exI [of _ cid] exI [of _ h]) (auto simp: half_open_def undisturbed_def)
qed

text \<open>When the address of the server cannot be resolved, the queue leaves nothing behind.\<close>

lemma addr_error_clean:
  assumes G: "cm_ok E" and q: "q < nq (drv s)" and n: "numcpus (drv s) \<le> 8192" "int q < numcpus (drv s) * 3"
    and fin: "finite (live_ids s)" and ev: "cm_events E q = [RDMA_CM_EVENT_ADDR_ERROR]"
  shows "\<exists>s'. sswap_rdma_init_queue E q s = Ret (- ECONNRESET) s' \<and> live_ids s' = live_ids s
    \<and> live_qps s' = live_qps s \<and> live_cqs s' = live_cqs s \<and> undisturbed q s s'"
proof -
  obtain cid where cid: "rdma_create_id E q (live_ids s) = Some cid" "cid \<notin> live_ids s"
    using cm_ok_exD(5) [OF G fin] by blast
  have "insert cid (live_ids s) - {cid} = live_ids s" using cid(2) by simp
  then show ?thesis
    using q n cid(1) cm_okD(6) [OF G, of q] ev
    by (auto simp: sswap_rdma_init_queue_def upd_q_ok get_queue_kind Let_def init_completion_def
        sswap_rdma_wait_for_cm_def cm_wait_step_def sswap_rdma_cm_handler_def cm_complete_def get_q_ok
        completion_done_def complete_def rdma_destroy_id_def free_from_def errno_defs undisturbed_def)
qed

section \<open>Loading the module when a queue fails\<close>

text \<open>
  The events of a queue that fails, with the result of its set-up and the number of queue
  pairs and completion queues it leaves behind.
\<close>

definition queue_fails :: "rdma_cm_event list \<Rightarrow> int \<Rightarrow> nat \<Rightarrow> bool" where
  "queue_fails evs err leak \<longleftrightarrow>
     evs = [RDMA_CM_EVENT_ADDR_ERROR] \<and> err = - ECONNRESET \<and> leak = 0
   \<or> broken_after_resolve evs err \<and> leak = 1"

lemma init_queue_fails:
  assumes I: "setup_inv s0 k cids hs s" and G: "cm_ok E" and n: "numcpus s0 \<le> 8192" "int k < numcpus s0 * 3"
    and ev: "queue_fails (cm_events E k) err leak"
  shows "\<exists>s' P H. sswap_rdma_init_queue E k s = Ret err s' \<and> err \<noteq> 0 \<and> undisturbed k s s'
    \<and> live_ids s' = set cids \<and> live_qps s' = set cids \<union> P \<and> live_cqs s' = set hs \<union> H
    \<and> P \<inter> set cids = {} \<and> H \<inter> set hs = {} \<and> finite P \<and> finite H \<and> card P = leak \<and> card H = leak"
proof -
  have nc: "numcpus (drv s) = numcpus s0" using I rest_fields(1) [of "drv s" s0] by (simp add: setup_inv_def)
  have k: "k < nq (drv s)" "numcpus (drv s) \<le> 8192" "int k < numcpus (drv s) * 3"
    using I n nc by (simp_all add: setup_inv_def)
  have l: "live_ids s = set cids" "live_qps s = set cids" "live_cqs s = set hs" using I by (simp_all add: setup_inv_def)
  have err: "err \<noteq> 0" using ev by (auto simp: queue_fails_def broken_after_resolve_def errno_defs)
  show ?thesis
  proof (cases "leak = 0")
    case True
    then have "cm_events E k = [RDMA_CM_EVENT_ADDR_ERROR]" "err = - ECONNRESET"
      using ev by (auto simp: queue_fails_def)
    then obtain s' where "sswap_rdma_init_queue E k s = Ret err s'" "live_ids s' = live_ids s"
        "live_qps s' = live_qps s" "live_cqs s' = live_cqs s" "undisturbed k s s'"
      using addr_error_clean [OF G k] l by auto
    then show ?thesis using l err True by (intro exI [of _ s'] exI [of _ "{}"]) simp
  next
    case False
    then have b: "broken_after_resolve (cm_events E k) err" "leak = 1" using ev by (auto simp: queue_fails_def)
    obtain cid h s' where "sswap_rdma_init_queue E k s = Ret err s'" "cid \<notin> live_ids s" "h \<notin> live_cqs s"
        "live_ids s' = live_ids s" "live_qps s' = insert cid (live_qps s)" "live_cqs s' = insert h (live_cqs s)"
        "undisturbed k s s'"
      using broken_connection_leaks [OF G k _ _ b(1)] l by auto
    then show ?thesis using l err b(2) by (intro exI [of _ s'] exI [of _ "{cid}"] exI [of _ "{h}"]) auto
  qed
qed


text \<open>The third of six queues is refused, and the third cannot resolve the server's address.\<close>

definition third_fails :: "rdma_cm_event list \<Rightarrow> cm_env" where
  "third_fails evs = (loop_cm loop_env good_events)\<lparr>cm_events := (\<lambda>q. if q = 2 then evs else good_events)\<rparr>"


end
