(* ===== verification/Clib.thy ===== *)
theory Clib
  imports Prelude
begin

text \<open>
  The conversions of the C and C++ libraries that the programs apply to their arguments.
\<close>

text \<open>
  \<open>strtol\<close> in base 10: white space, an optional sign, digits up to the first other character,
  saturated to 64 bits.
\<close>

definition is_space :: "char \<Rightarrow> bool" where
  "is_space c \<longleftrightarrow> c \<in> {CHR '' '', CHR 0x09, CHR 0x0A, CHR 0x0B, CHR 0x0C, CHR 0x0D}"

definition digit_of :: "char \<Rightarrow> int option" where
  "digit_of c = (let k = of_char c :: int in if 48 \<le> k \<and> k \<le> 57 then Some (k - 48) else None)"

fun digits :: "int \<Rightarrow> string \<Rightarrow> int" where
  "digits n [] = n"
| "digits n (c # cs) = (case digit_of c of None \<Rightarrow> n | Some d \<Rightarrow> digits (10 * n + d) cs)"

definition strtol :: "string \<Rightarrow> int" where
  "strtol str =
     (let t = dropWhile is_space str;
          n = (case t of
                 [] \<Rightarrow> 0
               | c # cs \<Rightarrow> if c = CHR ''-'' then - digits 0 cs
                           else if c = CHR ''+'' then digits 0 cs else digits 0 t)
      in max (- (2 ^ 63)) (min (2 ^ 63 - 1) n))"

text \<open>\<open>atoi\<close> truncates the result to \<open>int\<close>.\<close>

definition atoi :: "string \<Rightarrow> int" where
  "atoi str = wrap32 (strtol str)"

text \<open>
  \<open>std::stoi\<close> throws when there is nothing to convert or when the value is not an \<open>int\<close>.
\<close>

datatype stoi_result = InvalidArgument | OutOfRange | Value int

definition stoi :: "string \<Rightarrow> stoi_result" where
  "stoi str =
     (let t = dropWhile is_space str;
          u = (case t of [] \<Rightarrow> [] | c # cs \<Rightarrow> if c = CHR ''-'' \<or> c = CHR ''+'' then cs else t)
      in if u = [] \<or> digit_of (hd u) = None then InvalidArgument
         else if - (2 ^ 31) \<le> strtol str \<and> strtol str < 2 ^ 31 then Value (strtol str) else OutOfRange)"

end
