(* ===== verification/Rmserver.thy ===== *)
theory Rmserver
  imports Cm_Event Clib
begin

text \<open>
  The far-memory server, \<open>src/code/farmemserver/rmserver.c\<close>: a user-space process that
  accepts the client's queues through the connection manager, registers one buffer with the
  network card and sends its address and key to the client on the first queue. After that
  the card serves the client and the process only waits for connection events. A failed
  \<open>TEST_Z\<close> or \<open>TEST_NZ\<close> is the fault \<open>Die\<close>. Output is not modelled.
\<close>

section \<open>State and environment\<close>

type_synonym cmid = nat

record device =
  pd :: nat
  verbs :: nat

datatype queue_state = INIT | CONNECTED

text \<open>
  A queue pair is named by the identifier it belongs to. \<open>q_has_ctrl\<close> says that the pointer
  \<open>ctrl\<close> is set; the only controller is \<open>gctrl\<close>. The completion queue \<open>q_cq\<close> is never set.
\<close>

record srv_queue =
  q_qp :: "cmid option"
  q_cq :: "nat option"
  q_cm_id :: "cmid option"
  q_has_ctrl :: bool
  q_state :: queue_state

record memregion =
  srv_baseaddr :: u64
  srv_key :: u32

text \<open>\<open>c_mr\<close> is the registered region: the address and remote key of \<open>struct ibv_mr\<close>.\<close>

record srv_ctrl =
  c_queues :: "srv_queue list"
  c_mr :: "memregion option"
  c_buffer :: "u64 option"
  c_dev :: "device option"

record cm_event =
  ev_kind :: rdma_cm_event
  ev_id :: cmid
  ev_param :: conn_param

text \<open>
  The globals of the program, the identifiers and queue pairs that exist with the field
  \<open>context\<close> of each identifier, the allocations that have not been given back, and what has
  been sent and accepted so far.
\<close>

record srv =
  BUFFER_SIZE :: u64
  NUM_PROCS :: u32
  NUM_QUEUES_PER_PROC :: u32
  NUM_QUEUES :: u32
  srv_gctrl :: "srv_ctrl option"
  queue_ctr :: u32
  id_context :: "cmid \<Rightarrow> nat option"
  srv_ids :: "cmid set"
  srv_qps :: "cmid set"
  srv_mrs :: nat
  srv_bufs :: nat
  srv_pds :: nat
  srv_devs :: nat
  srv_sent :: "(cmid \<times> u8 list) list"
  srv_accepted :: "(cmid \<times> conn_param) list"

text \<open>
  The results of the C library's allocator, of the verbs and of the connection manager: a
  null pointer is \<open>None\<close> or \<open>False\<close>, an integer is the return code. \<open>listener_id\<close> is the
  identifier that \<open>rdma_create_id\<close> stores.
\<close>

record srv_env =
  malloc_ctrl :: bool
  malloc_queues :: "u32 \<Rightarrow> bool"
  malloc_dev :: bool
  id_verbs :: "cmid \<Rightarrow> nat option"
  ibv_alloc_pd :: "nat option"
  malloc_buffer :: "u64 \<Rightarrow> u64 option"
  ibv_reg_mr :: "u64 \<Rightarrow> u64 \<Rightarrow> u32 option"
  ibv_dereg_mr :: int
  ibv_dealloc_pd :: int
  srv_create_qp :: "cmid \<Rightarrow> int"
  ibv_query_device :: int
  srv_accept :: "cmid \<Rightarrow> conn_param \<Rightarrow> int"
  srv_post_send :: "cmid \<Rightarrow> u8 list \<Rightarrow> int"
  create_event_channel :: bool
  create_listener :: int
  listener_id :: cmid
  bind_addr :: "u16 \<Rightarrow> int"
  listen :: "u32 \<Rightarrow> int"

section \<open>Checked results\<close>

definition die :: "('s, 'a) kmon" where
  "die = kcrash Die"

definition test_z :: "bool \<Rightarrow> ('s, unit) kmon" where
  "test_z x = (if \<not> x then die else kret ())"

definition test_nz :: "int \<Rightarrow> ('s, unit) kmon" where
  "test_nz x = (if x \<noteq> 0 then die else kret ())"

text \<open>A pointer that the code tests, and one that it uses without a test.\<close>

definition test_ptr :: "'a option \<Rightarrow> ('s, 'a) kmon" where
  "test_ptr x = (case x of None \<Rightarrow> die | Some v \<Rightarrow> kret v)"

definition use_ptr :: "'a option \<Rightarrow> ('s, 'a) kmon" where
  "use_ptr x = (case x of None \<Rightarrow> kcrash NullDeref | Some v \<Rightarrow> kret v)"

text \<open>\<open>struct memregion\<close> in memory: 8 bytes of address, 4 of key and 4 of zeroed padding.\<close>

definition le_bytes :: "nat \<Rightarrow> 'a::len word \<Rightarrow> u8 list" where
  "le_bytes n w = map (\<lambda>i. ucast (drop_bit (8 * i) w)) [0..<n]"

definition memregion_bytes :: "memregion \<Rightarrow> u8 list" where
  "memregion_bytes mr = le_bytes 8 (srv_baseaddr mr) @ le_bytes 4 (srv_key mr) @ [0, 0, 0, 0]"

section \<open>Access to the controller\<close>

definition get_ctrl :: "(srv, srv_ctrl) kmon" where
  "get_ctrl = kbind (kgets srv_gctrl) use_ptr"

definition put_ctrl :: "(srv_ctrl \<Rightarrow> srv_ctrl) \<Rightarrow> (srv, unit) kmon" where
  "put_ctrl f = kmodify (\<lambda>s. s\<lparr>srv_gctrl := map_option f (srv_gctrl s)\<rparr>)"

definition get_queue :: "nat \<Rightarrow> (srv, srv_queue) kmon" where
  "get_queue i =
     kbind get_ctrl (\<lambda>c. if i < length (c_queues c) then kret (c_queues c ! i) else kcrash OutOfBounds)"

definition put_queue :: "nat \<Rightarrow> (srv_queue \<Rightarrow> srv_queue) \<Rightarrow> (srv, unit) kmon" where
  "put_queue i f =
     kbind get_ctrl (\<lambda>c. if i < length (c_queues c)
       then put_ctrl (\<lambda>c. c\<lparr>c_queues := (c_queues c)[i := f (c_queues c ! i)]\<rparr>) else kcrash OutOfBounds)"

text \<open>\<open>q->ctrl\<close>, dereferenced.\<close>

definition queue_ctrl :: "nat \<Rightarrow> (srv, srv_ctrl) kmon" where
  "queue_ctrl i = kbind (get_queue i) (\<lambda>q. if q_has_ctrl q then get_ctrl else kcrash NullDeref)"

section \<open>Allocation\<close>

definition zero_srv_queue :: srv_queue where
  "zero_srv_queue = \<lparr>q_qp = None, q_cq = None, q_cm_id = None, q_has_ctrl = False, q_state = INIT\<rparr>"

definition zero_srv_ctrl :: srv_ctrl where
  "zero_srv_ctrl = \<lparr>c_queues = [], c_mr = None, c_buffer = None, c_dev = None\<rparr>"

definition alloc_control :: "srv_env \<Rightarrow> (srv, int) kmon" where
  "alloc_control E =
     kthen (kmodify (\<lambda>s. s\<lparr>srv_gctrl := (if malloc_ctrl E then Some zero_srv_ctrl else None)\<rparr>))
    (kthen (test_z (malloc_ctrl E))
    (kbind (kgets NUM_QUEUES) (\<lambda>n.
     kthen (test_z (malloc_queues E n))
    (kthen (put_ctrl (\<lambda>c. c\<lparr>c_queues := replicate (unat n) (zero_srv_queue\<lparr>q_has_ctrl := True, q_state := INIT\<rparr>)\<rparr>))
           (kret 0)))))"

definition get_device :: "srv_env \<Rightarrow> nat \<Rightarrow> (srv, device option) kmon" where
  "get_device E i =
     kbind (queue_ctrl i) (\<lambda>c.
     kthen
       (if c_dev c = None then
          kthen (test_z (malloc_dev E))
         (kthen (kmodify (\<lambda>s. s\<lparr>srv_devs := srv_devs s + 1\<rparr>))
         (kbind (get_queue i) (\<lambda>q.
          kbind (use_ptr (q_cm_id q)) (\<lambda>cid.
          kbind (test_ptr (id_verbs E cid)) (\<lambda>v.
          kbind (test_ptr (ibv_alloc_pd E)) (\<lambda>p.
          kthen (kmodify (\<lambda>s. s\<lparr>srv_pds := srv_pds s + 1\<rparr>))
         (kbind (kgets BUFFER_SIZE) (\<lambda>size.
          kthen (put_ctrl (\<lambda>c. c\<lparr>c_buffer := malloc_buffer E size\<rparr>))
         (kbind (test_ptr (malloc_buffer E size)) (\<lambda>buf.
          kthen (kmodify (\<lambda>s. s\<lparr>srv_bufs := srv_bufs s + 1\<rparr>))
         (kbind (test_ptr (ibv_reg_mr E buf size)) (\<lambda>rkey.
          kthen (kmodify (\<lambda>s. s\<lparr>srv_mrs := srv_mrs s + 1\<rparr>))
         (kthen (put_ctrl (\<lambda>c. c\<lparr>c_mr := Some \<lparr>srv_baseaddr = buf, srv_key = rkey\<rparr>\<rparr>))
                (put_ctrl (\<lambda>c. c\<lparr>c_dev := Some \<lparr>pd = p, verbs = v\<rparr>\<rparr>)))))))))))))))
        else kret ())
      (kbind (queue_ctrl i) (\<lambda>c. kret (c_dev c))))"

text \<open>The return codes of \<open>ibv_dereg_mr\<close> and \<open>ibv_dealloc_pd\<close> are not tested.\<close>

definition destroy_device :: "srv_env \<Rightarrow> (srv, unit) kmon" where
  "destroy_device E =
     kbind get_ctrl (\<lambda>c.
     kthen (test_z (c_dev c \<noteq> None))
    (kthen (kmodify (\<lambda>s. if ibv_dereg_mr E = 0 then s\<lparr>srv_mrs := srv_mrs s - 1\<rparr> else s))
    (kthen (kmodify (\<lambda>s. if c_buffer c \<noteq> None then s\<lparr>srv_bufs := srv_bufs s - 1\<rparr> else s))
    (kthen (kmodify (\<lambda>s. if ibv_dealloc_pd E = 0 then s\<lparr>srv_pds := srv_pds s - 1\<rparr> else s))
    (kthen (kmodify (\<lambda>s. s\<lparr>srv_devs := srv_devs s - 1\<rparr>))
           (put_ctrl (\<lambda>c. c\<lparr>c_dev := None\<rparr>)))))))"

definition create_qp :: "srv_env \<Rightarrow> nat \<Rightarrow> (srv, unit) kmon" where
  "create_qp E i =
     kbind (get_queue i) (\<lambda>q.
     kbind (use_ptr (q_cm_id q)) (\<lambda>cid.
     kbind (queue_ctrl i) (\<lambda>c.
     kbind (use_ptr (c_dev c)) (\<lambda>d.
     kthen (test_nz (srv_create_qp E cid))
    (kthen (kmodify (\<lambda>s. s\<lparr>srv_qps := insert cid (srv_qps s)\<rparr>))
           (put_queue i (\<lambda>q. q\<lparr>q_qp := Some cid\<rparr>)))))))"

section \<open>Connection events\<close>

text \<open>
  The address of a queue is its index. \<open>queue_ctr\<close> is incremented before the queue is
  looked at, and is not compared with \<open>NUM_QUEUES\<close>.
\<close>

definition on_connect_request :: "srv_env \<Rightarrow> cmid \<Rightarrow> conn_param \<Rightarrow> (srv, int) kmon" where
  "on_connect_request E cid param =
     kbind (kgets queue_ctr) (\<lambda>k.
     kthen (kmodify (\<lambda>s. s\<lparr>queue_ctr := k + 1\<rparr>))
    (let i = unat k in
     kbind (get_queue i) (\<lambda>q.
     kthen (test_z (q_state q = INIT))
    (kthen (kmodify (\<lambda>s. s\<lparr>id_context := (id_context s)(cid := Some i)\<rparr>))
    (kthen (put_queue i (\<lambda>q. q\<lparr>q_cm_id := Some cid\<rparr>))
    (kbind (get_device E i) (\<lambda>d.
     kthen (create_qp E i)
    (kthen (use_ptr d)
    (kthen (test_nz (ibv_query_device E))
    (let cm_params = \<lparr>initiator_depth = initiator_depth param,
                      responder_resources = responder_resources param,
                      rnr_retry_count = rnr_retry_count param,
                      flow_control = flow_control param\<rparr> in
     kthen (test_nz (srv_accept E cid cm_params))
    (kthen (kmodify (\<lambda>s. s\<lparr>srv_accepted := srv_accepted s @ [(cid, cm_params)]\<rparr>))
           (kret 0))))))))))))"

definition on_connection :: "srv_env \<Rightarrow> nat option \<Rightarrow> (srv, int) kmon" where
  "on_connection E qptr =
     kbind (use_ptr qptr) (\<lambda>i.
     kbind (get_queue i) (\<lambda>q.
     kthen (test_z (q_state q = INIT))
    (kthen
       (if i = 0 then
          kbind (queue_ctrl i) (\<lambda>c.
          kbind (use_ptr (c_mr c)) (\<lambda>mr.
          kbind (use_ptr (q_qp q)) (\<lambda>cid.
          kthen (test_nz (srv_post_send E cid (memregion_bytes mr)))
                (kmodify (\<lambda>s. s\<lparr>srv_sent := srv_sent s @ [(cid, memregion_bytes mr)]\<rparr>)))))
        else kret ())
    (kthen (put_queue i (\<lambda>q. q\<lparr>q_state := CONNECTED\<rparr>))
           (kret 0)))))"

definition on_disconnect :: "nat option \<Rightarrow> (srv, int) kmon" where
  "on_disconnect qptr =
     kbind (use_ptr qptr) (\<lambda>i.
     kbind (get_queue i) (\<lambda>q.
       if q_state q = CONNECTED then
         kthen (put_queue i (\<lambda>q. q\<lparr>q_state := INIT\<rparr>))
        (kbind (use_ptr (q_cm_id q)) (\<lambda>cid.
         kthen (kmodify (\<lambda>s. s\<lparr>srv_qps := srv_qps s - {cid}\<rparr>))
        (kthen (kmodify (\<lambda>s. s\<lparr>srv_ids := srv_ids s - {cid}\<rparr>))
               (kret 0))))
       else kret 0))"

text \<open>\<open>event->id->context\<close> is read before the kind of the event is looked at.\<close>

definition on_event :: "srv_env \<Rightarrow> cm_event \<Rightarrow> (srv, int) kmon" where
  "on_event E ev =
     kbind (kgets (\<lambda>s. ev_id ev \<in> srv_ids s)) (\<lambda>live.
       if \<not> live then kcrash UseAfterFree
       else
         kbind (kgets (\<lambda>s. id_context s (ev_id ev))) (\<lambda>q.
           case ev_kind ev of
             RDMA_CM_EVENT_CONNECT_REQUEST \<Rightarrow> on_connect_request E (ev_id ev) (ev_param ev)
           | RDMA_CM_EVENT_ESTABLISHED \<Rightarrow> on_connection E q
           | RDMA_CM_EVENT_DISCONNECTED \<Rightarrow> kthen (on_disconnect q) (kret 1)
           | _ \<Rightarrow> kret 1))"

section \<open>The program\<close>

text \<open>
  The connection manager creates the identifier of a connection request when it reports the
  request; the new identifier has the context of the listener, a null pointer.
\<close>

definition get_cm_event :: "cm_event \<Rightarrow> (srv, unit) kmon" where
  "get_cm_event ev =
     kmodify (\<lambda>s. if ev_kind ev = RDMA_CM_EVENT_CONNECT_REQUEST
                   then s\<lparr>srv_ids := insert (ev_id ev) (srv_ids s),
                          id_context := (id_context s)(ev_id ev := None)\<rparr>
                   else s)"

text \<open>
  The two event loops over the events still to come; \<open>rdma_get_cm_event\<close> fails when there
  are no more. The first one serves the queue \<open>i\<close> and returns the events it left.
\<close>

fun serve_queue :: "srv_env \<Rightarrow> nat \<Rightarrow> cm_event list \<Rightarrow> (srv, cm_event list) kmon" where
  "serve_queue E i [] = kret []"
| "serve_queue E i (ev # evs) =
     kthen (get_cm_event ev)
    (kbind (on_event E ev) (\<lambda>r.
       if r \<noteq> 0 then kret evs
       else kbind (get_queue i) (\<lambda>q. if q_state q = CONNECTED then kret evs else serve_queue E i evs)))"

fun serve_queues :: "srv_env \<Rightarrow> nat \<Rightarrow> nat \<Rightarrow> cm_event list \<Rightarrow> (srv, cm_event list) kmon" where
  "serve_queues E i 0 evs = kret evs"
| "serve_queues E i (Suc n) evs = kbind (serve_queue E i evs) (\<lambda>evs'. serve_queues E (Suc i) n evs')"

fun serve_rest :: "srv_env \<Rightarrow> cm_event list \<Rightarrow> (srv, unit) kmon" where
  "serve_rest E [] = kret ()"
| "serve_rest E (ev # evs) =
     kthen (get_cm_event ev)
    (kbind (on_event E ev) (\<lambda>r. if r \<noteq> 0 then kret () else serve_rest E evs))"

definition parse_args :: "string list \<Rightarrow> (srv, u16) kmon" where
  "parse_args argv =
     (if length argv \<noteq> 4 then die
      else
        (let buffer_multiplier = atoi (argv ! 2) in
         if buffer_multiplier \<le> 0 then die
         else
           kthen (kmodify (\<lambda>s. s\<lparr>NUM_PROCS := word_of_int (atoi (argv ! 3))\<rparr>))
          (kthen (kmodify (\<lambda>s. s\<lparr>NUM_QUEUES_PER_PROC := 3\<rparr>))
          (kthen (kmodify (\<lambda>s. s\<lparr>NUM_QUEUES := NUM_PROCS s * NUM_QUEUES_PER_PROC s\<rparr>))
          (kthen (kmodify (\<lambda>s. s\<lparr>BUFFER_SIZE := word_of_int (1024 * 1024 * 1024 * buffer_multiplier)\<rparr>))
                 (kret (cpu_to_be16 (atoi (argv ! 1)))))))))"

definition main_connect :: "srv_env \<Rightarrow> u16 \<Rightarrow> (srv, unit) kmon" where
  "main_connect E port =
     kbind (alloc_control E) (\<lambda>r.
     kthen (test_nz r)
    (kthen (test_z (create_event_channel E))
    (kthen (test_nz (create_listener E))
    (kthen (kmodify (\<lambda>s. s\<lparr>srv_ids := insert (listener_id E) (srv_ids s),
                            id_context := (id_context s)(listener_id E := None)\<rparr>))
    (kthen (test_nz (bind_addr E port))
    (kbind (kgets NUM_QUEUES) (\<lambda>n. test_nz (listen E (n + 1)))))))))"

definition main :: "srv_env \<Rightarrow> string list \<Rightarrow> cm_event list \<Rightarrow> (srv, int) kmon" where
  "main E argv evs =
     kbind (parse_args argv) (\<lambda>port.
     kthen (main_connect E port)
    (kbind (kgets NUM_QUEUES) (\<lambda>n.
     kbind (serve_queues E 0 (unat n) evs) (\<lambda>evs'.
     kthen (serve_rest E evs')
    (kthen (kmodify (\<lambda>s. s\<lparr>srv_ids := srv_ids s - {listener_id E}\<rparr>))
    (kthen (destroy_device E) (kret 0)))))))"

text \<open>The values the globals start with.\<close>

definition srv_start :: srv where
  "srv_start =
     \<lparr>BUFFER_SIZE = 1024 * 1024 * 1024 * 32, NUM_PROCS = 8, NUM_QUEUES_PER_PROC = 3, NUM_QUEUES = 8 * 3,
      srv_gctrl = None, queue_ctr = 0, id_context = (\<lambda>_. None), srv_ids = {}, srv_qps = {},
      srv_mrs = 0, srv_bufs = 0, srv_pds = 0, srv_devs = 0, srv_sent = [], srv_accepted = []\<rparr>"

end
