(* ===== verification/Rmserver_Ref.thy ===== *)
theory Rmserver_Ref
  imports Rmserver
begin

text \<open>
  The far-memory server's contract. Its abstract state is the list of identifiers in the
  order of their requests, with the set of those that are established; the handlers refine
  the transitions of this state, for every order in which the events arrive.
\<close>

section \<open>The abstract server\<close>

type_synonym asrv = "cmid list \<times> cmid set"

text \<open>
  What the connection manager reports while the client connects: a request comes with a new
  identifier, and an identifier is established once, after its request. A server for \<open>n\<close>
  queues takes at most \<open>n\<close> requests.
\<close>

fun ev_ok :: "cmid \<Rightarrow> nat \<Rightarrow> asrv \<Rightarrow> cm_event \<Rightarrow> bool" where
  "ev_ok l n (ids, est) ev =
     (if ev_kind ev = RDMA_CM_EVENT_CONNECT_REQUEST
      then ev_id ev \<notin> set ids \<and> ev_id ev \<noteq> l \<and> length ids < n
      else ev_kind ev = RDMA_CM_EVENT_ESTABLISHED \<and> ev_id ev \<in> set ids \<and> ev_id ev \<notin> est)"

fun ev_step :: "cm_event \<Rightarrow> asrv \<Rightarrow> asrv" where
  "ev_step ev (ids, est) =
     (if ev_kind ev = RDMA_CM_EVENT_CONNECT_REQUEST then (ids @ [ev_id ev], est)
      else (ids, insert (ev_id ev) est))"

fun evs_ok :: "cmid \<Rightarrow> nat \<Rightarrow> asrv \<Rightarrow> cm_event list \<Rightarrow> bool" where
  "evs_ok l n a [] = True"
| "evs_ok l n a (ev # evs) = (ev_ok l n a ev \<and> evs_ok l n (ev_step ev a) evs)"

section \<open>Refinement\<close>

text \<open>Every call the server makes succeeds.\<close>

definition srv_good :: "srv_env \<Rightarrow> bool" where
  "srv_good E \<longleftrightarrow> malloc_ctrl E \<and> (\<forall>n. malloc_queues E n) \<and> malloc_dev E
   \<and> (\<forall>i. id_verbs E i \<noteq> None) \<and> ibv_alloc_pd E \<noteq> None
   \<and> (\<forall>n. malloc_buffer E n \<noteq> None) \<and> (\<forall>a n. ibv_reg_mr E a n \<noteq> None)
   \<and> ibv_dereg_mr E = 0 \<and> ibv_dealloc_pd E = 0 \<and> (\<forall>i. srv_create_qp E i = 0)
   \<and> ibv_query_device E = 0 \<and> (\<forall>i p. srv_accept E i p = 0) \<and> (\<forall>i m. srv_post_send E i m = 0)
   \<and> create_event_channel E \<and> create_listener E = 0 \<and> (\<forall>p. bind_addr E p = 0)
   \<and> (\<forall>n. listen E n = 0)"

text \<open>The region the server registers for a buffer of \<open>sz\<close> bytes.\<close>

definition srv_region :: "srv_env \<Rightarrow> u64 \<Rightarrow> memregion" where
  "srv_region E sz =
     (let a = the (malloc_buffer E sz) in \<lparr>srv_baseaddr = a, srv_key = the (ibv_reg_mr E a sz)\<rparr>)"

definition conn_queue :: "cmid set \<Rightarrow> cmid \<Rightarrow> srv_queue" where
  "conn_queue est cid = \<lparr>q_qp = Some cid, q_cq = None, q_cm_id = Some cid, q_has_ctrl = True,
     q_state = (if cid \<in> est then CONNECTED else INIT)\<rparr>"

definition free_queue :: srv_queue where
  "free_queue = zero_srv_queue\<lparr>q_has_ctrl := True\<rparr>"

definition abs_queues :: "nat \<Rightarrow> asrv \<Rightarrow> srv_queue list" where
  "abs_queues n a = map (conn_queue (snd a)) (fst a) @ replicate (n - length (fst a)) free_queue"

definition ctrl_rel :: "srv_env \<Rightarrow> nat \<Rightarrow> u64 \<Rightarrow> asrv \<Rightarrow> srv_ctrl \<Rightarrow> bool" where
  "ctrl_rel E n sz a c \<longleftrightarrow> c_queues c = abs_queues n a \<and> (c_dev c = None \<longleftrightarrow> fst a = [])
     \<and> (fst a \<noteq> [] \<longrightarrow> c_mr c = Some (srv_region E sz) \<and> c_buffer c \<noteq> None)"

definition srv_rel :: "srv_env \<Rightarrow> nat \<Rightarrow> asrv \<Rightarrow> srv \<Rightarrow> bool" where
  "srv_rel E n a s \<longleftrightarrow>
     n < 2 ^ 32 \<and> distinct (fst a) \<and> length (fst a) \<le> n \<and> snd a \<subseteq> set (fst a)
   \<and> listener_id E \<notin> set (fst a)
   \<and> (\<exists>c. srv_gctrl s = Some c \<and> ctrl_rel E n (BUFFER_SIZE s) a c)
   \<and> queue_ctr s = of_nat (length (fst a))
   \<and> (\<forall>j < length (fst a). id_context s (fst a ! j) = Some j)
   \<and> srv_ids s = insert (listener_id E) (set (fst a)) \<and> srv_qps s = set (fst a)
   \<and> srv_sent s = (if fst a \<noteq> [] \<and> hd (fst a) \<in> snd a
                   then [(hd (fst a), memregion_bytes (srv_region E (BUFFER_SIZE s)))] else [])
   \<and> map fst (srv_accepted s) = fst a
   \<and> srv_devs s = (if fst a = [] then 0 else 1) \<and> srv_pds s = srv_devs s
   \<and> srv_bufs s = srv_devs s \<and> srv_mrs s = srv_devs s"

lemma srv_rel_ctrl:
  assumes "srv_rel E n (ids, est) s"
  shows "\<exists>c. srv_gctrl s = Some c \<and> c_queues c = abs_queues n (ids, est) \<and> (c_dev c = None \<longleftrightarrow> ids = [])
    \<and> (ids \<noteq> [] \<longrightarrow> c_mr c = Some (srv_region E (BUFFER_SIZE s)) \<and> c_buffer c \<noteq> None)"
proof -
  obtain c where "srv_gctrl s = Some c" "ctrl_rel E n (BUFFER_SIZE s) (ids, est) c"
    using assms by (auto simp: srv_rel_def)
  then show ?thesis by (simp add: ctrl_rel_def)
qed

lemma srv_good_ptr:
  assumes "srv_good E"
  shows "test_ptr (id_verbs E i) = kret (the (id_verbs E i))"
    "test_ptr (ibv_alloc_pd E) = kret (the (ibv_alloc_pd E))"
    "test_ptr (malloc_buffer E n) = kret (the (malloc_buffer E n))"
    "test_ptr (ibv_reg_mr E a n) = kret (the (ibv_reg_mr E a n))"
  using assms unfolding srv_good_def test_ptr_def
  by (metis option.case_eq_if)+

lemma srv_goodD:
  assumes "srv_good E"
  shows "malloc_ctrl E" "malloc_queues E n" "malloc_dev E" "ibv_dereg_mr E = 0" "ibv_dealloc_pd E = 0"
    "srv_create_qp E i = 0" "ibv_query_device E = 0" "srv_accept E i p = 0" "srv_post_send E i m = 0"
    "create_event_channel E" "create_listener E = 0" "bind_addr E port = 0" "listen E n = 0"
  using assms by (simp_all add: srv_good_def)

lemma test_run [simp, kmon_simps]:
  "test_z b s = (if b then Ret () s else Crash Die)" "test_nz x s = (if x = 0 then Ret () s else Crash Die)"
  by (simp_all add: test_z_def test_nz_def die_def)

lemma use_ptr_Some [simp, kmon_simps]: "use_ptr (Some v) s = Ret v s"
  by (simp add: use_ptr_def)

lemma get_queue_run:
  "srv_gctrl s = Some c \<Longrightarrow> i < length (c_queues c) \<Longrightarrow> get_queue i s = Ret (c_queues c ! i) s"
  by (simp add: get_queue_def get_ctrl_def)

lemma put_queue_run:
  "srv_gctrl s = Some c \<Longrightarrow> i < length (c_queues c) \<Longrightarrow>
   put_queue i f s = Ret () (s\<lparr>srv_gctrl := Some (c\<lparr>c_queues := (c_queues c)[i := f (c_queues c ! i)]\<rparr>)\<rparr>)"
  by (simp add: put_queue_def get_ctrl_def put_ctrl_def)

lemma queue_ctrl_run:
  "srv_gctrl s = Some c \<Longrightarrow> i < length (c_queues c) \<Longrightarrow> q_has_ctrl (c_queues c ! i) \<Longrightarrow>
   queue_ctrl i s = Ret c s"
  by (simp add: queue_ctrl_def get_queue_run get_ctrl_def)

lemmas srv_access = get_queue_run put_queue_run queue_ctrl_run

subsection \<open>A connection request\<close>

text \<open>The device is allocated with the first request, and found on every later one.\<close>

lemma get_device_first:
  assumes "srv_good E" "srv_gctrl s = Some c" "i < length (c_queues c)" "q_has_ctrl (c_queues c ! i)"
    and "q_cm_id (c_queues c ! i) = Some cid" "c_dev c = None"
  shows "get_device E i s = Ret (Some \<lparr>pd = the (ibv_alloc_pd E), verbs = the (id_verbs E cid)\<rparr>)
    (s\<lparr>srv_devs := srv_devs s + 1, srv_pds := srv_pds s + 1, srv_bufs := srv_bufs s + 1,
       srv_mrs := srv_mrs s + 1,
       srv_gctrl := Some (c\<lparr>c_buffer := malloc_buffer E (BUFFER_SIZE s),
         c_mr := Some (srv_region E (BUFFER_SIZE s)),
         c_dev := Some \<lparr>pd = the (ibv_alloc_pd E), verbs = the (id_verbs E cid)\<rparr>\<rparr>)\<rparr>)"
  using assms
  by (simp add: get_device_def srv_access srv_good_ptr srv_goodD put_ctrl_def srv_region_def Let_def)

lemma get_device_again:
  assumes "srv_gctrl s = Some c" "i < length (c_queues c)" "q_has_ctrl (c_queues c ! i)" "c_dev c = Some d"
  shows "get_device E i s = Ret (Some d) s"
  using assms by (simp add: get_device_def srv_access)

lemma get_device_run:
  assumes G: "srv_good E" and q: "srv_gctrl s = Some c" "i < length (c_queues c)"
      "q_has_ctrl (c_queues c ! i)" "q_cm_id (c_queues c ! i) = Some cid"
    and counts: "srv_devs s = (if c_dev c = None then 0 else 1)" "srv_pds s = srv_devs s"
      "srv_bufs s = srv_devs s" "srv_mrs s = srv_devs s"
    and held: "c_dev c \<noteq> None \<longrightarrow> c_mr c = Some (srv_region E (BUFFER_SIZE s)) \<and> c_buffer c \<noteq> None"
  shows "\<exists>d c'. get_device E i s = Ret (Some d)
      (s\<lparr>srv_devs := 1, srv_pds := 1, srv_bufs := 1, srv_mrs := 1, srv_gctrl := Some c'\<rparr>)
    \<and> c_queues c' = c_queues c \<and> c_dev c' = Some d \<and> c_mr c' = Some (srv_region E (BUFFER_SIZE s))
    \<and> c_buffer c' \<noteq> None"
proof (cases "c_dev c")
  case None
  have "malloc_buffer E (BUFFER_SIZE s) \<noteq> None" using G by (simp add: srv_good_def)
  then show ?thesis
    using get_device_first [OF G q None] counts None
    by (intro exI [of _ "\<lparr>pd = the (ibv_alloc_pd E), verbs = the (id_verbs E cid)\<rparr>"]
        exI [of _ "c\<lparr>c_buffer := malloc_buffer E (BUFFER_SIZE s), c_mr := Some (srv_region E (BUFFER_SIZE s)),
          c_dev := Some \<lparr>pd = the (ibv_alloc_pd E), verbs = the (id_verbs E cid)\<rparr>\<rparr>"]) simp
next
  case (Some d)
  have "s\<lparr>srv_devs := 1, srv_pds := 1, srv_bufs := 1, srv_mrs := 1, srv_gctrl := Some c\<rparr> = s"
    using counts Some q(1) by (intro srv.equality) simp_all
  then show ?thesis
    using get_device_again [OF q(1-3) Some] held Some by (intro exI [of _ d] exI [of _ c]) simp
qed

lemma create_qp_run:
  assumes "srv_good E" "srv_gctrl s = Some c" "i < length (c_queues c)" "q_has_ctrl (c_queues c ! i)"
    and "q_cm_id (c_queues c ! i) = Some cid" "c_dev c = Some d"
  shows "create_qp E i s = Ret () (s\<lparr>srv_qps := insert cid (srv_qps s),
    srv_gctrl := Some (c\<lparr>c_queues := (c_queues c)[i := (c_queues c ! i)\<lparr>q_qp := Some cid\<rparr>]\<rparr>)\<rparr>)"
  using assms by (simp add: create_qp_def srv_access srv_goodD)

lemma abs_queues_length: "length (fst a) \<le> n \<Longrightarrow> length (abs_queues n a) = n"
  by (simp add: abs_queues_def)

lemma abs_queues_free: "length ids < n \<Longrightarrow> abs_queues n (ids, est) ! length ids = free_queue"
  by (simp add: abs_queues_def nth_append)

lemma abs_queues_nth: "j < length ids \<Longrightarrow> abs_queues n (ids, est) ! j = conn_queue est (ids ! j)"
  by (simp add: abs_queues_def nth_append)

lemma abs_queues_request:
  assumes "length ids < n" "cid \<notin> est"
  shows "(abs_queues n (ids, est))[length ids := conn_queue est cid] = abs_queues n (ids @ [cid], est)"
proof -
  have "replicate (n - length ids) free_queue = free_queue # replicate (n - length (ids @ [cid])) free_queue"
    using assms(1) by (metis Suc_diff_Suc length_append_singleton replicate_Suc)
  then show ?thesis by (simp add: abs_queues_def list_update_append)
qed

lemma abs_queues_establish:
  assumes "j < length ids" "distinct ids"
  shows "(abs_queues n (ids, est))[j := conn_queue (insert (ids ! j) est) (ids ! j)]
    = abs_queues n (ids, insert (ids ! j) est)"
proof (rule nth_equalityI)
  fix i
  assume "i < length ((abs_queues n (ids, est))[j := conn_queue (insert (ids ! j) est) (ids ! j)])"
  then show "(abs_queues n (ids, est))[j := conn_queue (insert (ids ! j) est) (ids ! j)] ! i
      = abs_queues n (ids, insert (ids ! j) est) ! i"
    using assms by (auto simp: abs_queues_def nth_append nth_list_update conn_queue_def nth_eq_iff_index_eq)
qed (simp add: abs_queues_def)

lemma unat_of_small: "k < 2 ^ 32 \<Longrightarrow> unat (of_nat k :: u32) = k"
  by (simp add: unsigned_of_nat take_bit_nat_eq_self)

lemma conn_param_eta:
  "\<lparr>initiator_depth = initiator_depth pa, responder_resources = responder_resources pa,
    rnr_retry_count = rnr_retry_count pa, flow_control = flow_control pa\<rparr> = pa"
  by simp

text \<open>What the handler of a request does, on the first one and on the later ones.\<close>

lemma connect_request_run:
  assumes G: "srv_good E" and R: "srv_rel E n (ids, est) s"
    and new: "cid \<notin> set ids" "cid \<noteq> listener_id E" "length ids < n"
  shows "\<exists>s'. kthen (get_cm_event \<lparr>ev_kind = RDMA_CM_EVENT_CONNECT_REQUEST, ev_id = cid, ev_param = pa\<rparr>)
      (on_event E \<lparr>ev_kind = RDMA_CM_EVENT_CONNECT_REQUEST, ev_id = cid, ev_param = pa\<rparr>) s = Ret 0 s'
    \<and> srv_rel E n (ids @ [cid], est) s' \<and> BUFFER_SIZE s' = BUFFER_SIZE s
    \<and> srv_accepted s' = srv_accepted s @ [(cid, pa)]"
proof -
  obtain c where c: "srv_gctrl s = Some c" "c_queues c = abs_queues n (ids, est)"
      "c_dev c = None \<longleftrightarrow> ids = []"
      "ids \<noteq> [] \<longrightarrow> c_mr c = Some (srv_region E (BUFFER_SIZE s)) \<and> c_buffer c \<noteq> None"
    using srv_rel_ctrl [OF R] by (elim exE conjE)
  have n: "n < 2 ^ 32" "cid \<notin> est" and ctr: "queue_ctr s = of_nat (length ids)"
    using R new(1) by (auto simp: srv_rel_def)
  have i: "unat (of_nat (length ids) :: u32) = length ids" using n(1) new(3) by (simp add: unat_of_small)
  let ?q = "free_queue\<lparr>q_cm_id := Some cid\<rparr>"
  let ?c = "c\<lparr>c_queues := (c_queues c)[length ids := ?q]\<rparr>"
  let ?s = "s\<lparr>srv_ids := insert cid (srv_ids s), queue_ctr := of_nat (length ids) + 1,
    id_context := (id_context s)(cid := Some (length ids)), srv_gctrl := Some ?c\<rparr>"
  have len: "length (c_queues c) = n" "length (c_queues ?c) = n"
    using new(3) by (simp_all add: c(2) abs_queues_length)
  have fq: "c_queues c ! length ids = free_queue" "c_queues ?c ! length ids = ?q"
    using new(3) by (simp_all add: c(2) abs_queues_free abs_queues_length)
  have dev: "srv_devs s = (if ids = [] then 0 else 1)" "srv_pds s = srv_devs s" "srv_bufs s = srv_devs s"
      "srv_mrs s = srv_devs s"
    using R by (simp_all add: srv_rel_def)
  obtain d c2 where d: "get_device E (length ids) ?s = Ret (Some d)
        (?s\<lparr>srv_devs := 1, srv_pds := 1, srv_bufs := 1, srv_mrs := 1, srv_gctrl := Some c2\<rparr>)"
      "c_queues c2 = c_queues ?c" "c_dev c2 = Some d" "c_mr c2 = Some (srv_region E (BUFFER_SIZE s))"
      "c_buffer c2 \<noteq> None"
    using get_device_run [OF G, of ?s ?c "length ids" cid] c(3,4) dev fq len new(3)
    by (auto simp: free_queue_def)
  define s2 where "s2 = ?s\<lparr>srv_devs := 1, srv_pds := 1, srv_bufs := 1, srv_mrs := 1, srv_gctrl := Some c2\<rparr>"
  have s2c: "srv_gctrl s2 = Some c2" by (simp add: s2_def)
  have q2: "c_queues c2 ! length ids = ?q" "length (c_queues c2) = n"
    using d(2) fq(2) len(2) by simp_all
  let ?c3 = "c2\<lparr>c_queues := (c_queues c2)[length ids := conn_queue est cid]\<rparr>"
  have cq: "create_qp E (length ids) s2 = Ret () (s2\<lparr>srv_qps := insert cid (srv_qps s2), srv_gctrl := Some ?c3\<rparr>)"
    using create_qp_run [OF G s2c, of "length ids" cid d] q2 new(3) d(3) n(2)
    by (simp add: free_queue_def conn_queue_def zero_srv_queue_def)
  have q3: "(c_queues c2)[length ids := conn_queue est cid] = abs_queues n (ids @ [cid], est)"
    using abs_queues_request [OF new(3) n(2)] by (simp add: d(2) c(2))
  let ?s3 = "s2\<lparr>srv_qps := insert cid (srv_qps s2), srv_gctrl := Some ?c3,
    srv_accepted := srv_accepted s @ [(cid, pa)]\<rparr>"
  have run: "kthen (get_cm_event \<lparr>ev_kind = RDMA_CM_EVENT_CONNECT_REQUEST, ev_id = cid, ev_param = pa\<rparr>)
      (on_event E \<lparr>ev_kind = RDMA_CM_EVENT_CONNECT_REQUEST, ev_id = cid, ev_param = pa\<rparr>) s = Ret 0 ?s3"
    using conn_param_eta [of pa] c(1) new(3) len fq d(1) [folded s2_def] cq
    by (simp add: get_cm_event_def on_event_def on_connect_request_def ctr i Let_def srv_access
        free_queue_def zero_srv_queue_def srv_goodD [OF G] s2_def)
  have "srv_rel E n (ids @ [cid], est) ?s3"
    using R new d(3-5) q3 unfolding srv_rel_def s2_def
    by (auto simp: ctrl_rel_def nth_append hd_append less_Suc_eq)
  with run show ?thesis by (auto simp: s2_def)
qed

lemma hd_nth_iff: "distinct ids \<Longrightarrow> j < length ids \<Longrightarrow> hd ids = ids ! j \<longleftrightarrow> j = 0"
  by (metis distinct_conv_nth gr_implies_not0 hd_conv_nth length_0_conv length_greater_0_conv)

lemma established_run:
  assumes G: "srv_good E" and R: "srv_rel E n (ids, est) s" and new: "cid \<in> set ids" "cid \<notin> est"
  shows "\<exists>s'. kthen (get_cm_event \<lparr>ev_kind = RDMA_CM_EVENT_ESTABLISHED, ev_id = cid, ev_param = pa\<rparr>)
      (on_event E \<lparr>ev_kind = RDMA_CM_EVENT_ESTABLISHED, ev_id = cid, ev_param = pa\<rparr>) s = Ret 0 s'
    \<and> srv_rel E n (ids, insert cid est) s' \<and> BUFFER_SIZE s' = BUFFER_SIZE s
    \<and> srv_accepted s' = srv_accepted s"
proof -
  obtain c where c: "srv_gctrl s = Some c" "c_queues c = abs_queues n (ids, est)"
      "c_dev c = None \<longleftrightarrow> ids = []"
      "ids \<noteq> [] \<longrightarrow> c_mr c = Some (srv_region E (BUFFER_SIZE s)) \<and> c_buffer c \<noteq> None"
    using srv_rel_ctrl [OF R] by (elim exE conjE)
  obtain j where j: "j < length ids" "ids ! j = cid" using new(1) by (auto simp: in_set_conv_nth)
  have ne: "ids \<noteq> []" and dis: "distinct ids" and le: "length ids \<le> n"
    and ctx: "id_context s cid = Some j" and live: "cid \<in> srv_ids s"
    using R j new(1) by (auto simp: srv_rel_def)
  have len: "length (c_queues c) = n" using le by (simp add: c(2) abs_queues_length)
  have jq: "j < length (c_queues c)" "c_queues c ! j = conn_queue est cid"
    using j le len abs_queues_nth [of j ids n est] by (simp_all add: c(2))
  have q3: "(c_queues c)[j := (conn_queue est cid)\<lparr>q_state := CONNECTED\<rparr>] = abs_queues n (ids, insert cid est)"
    using abs_queues_establish [OF j(1) dis, of n est] j(2) by (simp add: c(2) conn_queue_def)
  define snt where "snt = (if j = 0 then srv_sent s @ [(cid, memregion_bytes (srv_region E (BUFFER_SIZE s)))]
    else srv_sent s)"
  let ?s3 = "s\<lparr>srv_sent := snt,
    srv_gctrl := Some (c\<lparr>c_queues := abs_queues n (ids, insert cid est)\<rparr>)\<rparr>"
  have run: "kthen (get_cm_event \<lparr>ev_kind = RDMA_CM_EVENT_ESTABLISHED, ev_id = cid, ev_param = pa\<rparr>)
      (on_event E \<lparr>ev_kind = RDMA_CM_EVENT_ESTABLISHED, ev_id = cid, ev_param = pa\<rparr>) s = Ret 0 ?s3"
  proof (cases "j = 0")
    case True
    then show ?thesis
      using c(1,4) ne live ctx jq q3 new(2)
      by (simp add: get_cm_event_def on_event_def on_connection_def srv_access srv_goodD [OF G] snt_def
          conn_queue_def)
  next
    case False
    then show ?thesis
      using c(1) live ctx jq q3 new(2)
      by (simp add: get_cm_event_def on_event_def on_connection_def srv_access snt_def conn_queue_def)
  qed
  have "hd ids = cid \<longleftrightarrow> j = 0" using hd_nth_iff [OF dis j(1)] j(2) by simp
  then have "srv_rel E n (ids, insert cid est) ?s3"
    using R new c(3,4) ne unfolding srv_rel_def snt_def by (auto simp: ctrl_rel_def)
  with run show ?thesis by auto
qed

text \<open>Every event of a connecting client is handled without an error, as the abstract server does.\<close>

lemma event_refines:
  assumes "srv_good E" "srv_rel E n a s" "ev_ok (listener_id E) n a ev"
  shows "\<exists>s'. kthen (get_cm_event ev) (on_event E ev) s = Ret 0 s' \<and> srv_rel E n (ev_step ev a) s'
    \<and> BUFFER_SIZE s' = BUFFER_SIZE s
    \<and> srv_accepted s' = srv_accepted s
        @ (if ev_kind ev = RDMA_CM_EVENT_CONNECT_REQUEST then [(ev_id ev, ev_param ev)] else [])"
proof (cases a)
  case (Pair ids est)
  have ev: "ev = \<lparr>ev_kind = ev_kind ev, ev_id = ev_id ev, ev_param = ev_param ev\<rparr>" by simp
  show ?thesis
  proof (cases "ev_kind ev = RDMA_CM_EVENT_CONNECT_REQUEST")
    case True
    then show ?thesis
      using connect_request_run [OF assms(1), of n ids est s "ev_id ev" "ev_param ev"] assms(2,3) Pair
        ev [unfolded True] by auto
  next
    case False
    then have k: "ev_kind ev = RDMA_CM_EVENT_ESTABLISHED" using assms(3) Pair by simp
    then show ?thesis
      using established_run [OF assms(1), of n ids est s "ev_id ev" "ev_param ev"] assms(2,3) Pair
        ev [unfolded k] by auto
  qed
qed

section \<open>The event loops\<close>

lemma kthen_kbind: "kthen m (kbind n f) s = kbind (kthen m n) f s"
  by (simp add: kthen_def kbind_def split: option.splits sum.splits)

definition requests :: "cm_event list \<Rightarrow> (cmid \<times> conn_param) list" where
  "requests evs = [(ev_id ev, ev_param ev). ev \<leftarrow> evs, ev_kind ev = RDMA_CM_EVENT_CONNECT_REQUEST]"

lemma requests_simps [simp]:
  "requests [] = []"
  "requests (ev # evs) = (if ev_kind ev = RDMA_CM_EVENT_CONNECT_REQUEST then [(ev_id ev, ev_param ev)] else [])
     @ requests evs"
  by (simp_all add: requests_def)

text \<open>
  \<open>served E n a evs s evs' s'\<close>: between \<open>s\<close> and \<open>s'\<close> the loop has handled a prefix of \<open>evs\<close>
  and left \<open>evs'\<close>.
\<close>

definition served :: "srv_env \<Rightarrow> nat \<Rightarrow> asrv \<Rightarrow> cm_event list \<Rightarrow> srv \<Rightarrow> cm_event list \<Rightarrow> srv \<Rightarrow> bool" where
  "served E n a evs s evs' s' \<longleftrightarrow>
     (\<exists>pre. evs = pre @ evs' \<and> srv_rel E n (fold ev_step pre a) s'
        \<and> evs_ok (listener_id E) n (fold ev_step pre a) evs'
        \<and> BUFFER_SIZE s' = BUFFER_SIZE s \<and> srv_accepted s' = srv_accepted s @ requests pre)"

lemma served_refl:
  "srv_rel E n a s \<Longrightarrow> evs_ok (listener_id E) n a evs \<Longrightarrow> served E n a evs s evs s"
  by (simp add: served_def)

lemma served_rel:
  "served E n a evs s evs' s' \<Longrightarrow> \<exists>b. srv_rel E n b s' \<and> evs_ok (listener_id E) n b evs'"
  by (auto simp only: served_def)

lemma served_Cons:
  assumes "served E n (ev_step ev a) evs s1 evs' s'" "BUFFER_SIZE s1 = BUFFER_SIZE s"
    and "srv_accepted s1 = srv_accepted s
        @ (if ev_kind ev = RDMA_CM_EVENT_CONNECT_REQUEST then [(ev_id ev, ev_param ev)] else [])"
  shows "served E n a (ev # evs) s evs' s'"
proof -
  obtain pre where "evs = pre @ evs'" "srv_rel E n (fold ev_step pre (ev_step ev a)) s'"
      "evs_ok (listener_id E) n (fold ev_step pre (ev_step ev a)) evs'"
      "BUFFER_SIZE s' = BUFFER_SIZE s1" "srv_accepted s' = srv_accepted s1 @ requests pre"
    using assms(1) by (auto simp: served_def)
  then show ?thesis using assms(2,3) unfolding served_def by (intro exI [of _ "ev # pre"]) simp
qed

lemma requests_append: "requests (xs @ ys) = requests xs @ requests ys"
  by (simp add: requests_def)

lemma served_trans:
  assumes "served E n a evs s evs1 s1"
    and "\<And>b. srv_rel E n b s1 \<Longrightarrow> evs_ok (listener_id E) n b evs1 \<Longrightarrow> served E n b evs1 s1 evs' s'"
  shows "served E n a evs s evs' s'"
proof -
  obtain pre where p: "evs = pre @ evs1" "srv_rel E n (fold ev_step pre a) s1"
      "evs_ok (listener_id E) n (fold ev_step pre a) evs1"
      "BUFFER_SIZE s1 = BUFFER_SIZE s" "srv_accepted s1 = srv_accepted s @ requests pre"
    using assms(1) by (auto simp: served_def)
  from assms(2) [OF p(2,3)] obtain pre' where "evs1 = pre' @ evs'"
      "srv_rel E n (fold ev_step pre' (fold ev_step pre a)) s'"
      "evs_ok (listener_id E) n (fold ev_step pre' (fold ev_step pre a)) evs'"
      "BUFFER_SIZE s' = BUFFER_SIZE s1" "srv_accepted s' = srv_accepted s1 @ requests pre'"
    by (auto simp: served_def)
  with p show ?thesis unfolding served_def by (intro exI [of _ "pre @ pre'"]) (simp add: requests_append)
qed

lemma srv_rel_queue:
  "srv_rel E n a s \<Longrightarrow> i < n \<Longrightarrow> get_queue i s = Ret (abs_queues n a ! i) s"
proof -
  assume R: "srv_rel E n a s" and i: "i < n"
  obtain c where c: "srv_gctrl s = Some c" "c_queues c = abs_queues n a"
    using srv_rel_ctrl [of E n "fst a" "snd a" s] R by (auto simp: prod.collapse)
  have "length (c_queues c) = n" using R c(2) by (simp add: srv_rel_def abs_queues_length)
  then show ?thesis using get_queue_run [OF c(1)] i c(2) by simp
qed

lemma serve_queue_ok:
  assumes "srv_good E" "srv_rel E n a s" "evs_ok (listener_id E) n a evs" "i < n"
  shows "\<exists>evs' s'. serve_queue E i evs s = Ret evs' s' \<and> served E n a evs s evs' s'"
  using assms(2,3)
proof (induction evs arbitrary: a s)
  case Nil
  then show ?case by (simp add: served_refl)
next
  case (Cons ev evs)
  obtain s1 where s1: "kthen (get_cm_event ev) (on_event E ev) s = Ret 0 s1" "srv_rel E n (ev_step ev a) s1"
      "BUFFER_SIZE s1 = BUFFER_SIZE s" "srv_accepted s1 = srv_accepted s
        @ (if ev_kind ev = RDMA_CM_EVENT_CONNECT_REQUEST then [(ev_id ev, ev_param ev)] else [])"
    using event_refines [OF assms(1) Cons.prems(1)] Cons.prems(2) by auto
  have ok: "evs_ok (listener_id E) n (ev_step ev a) evs" using Cons.prems(2) by simp
  show ?case
  proof (cases "q_state (abs_queues n (ev_step ev a) ! i) = CONNECTED")
    case True
    then have "serve_queue E i (ev # evs) s = Ret evs s1"
      using s1(1) srv_rel_queue [OF s1(2) assms(4)] by (simp add: kthen_kbind)
    then show ?thesis using served_Cons [OF served_refl [OF s1(2) ok] s1(3,4)] by blast
  next
    case False
    then have "serve_queue E i (ev # evs) s = serve_queue E i evs s1"
      using s1(1) srv_rel_queue [OF s1(2) assms(4)] by (simp add: kthen_kbind)
    then show ?thesis using Cons.IH [OF s1(2) ok] served_Cons [OF _ s1(3,4)] by metis
  qed
qed

lemma serve_queues_ok:
  assumes "srv_good E" "srv_rel E n a s" "evs_ok (listener_id E) n a evs" "i + k \<le> n"
  shows "\<exists>evs' s'. serve_queues E i k evs s = Ret evs' s' \<and> served E n a evs s evs' s'"
  using assms(2-4)
proof (induction k arbitrary: i evs a s)
  case 0
  then show ?case by (simp add: served_refl)
next
  case (Suc k)
  obtain evs1 s1 where s1: "serve_queue E i evs s = Ret evs1 s1" "served E n a evs s evs1 s1"
    using serve_queue_ok [OF assms(1) Suc.prems(1,2), of i] Suc.prems(3) by auto
  then obtain pre where "srv_rel E n (fold ev_step pre a) s1"
      "evs_ok (listener_id E) n (fold ev_step pre a) evs1"
    by (auto simp: served_def)
  then obtain evs2 s2 where r2: "serve_queues E (Suc i) k evs1 s1 = Ret evs2 s2"
    using Suc.IH [of "fold ev_step pre a" s1 evs1 "Suc i"] Suc.prems(3) by auto
  have "served E n b evs1 s1 evs2 s2" if "srv_rel E n b s1" "evs_ok (listener_id E) n b evs1" for b
    using Suc.IH [OF that, of "Suc i"] Suc.prems(3) r2 by simp
  then show ?case using s1 r2 served_trans [OF s1(2)] by (metis kbind_Ret serve_queues.simps(2))
qed

lemma serve_rest_ok:
  assumes "srv_good E" "srv_rel E n a s" "evs_ok (listener_id E) n a evs"
  shows "\<exists>s'. serve_rest E evs s = Ret () s' \<and> served E n a evs s [] s'"
  using assms(2,3)
proof (induction evs arbitrary: a s)
  case Nil
  then show ?case by (simp add: served_refl)
next
  case (Cons ev evs)
  obtain s1 where s1: "kthen (get_cm_event ev) (on_event E ev) s = Ret 0 s1" "srv_rel E n (ev_step ev a) s1"
      "BUFFER_SIZE s1 = BUFFER_SIZE s" "srv_accepted s1 = srv_accepted s
        @ (if ev_kind ev = RDMA_CM_EVENT_CONNECT_REQUEST then [(ev_id ev, ev_param ev)] else [])"
    using event_refines [OF assms(1) Cons.prems(1)] Cons.prems(2) by auto
  have ok: "evs_ok (listener_id E) n (ev_step ev a) evs" using Cons.prems(2) by simp
  show ?case
  proof -
    have "serve_rest E (ev # evs) s = serve_rest E evs s1" using s1(1) by (simp add: kthen_kbind)
    then show ?thesis using Cons.IH [OF s1(2) ok] served_Cons [OF _ s1(3,4)] by metis
  qed
qed

text \<open>
  An event that crashes in the state the abstract server reaches on \<open>evs\<close> crashes the loops
  that come to it. \<open>leads\<close> says that a loop stopped in a state with such a future.
\<close>

definition crashes_after :: "srv_env \<Rightarrow> nat \<Rightarrow> cm_event \<Rightarrow> fault \<Rightarrow> asrv \<Rightarrow> bool" where
  "crashes_after E n ev f b \<longleftrightarrow>
     (\<forall>s. srv_rel E n b s \<longrightarrow> kthen (get_cm_event ev) (on_event E ev) s = Crash f)"

definition heads_for :: "srv_env \<Rightarrow> nat \<Rightarrow> cm_event \<Rightarrow> fault \<Rightarrow> cm_event list \<Rightarrow> srv \<Rightarrow> bool" where
  "heads_for E n ev f evs s \<longleftrightarrow>
     (\<exists>a. srv_rel E n a s \<and> evs_ok (listener_id E) n a evs \<and> crashes_after E n ev f (fold ev_step evs a))"

lemma heads_for_step:
  assumes "srv_good E" "heads_for E n ev f (e # evs) s"
  shows "\<exists>s'. kthen (get_cm_event e) (on_event E e) s = Ret 0 s' \<and> heads_for E n ev f evs s'
    \<and> (\<forall>i < n. \<exists>q. get_queue i s' = Ret q s')"
proof -
  obtain a where a: "srv_rel E n a s" "ev_ok (listener_id E) n a e" "evs_ok (listener_id E) n (ev_step e a) evs"
      "crashes_after E n ev f (fold ev_step evs (ev_step e a))"
    using assms(2) by (auto simp only: heads_for_def evs_ok.simps fold_simps)
  obtain s' where "kthen (get_cm_event e) (on_event E e) s = Ret 0 s'" "srv_rel E n (ev_step e a) s'"
    using event_refines [OF assms(1) a(1,2)] by blast
  then show ?thesis using a(3,4) srv_rel_queue unfolding heads_for_def by blast
qed

lemma heads_for_crash: "heads_for E n ev f [] s \<Longrightarrow> kthen (get_cm_event ev) (on_event E ev) s = Crash f"
  by (auto simp only: heads_for_def crashes_after_def fold_simps id_apply)

lemma serve_queue_crash:
  assumes "srv_good E" "heads_for E n ev f evs s" "i < n"
  shows "serve_queue E i (evs @ ev # rest) s = Crash f
    \<or> (\<exists>evs' s'. serve_queue E i (evs @ ev # rest) s = Ret (evs' @ ev # rest) s' \<and> heads_for E n ev f evs' s')"
  using assms(2)
proof (induction evs arbitrary: s)
  case Nil
  then show ?case using heads_for_crash by (simp add: kthen_kbind)
next
  case (Cons e evs)
  obtain s1 q where s1: "kthen (get_cm_event e) (on_event E e) s = Ret 0 s1" "heads_for E n ev f evs s1"
      "get_queue i s1 = Ret q s1"
    using heads_for_step [OF assms(1) Cons.prems] assms(3) by blast
  show ?case
  proof (cases "q_state q = CONNECTED")
    case True
    then have "serve_queue E i ((e # evs) @ ev # rest) s = Ret (evs @ ev # rest) s1"
      using s1 by (simp add: kthen_kbind)
    then show ?thesis using s1(2) by blast
  next
    case False
    then have "serve_queue E i ((e # evs) @ ev # rest) s = serve_queue E i (evs @ ev # rest) s1"
      using s1 by (simp add: kthen_kbind)
    then show ?thesis using Cons.IH [OF s1(2)] by (simp only:)
  qed
qed

lemma serve_queues_crash:
  assumes "srv_good E" "heads_for E n ev f evs s" "i + k \<le> n"
  shows "serve_queues E i k (evs @ ev # rest) s = Crash f
    \<or> (\<exists>evs' s'. serve_queues E i k (evs @ ev # rest) s = Ret (evs' @ ev # rest) s' \<and> heads_for E n ev f evs' s')"
  using assms(2,3)
proof (induction k arbitrary: i evs s)
  case 0
  then show ?case by auto
next
  case (Suc k)
  have "i < n" using Suc.prems(2) by simp
  from serve_queue_crash [OF assms(1) Suc.prems(1) this, of rest] show ?case
  proof (elim disjE exE conjE)
    fix evs' s'
    assume *: "serve_queue E i (evs @ ev # rest) s = Ret (evs' @ ev # rest) s'" "heads_for E n ev f evs' s'"
    have "Suc i + k \<le> n" using Suc.prems(2) by simp
    from Suc.IH [OF *(2) this] *(1) show ?thesis by simp
  qed simp
qed

lemma serve_rest_crash:
  assumes "srv_good E" "heads_for E n ev f evs s"
  shows "serve_rest E (evs @ ev # rest) s = Crash f"
  using assms(2)
proof (induction evs arbitrary: s)
  case Nil
  then show ?case using heads_for_crash by (simp add: kthen_kbind)
next
  case (Cons e evs)
  obtain s1 where "kthen (get_cm_event e) (on_event E e) s = Ret 0 s1" "heads_for E n ev f evs s1"
    using heads_for_step [OF assms(1) Cons.prems] by blast
  then show ?case using Cons.IH by (simp add: kthen_kbind)
qed

text \<open>A request when all queues are taken reads past the array.\<close>

lemma extra_request_crashes:
  assumes "length (fst a) = n" "ev_kind ev = RDMA_CM_EVENT_CONNECT_REQUEST"
  shows "crashes_after E n ev OutOfBounds a"
  unfolding crashes_after_def
proof (intro allI impI)
  fix s assume R: "srv_rel E n a s"
  obtain c where c: "srv_gctrl s = Some c" "c_queues c = abs_queues n a"
    using srv_rel_ctrl [of E n "fst a" "snd a" s] R by (auto simp: prod.collapse)
  have "queue_ctr s = of_nat n" "n < 2 ^ 32" "length (c_queues c) = n"
    using R assms(1) c(2) by (simp_all add: srv_rel_def abs_queues_length)
  then show "kthen (get_cm_event ev) (on_event E ev) s = Crash OutOfBounds"
    using assms(2) c(1)
    by (simp add: get_cm_event_def on_event_def on_connect_request_def Let_def get_queue_def get_ctrl_def
        unat_of_small)
qed

end
