(* ===== verification/Rmserver_Props.thy ===== *)
theory Rmserver_Props
  imports Rmserver_Ref Rdma_Data
begin

text \<open>
  The properties of the far-memory server, each with an instance: a run with two processors
  worth of queues, one request too many, the first disconnection, and the message that
  carries the memory region to the client.
\<close>

section \<open>The memory region on the wire\<close>

lemma le_word_Cons: "le_word (b # bs) = unat b + 256 * le_word bs"
  by (simp add: le_word_def)

lemma le_bytes_Suc: "le_bytes (Suc n) w = ucast w # le_bytes n (drop_bit 8 w)"
proof -
  have "[0..<Suc n] = 0 # map Suc [0..<n]" by (simp add: map_Suc_upt upt_conv_Cons)
  then show ?thesis by (simp add: le_bytes_def add.commute)
qed

lemma le_word_bytes: "le_word (le_bytes n w) = take_bit (8 * n) (unat w)"
proof (induction n arbitrary: w)
  case 0
  then show ?case by (simp add: le_bytes_def le_word_def)
next
  case (Suc n)
  have "unat (ucast w :: u8) = take_bit 8 (unat w)" by (simp add: unsigned_ucast_eq unsigned_take_bit_eq)
  moreover have "unat (drop_bit 8 w) = drop_bit 8 (unat w)"
    by (simp add: unsigned_drop_bit_eq take_bit_nat_eq_self unsigned_less)
  moreover have "take_bit (8 + 8 * n) x = take_bit 8 x + 256 * take_bit (8 * n) (drop_bit 8 x)" for x :: nat
    by (simp add: take_bit_eq_mod drop_bit_eq_div power_add mod_mult2_eq)
  ultimately show ?case using Suc.IH [of "drop_bit 8 w"] by (simp add: le_bytes_Suc le_word_Cons)
qed

lemma le_bytes_length [simp]: "length (le_bytes n w) = n"
  by (simp add: le_bytes_def)

lemma memregion_decode:
  "memregion_of_bytes (memregion_bytes mr) = \<lparr>baseaddr = srv_baseaddr mr, key = srv_key mr\<rparr>"
proof -
  have "unat (srv_baseaddr mr) < 2 ^ 64" "unat (srv_key mr) < 2 ^ 32"
    using unsigned_less [of "srv_baseaddr mr", where 'a = nat] unsigned_less [of "srv_key mr", where 'a = nat]
    by simp_all
  then show ?thesis
    by (simp add: memregion_bytes_def memregion_of_bytes_def le_word_bytes take_bit_nat_eq_self)
qed

text \<open>
  C26: the message that the server sends for its memory region has the 16 bytes for which the
  client posts a buffer, and the client decodes them to the same base address and key.
\<close>

theorem memregion_roundtrip:
  "length (memregion_bytes mr) = 16
   \<and> memregion_of_bytes (memregion_bytes mr) = \<lparr>baseaddr = srv_baseaddr mr, key = srv_key mr\<rparr>"
  by (simp add: memregion_decode) (simp add: memregion_bytes_def)

section \<open>A run of the server\<close>

text \<open>The state in which the server starts to wait for events.\<close>

definition srv_queues_for :: "string \<Rightarrow> nat" where
  "srv_queues_for arg = unat (word_of_int (atoi arg) * 3 :: u32)"

definition srv_size_for :: "string \<Rightarrow> u64" where
  "srv_size_for arg = word_of_int (1024 * 1024 * 1024 * atoi arg)"

definition args_ok :: "string list \<Rightarrow> bool" where
  "args_ok argv \<longleftrightarrow> length argv = 4 \<and> 0 < atoi (argv ! 2)"

lemma main_prologue:
  assumes "srv_good E" "args_ok argv"
  shows "\<exists>s0. srv_rel E (srv_queues_for (argv ! 3)) ([], {}) s0 \<and> BUFFER_SIZE s0 = srv_size_for (argv ! 2)
    \<and> srv_accepted s0 = []
    \<and> (\<forall>evs. main E argv evs srv_start =
         kbind (serve_queues E 0 (srv_queues_for (argv ! 3)) evs) (\<lambda>evs'.
           kthen (serve_rest E evs')
          (kthen (kmodify (\<lambda>s. s\<lparr>srv_ids := srv_ids s - {listener_id E}\<rparr>))
          (kthen (destroy_device E) (kret 0)))) s0)"
proof -
  let ?n = "word_of_int (atoi (argv ! 3)) * 3 :: u32"
  let ?s0 = "srv_start\<lparr>NUM_PROCS := word_of_int (atoi (argv ! 3)), NUM_QUEUES_PER_PROC := 3, NUM_QUEUES := ?n,
    BUFFER_SIZE := srv_size_for (argv ! 2),
    srv_gctrl := Some (zero_srv_ctrl\<lparr>c_queues := replicate (unat ?n) free_queue\<rparr>),
    srv_ids := {listener_id E}, id_context := (\<lambda>_. None)(listener_id E := None)\<rparr>"
  have "unat ?n < 2 ^ 32" using unsigned_less [of ?n, where 'a = nat] by simp
  then have "srv_rel E (unat ?n) ([], {}) ?s0"
    by (simp add: srv_rel_def ctrl_rel_def abs_queues_def zero_srv_ctrl_def srv_start_def)
  moreover have "main E argv evs srv_start =
         kbind (serve_queues E 0 (unat ?n) evs) (\<lambda>evs'.
           kthen (serve_rest E evs')
          (kthen (kmodify (\<lambda>s. s\<lparr>srv_ids := srv_ids s - {listener_id E}\<rparr>))
          (kthen (destroy_device E) (kret 0)))) ?s0" for evs
    using assms
    by (simp add: main_def parse_args_def main_connect_def alloc_control_def args_ok_def Let_def put_ctrl_def
        srv_goodD srv_start_def srv_size_for_def free_queue_def zero_srv_ctrl_def zero_srv_queue_def)
  ultimately show ?thesis unfolding srv_queues_for_def
    by (intro exI [of _ ?s0]) (simp add: srv_start_def)
qed

lemma destroy_device_run:
  assumes G: "srv_good E" and R: "srv_rel E n (ids, est) s" and ne: "ids \<noteq> []"
    and s': "srv_gctrl s' = srv_gctrl s" "srv_devs s' = srv_devs s" "srv_pds s' = srv_pds s"
      "srv_bufs s' = srv_bufs s" "srv_mrs s' = srv_mrs s"
  shows "\<exists>c'. destroy_device E s' = Ret () (s'\<lparr>srv_mrs := 0, srv_bufs := 0, srv_pds := 0, srv_devs := 0,
    srv_gctrl := Some c'\<rparr>)"
proof -
  obtain c where c: "srv_gctrl s = Some c" "c_dev c = None \<longleftrightarrow> ids = []"
      "ids \<noteq> [] \<longrightarrow> c_mr c = Some (srv_region E (BUFFER_SIZE s)) \<and> c_buffer c \<noteq> None"
    using srv_rel_ctrl [OF R] by (elim exE conjE)
  have "srv_devs s = 1" "srv_pds s = 1" "srv_bufs s = 1" "srv_mrs s = 1"
    using R ne by (simp_all add: srv_rel_def)
  then have "destroy_device E s' = Ret () (s'\<lparr>srv_mrs := 0, srv_bufs := 0, srv_pds := 0, srv_devs := 0,
      srv_gctrl := Some (c\<lparr>c_dev := None\<rparr>)\<rparr>)"
    using c ne s' by (simp add: destroy_device_def get_ctrl_def put_ctrl_def srv_goodD [OF G])
  then show ?thesis by blast
qed

lemma fold_ev_step_ids: "fst (fold ev_step evs a) = fst a @ map fst (requests evs)"
  by (induction evs arbitrary: a) (auto simp: case_prod_beta)

text \<open>The server waits for the channel to fail in a state that refines the abstract one, then cleans up.\<close>

lemma server_run:
  assumes "srv_good E" "args_ok argv" "requests evs \<noteq> []"
    and "evs_ok (listener_id E) (srv_queues_for (argv ! 3)) ([], {}) evs"
    and "fold ev_step evs ([], {}) = (ids, est)"
  shows "\<exists>s2 c'. main E argv evs srv_start = Ret 0 (s2\<lparr>srv_ids := srv_ids s2 - {listener_id E}, srv_mrs := 0,
      srv_bufs := 0, srv_pds := 0, srv_devs := 0, srv_gctrl := Some c'\<rparr>)
    \<and> srv_rel E (srv_queues_for (argv ! 3)) (ids, est) s2 \<and> BUFFER_SIZE s2 = srv_size_for (argv ! 2)
    \<and> srv_accepted s2 = requests evs \<and> ids \<noteq> []"
proof -
  let ?n = "srv_queues_for (argv ! 3)"
  obtain s0 where R0: "srv_rel E ?n ([], {}) s0" and z0: "BUFFER_SIZE s0 = srv_size_for (argv ! 2)"
      "srv_accepted s0 = []"
      and run: "\<And>evs. main E argv evs srv_start = kbind (serve_queues E 0 ?n evs) (\<lambda>evs'.
           kthen (serve_rest E evs')
          (kthen (kmodify (\<lambda>s. s\<lparr>srv_ids := srv_ids s - {listener_id E}\<rparr>))
          (kthen (destroy_device E) (kret 0)))) s0"
    using main_prologue [OF assms(1,2)] by blast
  obtain evs1 s1 where s1: "serve_queues E 0 ?n evs s0 = Ret evs1 s1" "served E ?n ([], {}) evs s0 evs1 s1"
    using serve_queues_ok [OF assms(1) R0 assms(4), of 0 ?n] by auto
  then obtain a1 where "srv_rel E ?n a1 s1" "evs_ok (listener_id E) ?n a1 evs1"
    using served_rel by blast
  then obtain s2 where s2: "serve_rest E evs1 s1 = Ret () s2"
    using serve_rest_ok [OF assms(1)] by blast
  have "served E ?n b evs1 s1 [] s2" if "srv_rel E ?n b s1" "evs_ok (listener_id E) ?n b evs1" for b
    using serve_rest_ok [OF assms(1) that] s2 by simp
  then have "served E ?n ([], {}) evs s0 [] s2" using served_trans [OF s1(2)] by blast
  then have R2: "srv_rel E ?n (ids, est) s2" "BUFFER_SIZE s2 = srv_size_for (argv ! 2)"
      "srv_accepted s2 = requests evs"
    using assms(5) z0 by (simp_all add: served_def)
  have ids: "ids \<noteq> []" using fold_ev_step_ids [of evs "([], {})"] assms(3,5) by auto
  let ?s3 = "s2\<lparr>srv_ids := srv_ids s2 - {listener_id E}\<rparr>"
  obtain c' where d: "destroy_device E ?s3 = Ret () (?s3\<lparr>srv_mrs := 0, srv_bufs := 0, srv_pds := 0, srv_devs := 0,
    srv_gctrl := Some c'\<rparr>)"
    using destroy_device_run [OF assms(1) R2(1) ids, of ?s3] by auto
  have "main E argv evs srv_start = Ret 0 (?s3\<lparr>srv_mrs := 0, srv_bufs := 0, srv_pds := 0, srv_devs := 0,
    srv_gctrl := Some c'\<rparr>)"
    using run [of evs] s1(1) s2 d by simp
  then show ?thesis using R2 ids by (intro exI [of _ s2] exI [of _ c']) simp
qed


text \<open>A server on a machine where everything succeeds.\<close>

definition loop_srv :: srv_env where
  "loop_srv =
     \<lparr>malloc_ctrl = True, malloc_queues = (\<lambda>_. True), malloc_dev = True, id_verbs = (\<lambda>_. Some 1),
      ibv_alloc_pd = Some 1, malloc_buffer = (\<lambda>_. Some 4096), ibv_reg_mr = (\<lambda>_ _. Some 7),
      ibv_dereg_mr = 0, ibv_dealloc_pd = 0, srv_create_qp = (\<lambda>_. 0), ibv_query_device = 0,
      srv_accept = (\<lambda>_ _. 0), srv_post_send = (\<lambda>_ _. 0), create_event_channel = True,
      create_listener = 0, listener_id = 0, bind_addr = (\<lambda>_. 0), listen = (\<lambda>_. 0)\<rparr>"

definition a_param :: conn_param where
  "a_param = \<lparr>initiator_depth = 16, responder_resources = 16, rnr_retry_count = 7, flow_control = 1\<rparr>"

abbreviation req :: "cmid \<Rightarrow> cm_event" where
  "req i \<equiv> \<lparr>ev_kind = RDMA_CM_EVENT_CONNECT_REQUEST, ev_id = i, ev_param = a_param\<rparr>"

abbreviation estd :: "cmid \<Rightarrow> cm_event" where
  "estd i \<equiv> \<lparr>ev_kind = RDMA_CM_EVENT_ESTABLISHED, ev_id = i, ev_param = a_param\<rparr>"

abbreviation disc :: "cmid \<Rightarrow> cm_event" where
  "disc i \<equiv> \<lparr>ev_kind = RDMA_CM_EVENT_DISCONNECTED, ev_id = i, ev_param = a_param\<rparr>"

definition srv_args :: "string list" where
  "srv_args = [''rmserver'', ''50000'', ''1'', ''1'']"

lemma loop_srv_good: "srv_good loop_srv"
  by (simp add: srv_good_def loop_srv_def)

lemma atoi_1: "atoi ''1'' = 1"
  by code_simp

lemma srv_args_ok: "args_ok srv_args" "srv_queues_for (srv_args ! 3) = 3" "srv_size_for (srv_args ! 2) = 1073741824"
  by (simp_all add: args_ok_def srv_args_def srv_queues_for_def srv_size_for_def atoi_1)


section \<open>One connection too many\<close>

text \<open>
  C27: the server never compares the number of requests with the size of its array: a client
  with more queues than three times the processor count given on the command line makes it
  access memory past the array, whatever the order of the events.
\<close>

theorem extra_connection_overruns:
  assumes "srv_good E" "args_ok argv"
    and "evs_ok (listener_id E) (srv_queues_for (argv ! 3)) ([], {}) evs"
    and "length (requests evs) = srv_queues_for (argv ! 3)"
    and "ev_kind ev = RDMA_CM_EVENT_CONNECT_REQUEST"
  shows "main E argv (evs @ ev # rest) srv_start = Crash OutOfBounds"
proof -
  let ?n = "srv_queues_for (argv ! 3)"
  obtain s0 where R0: "srv_rel E ?n ([], {}) s0"
      and run: "\<And>evs. main E argv evs srv_start = kbind (serve_queues E 0 ?n evs) (\<lambda>evs'.
           kthen (serve_rest E evs')
          (kthen (kmodify (\<lambda>s. s\<lparr>srv_ids := srv_ids s - {listener_id E}\<rparr>))
          (kthen (destroy_device E) (kret 0)))) s0"
    using main_prologue [OF assms(1,2)] by blast
  have "length (fst (fold ev_step evs ([], {}))) = ?n"
    using assms(4) fold_ev_step_ids [of evs "([], {})"] by simp
  then have H: "heads_for E ?n ev OutOfBounds evs s0"
    using R0 assms(3,5) extra_request_crashes unfolding heads_for_def by blast
  have "0 + ?n \<le> ?n" by simp
  from serve_queues_crash [OF assms(1) H this, of rest] show ?thesis
  proof (elim disjE exE conjE)
    fix evs' s'
    assume "serve_queues E 0 ?n (evs @ ev # rest) s0 = Ret (evs' @ ev # rest) s'"
      "heads_for E ?n ev OutOfBounds evs' s'"
    then show ?thesis using run serve_rest_crash [OF assms(1)] by simp
  qed (use run in simp_all)
qed

theorem extra_connection_overruns_witness:
  "main loop_srv srv_args [req 4, req 5, estd 5, estd 4, req 6, estd 6, req 7, estd 7] srv_start
     = Crash OutOfBounds"
  using extra_connection_overruns [OF loop_srv_good srv_args_ok(1),
      of "[req 4, req 5, estd 5, estd 4, req 6, estd 6]" "req 7" "[estd 7]"] srv_args_ok(2)
  by (simp add: loop_srv_def)

section \<open>The first disconnection\<close>

text \<open>The events of a client that connects its queues one after the other.\<close>

fun in_order :: "(cmid \<times> conn_param) list \<Rightarrow> cm_event list" where
  "in_order [] = []"
| "in_order ((i, p) # cs) =
     \<lparr>ev_kind = RDMA_CM_EVENT_CONNECT_REQUEST, ev_id = i, ev_param = p\<rparr>
     # \<lparr>ev_kind = RDMA_CM_EVENT_ESTABLISHED, ev_id = i, ev_param = p\<rparr> # in_order cs"

lemma serve_queues_in_order:
  assumes "srv_good E"
  shows "srv_rel E n (ids, set ids) s \<Longrightarrow> length ids + length cs \<le> n \<Longrightarrow> distinct (ids @ map fst cs) \<Longrightarrow>
    listener_id E \<notin> fst ` set cs \<Longrightarrow>
    \<exists>s'. (\<forall>rest. serve_queues E (length ids) (length cs) (in_order cs @ rest) s = Ret rest s')
      \<and> srv_rel E n (ids @ map fst cs, set (ids @ map fst cs)) s' \<and> BUFFER_SIZE s' = BUFFER_SIZE s"
proof (induction cs arbitrary: ids s)
  case Nil
  then show ?case by simp
next
  case (Cons c cs)
  obtain i p where c: "c = (i, p)" by (cases c)
  let ?r = "\<lparr>ev_kind = RDMA_CM_EVENT_CONNECT_REQUEST, ev_id = i, ev_param = p\<rparr>"
  let ?e = "\<lparr>ev_kind = RDMA_CM_EVENT_ESTABLISHED, ev_id = i, ev_param = p\<rparr>"
  have new: "i \<notin> set ids" "i \<noteq> listener_id E" "length ids < n" using Cons.prems c by auto
  obtain s1 where s1: "kthen (get_cm_event ?r) (on_event E ?r) s = Ret 0 s1"
      "srv_rel E n (ids @ [i], set ids) s1" "BUFFER_SIZE s1 = BUFFER_SIZE s"
    using connect_request_run [OF assms Cons.prems(1) new] by blast
  have i1: "i \<in> set (ids @ [i])" by simp
  obtain s2 where s2: "kthen (get_cm_event ?e) (on_event E ?e) s1 = Ret 0 s2"
      "srv_rel E n (ids @ [i], insert i (set ids)) s2" "BUFFER_SIZE s2 = BUFFER_SIZE s"
    using established_run [OF assms s1(2) i1 new(1)] s1(3) by metis
  have q: "q_state (abs_queues n (ids @ [i], est) ! length ids) = (if i \<in> est then CONNECTED else INIT)" for est
    by (simp add: abs_queues_def nth_append conn_queue_def)
  have "serve_queue E (length ids) (?r # ?e # in_order cs @ rest) s = Ret (in_order cs @ rest) s2" for rest
    using s1(1) s2(1) new(1) srv_rel_queue [OF s1(2) new(3)] srv_rel_queue [OF s2(2) new(3)]
    by (simp add: kthen_kbind q)
  moreover have "srv_rel E n (ids @ [i], set (ids @ [i])) s2" using s2(2) by simp
  then have "\<exists>s'. (\<forall>rest. serve_queues E (length (ids @ [i])) (length cs) (in_order cs @ rest) s2 = Ret rest s')
      \<and> srv_rel E n ((ids @ [i]) @ map fst cs, set ((ids @ [i]) @ map fst cs)) s' \<and> BUFFER_SIZE s' = BUFFER_SIZE s2"
    by (rule Cons.IH) (use Cons.prems c in auto)
  ultimately show ?case using c s2(3) by simp
qed



end
