(* ===== verification/Rmserver_Safe.thy ===== *)
theory Rmserver_Safe
  imports Rmserver_Props
begin

text \<open>
  Memory safety of the far-memory server when calls of the libraries fail. The rules compute,
  for each piece of the program, what must hold before it so that it either ends the program
  through \<open>die\<close> or goes on with a given condition; the handlers keep a small invariant
  of the program's pointers and array, in whatever order the connection manager reports
  requests, establishments, disconnections and other events.
\<close>

section \<open>Ending through die, or going on\<close>

definition dies_or :: "('s, 'a) kmon \<Rightarrow> ('a \<Rightarrow> 's \<Rightarrow> bool) \<Rightarrow> 's \<Rightarrow> bool" where
  "dies_or m P s \<longleftrightarrow> m s = Crash Die \<or> (\<exists>r s'. m s = Ret r s' \<and> P r s')"

named_theorems dies_rules

lemma dies_kbind [dies_rules]: "dies_or (kbind m f) P = dies_or m (\<lambda>r. dies_or (f r) P)"
  by (auto simp: dies_or_def kbind_def fun_eq_iff split: option.splits sum.splits)

lemma dies_kthen [dies_rules]: "dies_or (kthen m n) P = dies_or m (\<lambda>r. dies_or n P)"
  by (simp add: kthen_def dies_kbind)

lemma dies_basic [dies_rules]:
  "dies_or (kret r) P = P r"
  "dies_or (kmodify f) Q s \<longleftrightarrow> Q () (f s)"
  "dies_or (kgets g) R s \<longleftrightarrow> R (g s) s"
  "dies_or (kcrash e) T s \<longleftrightarrow> e = Die"
  by (auto simp: dies_or_def fun_eq_iff)

lemma dies_if [dies_rules]: "dies_or (if b then m else n) P s \<longleftrightarrow> (if b then dies_or m P s else dies_or n P s)"
  by simp

lemma dies_tests [dies_rules]:
  "dies_or die P s"
  "dies_or (test_z b) Q s \<longleftrightarrow> (b \<longrightarrow> Q () s)"
  "dies_or (test_nz x) Q s \<longleftrightarrow> (x = 0 \<longrightarrow> Q () s)"
  by (auto simp: dies_or_def die_def)

lemma dies_ptrs [dies_rules]:
  "dies_or (test_ptr p) P s \<longleftrightarrow> (\<forall>v. p = Some v \<longrightarrow> P v s)"
  "dies_or (use_ptr p) P s \<longleftrightarrow> (\<exists>v. p = Some v \<and> P v s)"
  by (auto simp: dies_or_def die_def test_ptr_def use_ptr_def split: option.splits)

lemma dies_access [dies_rules]:
  "dies_or get_ctrl P s \<longleftrightarrow> (\<exists>c. srv_gctrl s = Some c \<and> P c s)"
  "dies_or (put_ctrl f) Q s \<longleftrightarrow> Q () (s\<lparr>srv_gctrl := map_option f (srv_gctrl s)\<rparr>)"
  "dies_or (get_queue i) R s \<longleftrightarrow>
     (\<exists>c. srv_gctrl s = Some c \<and> i < length (c_queues c) \<and> R (c_queues c ! i) s)"
  by (auto simp: get_ctrl_def put_ctrl_def get_queue_def dies_rules split: if_splits)

lemma dies_queue [dies_rules]:
  "dies_or (put_queue i f) P s \<longleftrightarrow>
     (\<exists>c. srv_gctrl s = Some c \<and> i < length (c_queues c)
        \<and> P () (s\<lparr>srv_gctrl := Some (c\<lparr>c_queues := (c_queues c)[i := f (c_queues c ! i)]\<rparr>)\<rparr>))"
  "dies_or (queue_ctrl i) Q s \<longleftrightarrow>
     (\<exists>c. srv_gctrl s = Some c \<and> i < length (c_queues c) \<and> q_has_ctrl (c_queues c ! i) \<and> Q c s)"
  by (auto simp: put_queue_def queue_ctrl_def dies_rules split: if_splits)

lemma dies_or_mono: "dies_or m P s \<Longrightarrow> (\<And>r t. P r t \<Longrightarrow> Q r t) \<Longrightarrow> dies_or m Q s"
  by (auto simp: dies_or_def)

section \<open>The protocol of the connection manager\<close>

text \<open>
  Of \<open>n\<close> queues, \<open>m\<close> have been requested, and \<open>L\<close> are the identifiers that may report events:
  a request brings a new one, a disconnection is the last event of its identifier. Events of
  other kinds may also come on the listener \<open>l\<close>.
\<close>

fun cm_allows :: "cmid \<Rightarrow> nat \<Rightarrow> nat \<times> cmid set \<Rightarrow> cm_event \<Rightarrow> bool" where
  "cm_allows l n (m, L) ev =
     (case ev_kind ev of
        RDMA_CM_EVENT_CONNECT_REQUEST \<Rightarrow> m < n \<and> ev_id ev \<notin> L \<and> ev_id ev \<noteq> l
      | RDMA_CM_EVENT_ESTABLISHED \<Rightarrow> ev_id ev \<in> L
      | RDMA_CM_EVENT_DISCONNECTED \<Rightarrow> ev_id ev \<in> L
      | _ \<Rightarrow> ev_id ev \<in> insert l L)"

fun cm_after :: "cm_event \<Rightarrow> nat \<times> cmid set \<Rightarrow> nat \<times> cmid set" where
  "cm_after ev (m, L) =
     (case ev_kind ev of
        RDMA_CM_EVENT_CONNECT_REQUEST \<Rightarrow> (Suc m, insert (ev_id ev) L)
      | RDMA_CM_EVENT_DISCONNECTED \<Rightarrow> (m, L - {ev_id ev})
      | _ \<Rightarrow> (m, L))"

fun cm_protocol :: "cmid \<Rightarrow> nat \<Rightarrow> nat \<times> cmid set \<Rightarrow> cm_event list \<Rightarrow> bool" where
  "cm_protocol l n a [] = True"
| "cm_protocol l n a (ev # evs) = (cm_allows l n a ev \<and> cm_protocol l n (cm_after ev a) evs)"

section \<open>The invariant\<close>

definition queue_ready :: "srv_queue \<Rightarrow> bool" where
  "queue_ready q \<longleftrightarrow> q_cm_id q \<noteq> None \<and> q_qp q \<noteq> None"

definition ctrl_safe :: "nat \<Rightarrow> nat \<Rightarrow> srv_ctrl \<Rightarrow> bool" where
  "ctrl_safe n m c \<longleftrightarrow> length (c_queues c) = n \<and> (\<forall>i < n. q_has_ctrl (c_queues c ! i))
     \<and> (\<forall>i < m. queue_ready (c_queues c ! i)) \<and> (0 < m \<longrightarrow> c_dev c \<noteq> None)
     \<and> (c_dev c \<noteq> None \<longrightarrow> c_mr c \<noteq> None)"

definition srv_safe :: "cmid \<Rightarrow> nat \<Rightarrow> nat \<times> cmid set \<Rightarrow> srv \<Rightarrow> bool" where
  "srv_safe l n a s \<longleftrightarrow> (\<exists>c. srv_gctrl s = Some c \<and> ctrl_safe n (fst a) c
     \<and> (\<forall>i \<in> snd a. \<exists>j < fst a. id_context s i = Some j \<and> q_cm_id (c_queues c ! j) = Some i))
   \<and> fst a \<le> n \<and> n < 2 ^ 32 \<and> queue_ctr s = of_nat (fst a)
   \<and> l \<notin> snd a \<and> insert l (snd a) \<subseteq> srv_ids s"

text \<open>What the events of other identifiers see of a state.\<close>

definition same_ids :: "srv \<Rightarrow> srv \<Rightarrow> bool" where
  "same_ids s t \<longleftrightarrow> id_context t = id_context s \<and> srv_ids t = srv_ids s \<and> queue_ctr t = queue_ctr s"

lemma get_device_safe:
  assumes "srv_gctrl s = Some c" "i < length (c_queues c)" "q_has_ctrl (c_queues c ! i)"
    and "q_cm_id (c_queues c ! i) \<noteq> None" "c_dev c \<noteq> None \<longrightarrow> c_mr c \<noteq> None"
  shows "dies_or (get_device E i) (\<lambda>d t. same_ids s t \<and> (\<exists>c'. srv_gctrl t = Some c'
    \<and> c_queues c' = c_queues c \<and> d \<noteq> None \<and> c_dev c' = d \<and> c_mr c' \<noteq> None)) s"
  using assms by (auto simp: get_device_def dies_rules same_ids_def)

lemma create_qp_safe:
  assumes "srv_gctrl s = Some c" "i < length (c_queues c)" "q_has_ctrl (c_queues c ! i)"
    and "q_cm_id (c_queues c ! i) = Some cid" "c_dev c \<noteq> None"
  shows "dies_or (create_qp E i) (\<lambda>r t. same_ids s t \<and> srv_gctrl t =
    Some (c\<lparr>c_queues := (c_queues c)[i := (c_queues c ! i)\<lparr>q_qp := Some cid\<rparr>]\<rparr>)) s"
  using assms by (auto simp: create_qp_def dies_rules same_ids_def)

lemma unat_ctr: "srv_safe l n (m, L) s \<Longrightarrow> unat (queue_ctr s) = m"
  by (simp add: srv_safe_def unat_of_small)

text \<open>A request takes the next queue of the array.\<close>

lemma request_safe:
  assumes S: "srv_safe l n (m, L) s" and m: "m < n"
    and new: "cid \<noteq> l"
  shows "dies_or (on_connect_request E cid p) (\<lambda>r. srv_safe l n (Suc m, insert cid L))
    (s\<lparr>srv_ids := insert cid (srv_ids s), id_context := (id_context s)(cid := None)\<rparr>)"
proof -
  obtain c where c: "srv_gctrl s = Some c" "ctrl_safe n m c"
      "\<forall>i \<in> L. \<exists>j < m. id_context s i = Some j \<and> q_cm_id (c_queues c ! j) = Some i"
    using S by (auto simp: srv_safe_def)
  have k: "unat (queue_ctr s) = m" "queue_ctr s + 1 = of_nat (Suc m)" "n < 2 ^ 32" "l \<notin> L" "insert l L \<subseteq> srv_ids s"
    using S unat_ctr [OF S] by (simp_all add: srv_safe_def)
  let ?c1 = "c\<lparr>c_queues := (c_queues c)[m := (c_queues c ! m)\<lparr>q_cm_id := Some cid\<rparr>]\<rparr>"
  let ?s1 = "s\<lparr>srv_ids := insert cid (srv_ids s), queue_ctr := of_nat m + 1,
    id_context := (id_context s)(cid := Some m), srv_gctrl := Some ?c1\<rparr>"
  have len: "length (c_queues c) = n" "\<forall>i < n. q_has_ctrl (c_queues c ! i)"
    "c_dev c \<noteq> None \<longrightarrow> c_mr c \<noteq> None" using c(2) by (simp_all add: ctrl_safe_def)
  have fin: "srv_safe l n (Suc m, insert cid L) t"
    if t: "same_ids ?s1 t" "srv_gctrl t = Some (c2\<lparr>c_queues := (c_queues c2)[m := (c_queues c2 ! m)\<lparr>q_qp := Some cid\<rparr>]\<rparr>)"
      and c2: "c_queues c2 = c_queues ?c1" "c_dev c2 \<noteq> None" "c_mr c2 \<noteq> None" for t c2
  proof -
    have I: "\<exists>j < Suc m. id_context t i = Some j
        \<and> q_cm_id ((c_queues c2)[m := (c_queues c2 ! m)\<lparr>q_qp := Some cid\<rparr>] ! j) = Some i"
      if "i \<in> insert cid L" for i
    proof (cases "i = cid")
      case True
      then show ?thesis using t(1) c2(1) len m by (intro exI [of _ m]) (simp add: same_ids_def)
    next
      case False
      then have "i \<in> L" using that by simp
      then obtain j where "j < m" "id_context s i = Some j" "q_cm_id (c_queues c ! j) = Some i"
        by (rule bspec [OF c(3), elim_format]) (elim exE conjE, simp)
      then show ?thesis using False t(1) c2(1) by (intro exI [of _ j]) (simp add: same_ids_def)
    qed
    have "ctrl_safe n (Suc m) (c2\<lparr>c_queues := (c_queues c2)[m := (c_queues c2 ! m)\<lparr>q_qp := Some cid\<rparr>]\<rparr>)"
      using c(2) c2 m by (auto simp: ctrl_safe_def queue_ready_def nth_list_update less_Suc_eq)
    moreover have "insert l (insert cid L) \<subseteq> srv_ids t" "queue_ctr t = of_nat (Suc m)"
      using t(1) k(5) by (auto simp: same_ids_def)
    ultimately show ?thesis unfolding srv_safe_def using t(2) I k(3,4) new m by simp
  qed
  have dev: "dies_or (get_device E m) (\<lambda>d t. same_ids ?s1 t \<and> (\<exists>c'. srv_gctrl t = Some c'
      \<and> c_queues c' = c_queues ?c1 \<and> d \<noteq> None \<and> c_dev c' = d \<and> c_mr c' \<noteq> None)) ?s1"
    by (rule get_device_safe) (use len m in simp_all)
  have qp: "dies_or (create_qp E m) (\<lambda>r u. d \<noteq> None \<and> (\<forall>x. srv_safe l n (Suc m, insert cid L) (u\<lparr>srv_accepted := x\<rparr>))) t"
    if t: "same_ids ?s1 t" "srv_gctrl t = Some c'" "c_queues c' = c_queues ?c1" "d \<noteq> None" "c_dev c' = d" "c_mr c' \<noteq> None"
    for d t c'
  proof -
    have "dies_or (create_qp E m) (\<lambda>r u. same_ids t u \<and> srv_gctrl u =
        Some (c'\<lparr>c_queues := (c_queues c')[m := (c_queues c' ! m)\<lparr>q_qp := Some cid\<rparr>]\<rparr>)) t"
      by (rule create_qp_safe [OF t(2)]) (use t len m in simp_all)
    then show ?thesis
    proof (rule dies_or_mono)
      fix r u assume u: "same_ids t u \<and> srv_gctrl u =
        Some (c'\<lparr>c_queues := (c_queues c')[m := (c_queues c' ! m)\<lparr>q_qp := Some cid\<rparr>]\<rparr>)"
      have "srv_safe l n (Suc m, insert cid L) (u\<lparr>srv_accepted := x\<rparr>)" for x
        by (rule fin [OF _ _ t(3)]) (use u t in \<open>simp_all add: same_ids_def\<close>)
      then show "d \<noteq> None \<and> (\<forall>x. srv_safe l n (Suc m, insert cid L) (u\<lparr>srv_accepted := x\<rparr>))" using t(4) by blast
    qed
  qed
  have tail: "dies_or (get_device E m) (\<lambda>d. dies_or (create_qp E m)
      (\<lambda>r u. d \<noteq> None \<and> (\<forall>x. srv_safe l n (Suc m, insert cid L) (u\<lparr>srv_accepted := x\<rparr>)))) ?s1"
    by (rule dies_or_mono [OF dev]) (elim conjE exE, rule qp)
  show ?thesis
    unfolding on_connect_request_def using c(1) len(1) m k(1,2)
    by (simp add: dies_rules Let_def)
      (intro impI, rule dies_or_mono [OF tail], erule dies_or_mono, auto simp: dies_rules)
qed

text \<open>Establishment and disconnection find the queue through the context of their identifier.\<close>

lemma live_queue:
  assumes "srv_safe l n (m, L) s" "i \<in> L"
  obtains c j where "srv_gctrl s = Some c" "ctrl_safe n m c" "j < m" "m \<le> n" "id_context s i = Some j"
    "q_cm_id (c_queues c ! j) = Some i"
proof -
  obtain c where c: "srv_gctrl s = Some c" "ctrl_safe n m c"
      "\<forall>i \<in> L. \<exists>j < m. id_context s i = Some j \<and> q_cm_id (c_queues c ! j) = Some i" and m: "m \<le> n"
    using assms(1) by (auto simp: srv_safe_def)
  from bspec [OF c(3) assms(2)] show thesis using that [OF c(1,2) _ m] by (elim exE conjE)
qed

lemma nth_update_keep: "(\<And>x. f (g x) = f x) \<Longrightarrow> f (xs[j := g (xs ! j)] ! i) = f (xs ! i)"
  by (cases "j < length xs"; cases "i = j") (simp_all add: list_update_beyond)

text \<open>A change of a queue's connection state keeps the invariant.\<close>

lemma set_state_safe:
  assumes S: "srv_safe l n (m, L) s" and c: "srv_gctrl s = Some c"
    and L': "L' \<subseteq> L" "insert l L' \<subseteq> srv_ids t"
    and t: "srv_gctrl t = Some (c\<lparr>c_queues := (c_queues c)[j := (c_queues c ! j)\<lparr>q_state := st\<rparr>]\<rparr>)"
      "id_context t = id_context s" "queue_ctr t = queue_ctr s"
  shows "srv_safe l n (m, L') t"
proof -
  let ?q = "(c_queues c)[j := (c_queues c ! j)\<lparr>q_state := st\<rparr>]"
  have q: "q_cm_id (?q ! i) = q_cm_id (c_queues c ! i)" "q_qp (?q ! i) = q_qp (c_queues c ! i)"
    "q_has_ctrl (?q ! i) = q_has_ctrl (c_queues c ! i)" for i
    by (rule nth_update_keep, simp)+
  have "ctrl_safe n m (c\<lparr>c_queues := ?q\<rparr>)"
    using S c by (simp add: srv_safe_def ctrl_safe_def queue_ready_def q)
  moreover have "\<exists>j < m. id_context t i = Some j \<and> q_cm_id (?q ! j) = Some i" if "i \<in> L'" for i
    using live_queue [OF S, of i] that L'(1) c unfolding q t(2) by (metis option.inject subsetD)
  moreover have "l \<notin> L'" using S L'(1) by (auto simp: srv_safe_def)
  ultimately show ?thesis using S L'(2) t unfolding srv_safe_def by simp
qed

lemma established_safe:
  assumes S: "srv_safe l n (m, L) s" and i: "i \<in> L"
  shows "dies_or (on_connection E (id_context s i)) (\<lambda>r. srv_safe l n (m, L)) s"
proof -
  obtain c j where c: "srv_gctrl s = Some c" "ctrl_safe n m c" "j < m" "m \<le> n" "id_context s i = Some j"
      "q_cm_id (c_queues c ! j) = Some i"
    using live_queue [OF S i] .
  then have j: "j < length (c_queues c)" "q_has_ctrl (c_queues c ! j)" "\<exists>v. c_mr c = Some v"
      "\<exists>v. q_qp (c_queues c ! j) = Some v"
    by (auto simp: ctrl_safe_def queue_ready_def)
  have "insert l L \<subseteq> srv_ids s" using S by (simp add: srv_safe_def)
  then have "srv_safe l n (m, L) (s\<lparr>srv_sent := x,
      srv_gctrl := Some (c\<lparr>c_queues := (c_queues c)[j := (c_queues c ! j)\<lparr>q_state := CONNECTED\<rparr>]\<rparr>)\<rparr>)" for x
    by (intro set_state_safe [OF S c(1) order_refl]) simp_all
  from this [of "srv_sent s"] this show ?thesis
    using c(1,5) j by (auto simp: on_connection_def dies_rules)
qed

lemma disconnect_safe:
  assumes S: "srv_safe l n (m, L) s" and i: "i \<in> L"
  shows "dies_or (on_disconnect (id_context s i)) (\<lambda>r. srv_safe l n (m, L - {i})) s"
proof -
  obtain c j where c: "srv_gctrl s = Some c" "ctrl_safe n m c" "j < m" "m \<le> n" "id_context s i = Some j"
      "q_cm_id (c_queues c ! j) = Some i"
    using live_queue [OF S i] .
  have l: "insert l L \<subseteq> srv_ids s" "l \<notin> L" using S by (simp_all add: srv_safe_def)
  have j: "j < length (c_queues c)" using c(2-4) by (simp add: ctrl_safe_def)
  have "srv_safe l n (m, L - {i}) s"
    by (rule set_state_safe [OF S c(1), where j = j and st = "q_state (c_queues c ! j)"]) (use l c(1) in auto)
  moreover have "srv_safe l n (m, L - {i}) (s\<lparr>srv_gctrl :=
      Some (c\<lparr>c_queues := (c_queues c)[j := (c_queues c ! j)\<lparr>q_state := INIT\<rparr>]\<rparr>),
      srv_qps := srv_qps s - {i}, srv_ids := srv_ids s - {i}\<rparr>)"
    by (rule set_state_safe [OF S c(1), where j = j and st = INIT]) (use l i in auto)
  ultimately show ?thesis using c j by (simp add: on_disconnect_def dies_rules)
qed

text \<open>Every event keeps the invariant or ends the program.\<close>

lemma event_safe:
  assumes S: "srv_safe (listener_id E) n a s" and ev: "cm_allows (listener_id E) n a ev"
  shows "dies_or (kthen (get_cm_event ev) (on_event E ev)) (\<lambda>r. srv_safe (listener_id E) n (cm_after ev a)) s"
proof -
  obtain m L where a: "a = (m, L)" by (cases a)
  have live: "insert (listener_id E) L \<subseteq> srv_ids s" using S by (simp add: srv_safe_def a)
  show ?thesis
  proof (cases "ev_kind ev = RDMA_CM_EVENT_CONNECT_REQUEST")
    case True
    then have r: "dies_or (on_connect_request E (ev_id ev) (ev_param ev))
        (\<lambda>r. srv_safe (listener_id E) n (Suc m, insert (ev_id ev) L))
        (s\<lparr>srv_ids := insert (ev_id ev) (srv_ids s), id_context := (id_context s)(ev_id ev := None)\<rparr>)"
      using request_safe [OF S [unfolded a]] ev by (simp add: a)
    with True show ?thesis by (simp add: a get_cm_event_def on_event_def dies_rules)
  next
    case False
    then have "ev_id ev \<in> srv_ids s" using ev live by (auto simp: a split: rdma_cm_event.splits)
    then show ?thesis
      using False ev S established_safe [OF S [unfolded a], of "ev_id ev" E]
        disconnect_safe [OF S [unfolded a], of "ev_id ev"]
      by (cases "ev_kind ev") (simp_all add: a get_cm_event_def on_event_def dies_rules)
  qed
qed

section \<open>The program\<close>

text \<open>What a loop leaves: the invariant, and events that still follow the protocol.\<close>

definition goes_on :: "srv_env \<Rightarrow> nat \<Rightarrow> cm_event list \<Rightarrow> srv \<Rightarrow> bool" where
  "goes_on E n evs s \<longleftrightarrow> (\<exists>a. srv_safe (listener_id E) n a s \<and> cm_protocol (listener_id E) n a evs)"

lemma goes_on_event:
  assumes "goes_on E n (ev # evs) s"
  shows "dies_or (get_cm_event ev) (\<lambda>r. dies_or (on_event E ev) (\<lambda>r. goes_on E n evs)) s"
proof -
  obtain a where "srv_safe (listener_id E) n a s" "cm_allows (listener_id E) n a ev"
      "cm_protocol (listener_id E) n (cm_after ev a) evs"
    using assms by (auto simp: goes_on_def)
  then have "dies_or (kthen (get_cm_event ev) (on_event E ev)) (\<lambda>r. goes_on E n evs) s"
    unfolding goes_on_def by (intro dies_or_mono [OF event_safe [of E n a s ev]]) blast+
  then show ?thesis by (simp add: dies_kthen)
qed

lemma goes_on_Nil: "goes_on E n evs s \<Longrightarrow> goes_on E n [] s"
  by (auto simp: goes_on_def)

lemma goes_on_queue: "goes_on E n evs s \<Longrightarrow> i < n \<Longrightarrow> dies_or (get_queue i) (\<lambda>q. (=) s) s"
  by (auto simp: goes_on_def srv_safe_def ctrl_safe_def dies_rules)

lemma serve_queue_safe:
  "goes_on E n evs s \<Longrightarrow> i < n \<Longrightarrow> dies_or (serve_queue E i evs) (goes_on E n) s"
proof (induction evs arbitrary: s)
  case (Cons ev evs)
  have "dies_or (if r \<noteq> 0 then kret evs
       else kbind (get_queue i) (\<lambda>q. if q_state q = CONNECTED then kret evs else serve_queue E i evs)) (goes_on E n) t"
    if "goes_on E n evs t" for r :: int and t
    using that Cons.IH [OF that Cons.prems(2)] goes_on_queue [OF that Cons.prems(2)]
    by (auto simp: dies_rules)
  then show ?case
    using goes_on_event [OF Cons.prems(1)]
    by (simp add: dies_kthen dies_kbind) (erule dies_or_mono, erule dies_or_mono, simp)
qed (simp add: dies_rules)

lemma serve_queues_safe:
  "goes_on E n evs s \<Longrightarrow> i + k \<le> n \<Longrightarrow> dies_or (serve_queues E i k evs) (goes_on E n) s"
proof (induction k arbitrary: i evs s)
  case (Suc k)
  have "dies_or (serve_queue E i evs) (goes_on E n) s" using serve_queue_safe Suc.prems by simp
  then show ?case by (simp add: dies_kbind) (erule dies_or_mono, use Suc in simp)
qed (simp add: dies_rules)

lemma serve_rest_safe:
  "goes_on E n evs s \<Longrightarrow> dies_or (serve_rest E evs) (\<lambda>r. goes_on E n []) s"
proof (induction evs arbitrary: s)
  case (Cons ev evs)
  have "dies_or (if r \<noteq> 0 then kret () else serve_rest E evs) (\<lambda>r. goes_on E n []) t"
    if "goes_on E n evs t" for r :: int and t
    using goes_on_Nil [OF that] Cons.IH [OF that] by (auto simp: dies_rules)
  then show ?case
    using goes_on_event [OF Cons.prems(1)]
    by (simp add: dies_kthen dies_kbind) (erule dies_or_mono, erule dies_or_mono, simp)
qed (simp add: dies_rules)

lemma start_safe:
  assumes "queue_ctr s = 0"
  shows "dies_or (main_connect E port) (\<lambda>r t. NUM_QUEUES t = NUM_QUEUES s
    \<and> srv_safe (listener_id E) (unat (NUM_QUEUES s)) (0, {}) t) s"
proof -
  have "unat (NUM_QUEUES s) < 2 ^ 32" using unsigned_less [of "NUM_QUEUES s", where 'a = nat] by simp
  then show ?thesis
    using assms
    by (auto simp: main_connect_def alloc_control_def dies_rules srv_safe_def ctrl_safe_def zero_srv_ctrl_def)
qed

lemma finish_safe:
  "goes_on E n [] s \<Longrightarrow> dies_or (kthen (kmodify (\<lambda>s. s\<lparr>srv_ids := srv_ids s - {listener_id E}\<rparr>))
     (kthen (destroy_device E) (kret 0))) (\<lambda>r t. r = 0) s"
  by (auto simp: goes_on_def srv_safe_def destroy_device_def dies_rules)



end
