(* ===== verification/Handshake.thy ===== *)
theory Handshake
  imports Rdma_Setup_Props Rmserver_Props
begin

text \<open>
  The connection of client and server. The client lists the connections it asks for
  (\<open>connects\<close>, one entry per successful \<open>rdma_connect\<close>); the connection manager turns each
  into a request event at the server, and reports the establishment of a connection some time
  after the server has accepted it. The lemmas lead from what the client has asked for to what
  the server handles.
\<close>

section \<open>From the client's requests to the server's events\<close>

text \<open>
  What the other side sees of a connection request. Each side reads of the two limits on
  outstanding reads the one its peer has set: what the client may start is what the server has to
  serve, and the other way round.
\<close>

definition peer_param :: "conn_request \<Rightarrow> conn_param" where
  "peer_param p =
     \<lparr>initiator_depth = responder_resources p, responder_resources = initiator_depth p,
      rnr_retry_count = rnr_retry_count p, flow_control = flow_control p\<rparr>"

abbreviation at_server :: "(nat \<Rightarrow> cmid) \<Rightarrow> nat \<times> conn_request \<Rightarrow> cmid \<times> conn_param" where
  "at_server sid c \<equiv> (sid (fst c), peer_param (snd c))"

text \<open>
  The events are requests and establishments, and a connection is established once, after its
  request.
\<close>

fun est_ok :: "asrv \<Rightarrow> cm_event list \<Rightarrow> bool" where
  "est_ok a [] = True"
| "est_ok a (ev # evs) =
     ((ev_kind ev = RDMA_CM_EVENT_CONNECT_REQUEST
       \<or> ev_kind ev = RDMA_CM_EVENT_ESTABLISHED \<and> ev_id ev \<in> set (fst a) \<and> ev_id ev \<notin> snd a)
      \<and> est_ok (ev_step ev a) evs)"

text \<open>
  The server sees the client's requests, in the order in which the client makes them, and the
  establishment of the first.
\<close>

definition handshake :: "(nat \<Rightarrow> cmid) \<Rightarrow> (nat \<times> conn_request) list \<Rightarrow> cm_event list \<Rightarrow> bool" where
  "handshake sid conns evs \<longleftrightarrow> requests evs = map (at_server sid) conns \<and> est_ok ([], {}) evs
     \<and> (\<exists>e \<in> set evs. ev_kind e = RDMA_CM_EVENT_ESTABLISHED \<and> ev_id e = sid (fst (hd conns)))"

lemma est_ok_evs_ok:
  "est_ok a evs \<Longrightarrow> distinct (fst a @ map fst (requests evs)) \<Longrightarrow> l \<notin> fst ` set (requests evs) \<Longrightarrow>
   length (fst a) + length (requests evs) \<le> n \<Longrightarrow> evs_ok l n a evs"
proof (induction evs arbitrary: a)
  case (Cons ev evs)
  obtain ids est where a: "a = (ids, est)" by (cases a)
  show ?case using Cons by (cases "ev_kind ev = RDMA_CM_EVENT_CONNECT_REQUEST") (auto simp: a)
qed simp

lemma fold_ev_step_est:
  "snd (fold ev_step evs a) = snd a \<union> {ev_id e |e. e \<in> set evs \<and> ev_kind e \<noteq> RDMA_CM_EVENT_CONNECT_REQUEST}"
proof (induction evs arbitrary: a)
  case (Cons ev evs)
  obtain ids est where a: "a = (ids, est)" by (cases a)
  show ?case using Cons by (auto simp: a)
qed simp

lemma handshake_served:
  assumes "handshake sid conns evs" "conns \<noteq> []" "length conns \<le> n" "inj sid" "l \<notin> range sid"
    and "distinct (map fst conns)"
  shows "\<exists>ids est. evs_ok l n ([], {}) evs \<and> fold ev_step evs ([], {}) = (ids, est)
    \<and> ids = map (sid \<circ> fst) conns \<and> hd ids \<in> est \<and> requests evs \<noteq> []
    \<and> requests evs = map (at_server sid) conns"
proof -
  have r: "requests evs = map (at_server sid) conns" and o: "est_ok ([], {}) evs"
    using assms(1) by (simp_all add: handshake_def)
  have i: "map fst (requests evs) = map sid (map fst conns)" by (simp add: r)
  have "distinct (map fst (requests evs))"
    using assms(4,6) by (simp add: r distinct_map comp_def inj_on_def)
  moreover have "l \<notin> fst ` set (requests evs)" using assms(5) by (auto simp: r)
  ultimately have ok: "evs_ok l n ([], {}) evs"
    using est_ok_evs_ok [OF o, of l n] assms(3) r by simp
  obtain ids est where f: "fold ev_step evs ([], {}) = (ids, est)" by fastforce
  have ids: "ids = map (sid \<circ> fst) conns"
    using fold_ev_step_ids [of evs "([], {})"] f i by simp
  have "hd ids = sid (fst (hd conns))" using assms(2) by (simp add: ids hd_map)
  then have "hd ids \<in> est"
    using assms(1) fold_ev_step_est [of evs "([], {})"] f by (auto simp: handshake_def)
  then show ?thesis using ok f ids assms(2) r by simp
qed

text \<open>
  The server on the events of a handshake: it accepts the client's requests and sends its region
  on the client's first connection.
\<close>

lemma handshake_run:
  assumes "srv_good S" "args_ok argv" "handshake sid conns evs" "conns \<noteq> []"
    and "length conns \<le> srv_queues_for (argv ! 3)" "inj sid" "listener_id S \<notin> range sid"
    and "distinct (map fst conns)"
  shows "\<exists>srv. main S argv evs srv_start = Ret 0 srv \<and> srv_accepted srv = map (at_server sid) conns
    \<and> srv_sent srv = [(sid (fst (hd conns)), memregion_bytes (srv_region S (srv_size_for (argv ! 2))))]"
proof -
  obtain ids est where e: "evs_ok (listener_id S) (srv_queues_for (argv ! 3)) ([], {}) evs"
      "fold ev_step evs ([], {}) = (ids, est)" "ids = map (sid \<circ> fst) conns" "hd ids \<in> est"
      "requests evs \<noteq> []" "requests evs = map (at_server sid) conns"
    using handshake_served [OF assms(3-8)] by blast
  obtain s2 c' where run: "main S argv evs srv_start = Ret 0 (s2\<lparr>srv_ids := srv_ids s2 - {listener_id S},
        srv_mrs := 0, srv_bufs := 0, srv_pds := 0, srv_devs := 0, srv_gctrl := Some c'\<rparr>)"
      "srv_rel S (srv_queues_for (argv ! 3)) (ids, est) s2" "BUFFER_SIZE s2 = srv_size_for (argv ! 2)"
      "srv_accepted s2 = requests evs" "ids \<noteq> []"
    using server_run [OF assms(1,2) e(5,1,2)] by blast
  have "hd ids = sid (fst (hd conns))" using assms(4) by (simp add: e(3) hd_map)
  then show ?thesis using run e(4,6) by (simp add: srv_rel_def)
qed

text \<open>The simplest such run: every connection is established before the next is asked for.\<close>

lemma requests_in_order: "requests (in_order cs) = cs"
  by (induction cs rule: in_order.induct) simp_all

lemma in_order_est_ok:
  "distinct (ids @ map fst cs) \<Longrightarrow> est_ok (ids, set ids) (in_order cs)"
proof (induction cs arbitrary: ids)
  case (Cons c cs)
  obtain i p where c: "c = (i, p)" by (cases c)
  show ?case using Cons.IH [of "ids @ [i]"] Cons.prems by (simp add: c)
qed simp

lemma in_order_handshake:
  assumes "conns \<noteq> []" "inj sid" "distinct (map fst conns)"
  shows "handshake sid conns (in_order (map (at_server sid) conns))"
proof -
  have "distinct (map fst (map (at_server sid) conns))"
    using assms(2,3) by (simp add: distinct_map comp_def inj_on_def)
  moreover have "\<exists>e \<in> set (in_order (map (at_server sid) conns)).
      ev_kind e = RDMA_CM_EVENT_ESTABLISHED \<and> ev_id e = sid (fst (hd conns))"
    using assms(1) by (cases conns) simp_all
  ultimately show ?thesis
    using in_order_est_ok [of "[]"] by (simp add: handshake_def requests_in_order)
qed

text \<open>A loaded client has asked for one connection per queue, all with different identifiers.\<close>

lemma client_connects:
  assumes "cm_good C" "mem_ok (base_env C)" "recv_delivers (base_env C) 0" "fresh_module s"
    and "sswap_rdma_init_module C s = Ret 0 s1"
  shows "\<exists>cids. connects s1 = map conn_of cids \<and> distinct cids \<and> length cids = nat (num_online_cpus C * 3)
    \<and> cids \<noteq> []"
proof -
  obtain cids s' where "sswap_rdma_init_module C s = Ret 0 s'" "distinct cids"
      "length cids = nat (num_online_cpus C * 3)" "connects s' = map conn_of cids"
    using init_module_ok [OF assms(1-4)] by blast
  moreover have "0 < num_online_cpus C" using assms(1) by (simp add: cm_good_def cm_ok_def)
  ultimately show ?thesis using assms(5) by (intro exI [of _ cids]) auto
qed

end
