(* ===== verification/Kernel_Swap.thy ===== *)
theory Kernel_Swap
  imports Fastswap
begin

text \<open>
  The swap-in path of the kernel as \<open>src/code/kernel/kernel.patch\<close> changes it: the faulting
  page is read synchronously through frontswap, the pages around it asynchronously, and then
  the processor that issued the first read is polled. The functions of the unpatched kernel
  that the patch only calls are fields of \<open>swap_kernel\<close>; what the path relies on of them is
  \<open>kernel_ok\<close>. The backend's part of the contract is the locale \<open>paging_backend\<close>.
\<close>

section \<open>The kernel around the patch\<close>

record swp_entry =
  swp_type :: u32
  swp_offset :: u64

text \<open>
  \<open>sk_ops\<close> is the list of registered implementations, \<open>sk_test\<close> the bitmap of the pages that
  frontswap holds (\<open>__frontswap_test\<close>), \<open>sk_entry\<close> the entry in \<open>page_private\<close> of a page of the
  swap cache. \<open>sk_cache_page\<close> is \<open>__read_swap_cache_async\<close>: the page of an entry and whether
  it was allocated by this call. \<open>sk_read_async\<close> is \<open>read_swap_cache_async\<close>, given the function
  it reads a page with. \<open>sk_window\<close> is the range of offsets read around a fault, given its
  offset and mask. \<open>sk_resume\<close> is what the scheduler does to the task when preemption is
  enabled again: it may go on on another processor.
\<close>

record 's swap_kernel =
  sk_debug_vm :: bool
  sk_enabled :: bool
  sk_ops :: "'s frontswap_ops list"
  sk_swap_info :: "u32 \<Rightarrow> bool"
  sk_test :: "u32 \<Rightarrow> u64 \<Rightarrow> bool"
  sk_entry :: "pfn \<Rightarrow> swp_entry"
  sk_frontswap_load :: "pfn \<Rightarrow> ('s, int) kmon"
  sk_device_read :: "pfn \<Rightarrow> ('s, int) kmon"
  sk_cache_page :: "swp_entry \<Rightarrow> ('s, pfn option \<times> bool) kmon"
  sk_read_async :: "(pfn \<Rightarrow> ('s, int) kmon) \<Rightarrow> swp_entry \<Rightarrow> ('s, pfn option) kmon"
  sk_nr_pages :: "u64 \<Rightarrow> u64"
  sk_window :: "u64 \<Rightarrow> u64 \<Rightarrow> u64 \<times> u64"
  sk_processor_id :: "'s \<Rightarrow> int"
  sk_resume :: "'s \<Rightarrow> 's"

definition vm_bug_on :: "bool \<Rightarrow> bool \<Rightarrow> ('s, unit) kmon" where
  "vm_bug_on debug_vm cond = (if debug_vm \<and> cond then kcrash VM_BUG else kret ())"

lemma vm_bug_on_pass [simp]: "\<not> c \<Longrightarrow> vm_bug_on d c = kret ()"
  by (simp add: vm_bug_on_def)

section \<open>Frontswap\<close>

text \<open>The loop over the implementations, with the last result.\<close>

primrec load_async_each :: "'s frontswap_ops list \<Rightarrow> u32 \<Rightarrow> u64 \<Rightarrow> pfn \<Rightarrow> int \<Rightarrow> ('s, int) kmon" where
  "load_async_each [] ty off page ret = kret ret"
| "load_async_each (ops # rest) ty off page ret =
     kbind (fo_load_async ops ty off page) (\<lambda>ret.
     if ret = 0 then kret ret else load_async_each rest ty off page ret)"

text \<open>\<open>__frontswap_load_async\<close> and \<open>__frontswap_poll_load\<close>; the count of loads is not kept.\<close>

definition frontswap_load_async_impl ::
    "'a kmem_scheme swap_kernel \<Rightarrow> pfn \<Rightarrow> ('a kmem_scheme, int) kmon" where
  "frontswap_load_async_impl K page =
     (let ty = swp_type (sk_entry K page); off = swp_offset (sk_entry K page) in
      kthen (vm_bug_on (sk_debug_vm K) (sk_ops K = []))
     (kthen (vm_bug_on_page (sk_debug_vm K) (\<lambda>pg. \<not> PageLocked pg) page)
     (kthen (vm_bug_on (sk_debug_vm K) (\<not> sk_swap_info K ty))
     (if \<not> sk_test K ty off then kret (-1)
      else load_async_each (sk_ops K) ty off page (-1)))))"

text \<open>The loop returns in its first iteration: only the first implementation is polled.\<close>

definition frontswap_poll_load_impl :: "'s swap_kernel \<Rightarrow> int \<Rightarrow> ('s, int) kmon" where
  "frontswap_poll_load_impl K cpu =
     kthen (vm_bug_on (sk_debug_vm K) (sk_ops K = []))
    (case sk_ops K of
       [] \<Rightarrow> kcrash BUG
     | ops # _ \<Rightarrow> fo_poll_load ops cpu)"

definition frontswap_load_async ::
    "'a kmem_scheme swap_kernel \<Rightarrow> pfn \<Rightarrow> ('a kmem_scheme, int) kmon" where
  "frontswap_load_async K page = (if sk_enabled K then frontswap_load_async_impl K page else kret (-1))"

definition frontswap_poll_load :: "'s swap_kernel \<Rightarrow> int \<Rightarrow> ('s, int) kmon" where
  "frontswap_poll_load K cpu = (if sk_enabled K then frontswap_poll_load_impl K cpu else kret (-1))"

section \<open>Reading a page\<close>

definition check_swap_page :: "bool \<Rightarrow> pfn \<Rightarrow> ('a kmem_scheme, unit) kmon" where
  "check_swap_page debug_vm page =
     kthen (vm_bug_on_page debug_vm (\<lambda>pg. \<not> PageSwapCache pg) page)
    (kthen (vm_bug_on_page debug_vm (\<lambda>pg. \<not> PageLocked pg) page)
           (vm_bug_on_page debug_vm PageUptodate page))"

text \<open>
  A page that frontswap does not hold is read from the swap device, which is the unpatched
  code of \<open>swap_readpage\<close>.
\<close>

definition swap_readpage :: "'a kmem_scheme swap_kernel \<Rightarrow> pfn \<Rightarrow> ('a kmem_scheme, int) kmon" where
  "swap_readpage K page =
     kthen (check_swap_page (sk_debug_vm K) page)
    (kbind (frontswap_load_async K page) (\<lambda>r.
     if r = 0 then kret 0 else sk_device_read K page))"

definition swap_readpage_sync :: "'a kmem_scheme swap_kernel \<Rightarrow> pfn \<Rightarrow> ('a kmem_scheme, int) kmon" where
  "swap_readpage_sync K page =
     kthen (check_swap_page (sk_debug_vm K) page)
    (kbind (sk_frontswap_load K page) (\<lambda>r.
     kthen (bug_on (r \<noteq> 0)) (kret 0)))"

text \<open>Reading an entry through the swap cache with the reader \<open>rd\<close>.\<close>

definition read_cached ::
    "'s swap_kernel \<Rightarrow> (pfn \<Rightarrow> ('s, int) kmon) \<Rightarrow> swp_entry \<Rightarrow> ('s, pfn option) kmon" where
  "read_cached K rd entry =
     kbind (sk_cache_page K entry) (\<lambda>(retpage, page_was_allocated).
     if page_was_allocated
     then (case retpage of
             None \<Rightarrow> kcrash NullDeref
           | Some page \<Rightarrow> kthen (rd page) (kret retpage))
     else kret retpage)"

definition read_swap_cache_sync ::
    "'a kmem_scheme swap_kernel \<Rightarrow> swp_entry \<Rightarrow> ('a kmem_scheme, pfn option) kmon" where
  "read_swap_cache_sync K entry = read_cached K (swap_readpage_sync K) entry"

section \<open>A page fault\<close>

text \<open>
  One iteration of the read-ahead. \<open>SetPageReadahead\<close> and the reference that \<open>put_page\<close>
  gives back are not part of the page's state here.
\<close>

definition readahead_step ::
    "'a kmem_scheme swap_kernel \<Rightarrow> swp_entry \<Rightarrow> u64 \<Rightarrow> ('a kmem_scheme, u64) kmon" where
  "readahead_step K entry offset =
     (if offset = swp_offset entry then kret (offset + 1)
      else kbind (sk_read_async K (swap_readpage K) \<lparr>swp_type = swp_type entry, swp_offset = offset\<rparr>)
             (\<lambda>page. kret (offset + 1)))"

definition readahead ::
    "'a kmem_scheme swap_kernel \<Rightarrow> swp_entry \<Rightarrow> ('a kmem_scheme, unit) kmon" where
  "readahead K entry =
     (let cmask = sk_nr_pages K (swp_offset entry) - 1 in
      if cmask = 0 then kret ()
      else let (start_offset, end_offset) = sk_window K (swp_offset entry) cmask;
               first = (if start_offset = 0 then start_offset + 1 else start_offset)
           in kthen (whileK (\<lambda>offset s. offset \<le> end_offset) (readahead_step K entry) first) (kret ()))"

definition swapin_readahead ::
    "'a kmem_scheme swap_kernel \<Rightarrow> swp_entry \<Rightarrow> ('a kmem_scheme, pfn option) kmon" where
  "swapin_readahead K entry =
     kbind (kgets (sk_processor_id K)) (\<lambda>cpu.
     kbind (read_swap_cache_sync K entry) (\<lambda>faultpage.
     kthen (kmodify (sk_resume K))
    (kthen (readahead K entry)
    (kthen (frontswap_poll_load K cpu)
    (kret faultpage)))))"

section \<open>What the path relies on\<close>

text \<open>
  The unpatched kernel, with one registered implementation: \<open>frontswap_load\<close> of a page that
  frontswap holds calls the implementation; \<open>read_swap_cache_async\<close> reads the page of an entry
  if it had to allocate it; the window of the read-ahead ends before the last offset, so
  that the counter does not wrap around.
\<close>

definition kernel_ok :: "'a kmem_scheme backend_ops \<Rightarrow> u32 \<Rightarrow> 'a kmem_scheme swap_kernel \<Rightarrow> bool" where
  "kernel_ok B ty K \<longleftrightarrow>
     sk_enabled K \<and> sk_ops K = [sswap_frontswap_ops B] \<and> sk_swap_info K ty
   \<and> (\<forall>page. sk_test K (swp_type (sk_entry K page)) (swp_offset (sk_entry K page)) \<longrightarrow>
        sk_frontswap_load K page =
          sswap_load B (swp_type (sk_entry K page)) (swp_offset (sk_entry K page)) page)
   \<and> sk_read_async K = read_cached K
   \<and> (\<forall>off cmask. snd (sk_window K off cmask) < - 1)"

text \<open>
  The swap cache for area \<open>ty\<close>: it gives no page, a page it has, or a new one, which was not
  in the swap cache and is entered there locked and not yet valid. An entry that is in use
  is held by frontswap and lies inside the \<open>cap\<close> bytes of far memory.
\<close>

definition cache_result ::
    "u64 \<Rightarrow> 'a kmem_scheme swap_kernel \<Rightarrow> swp_entry \<Rightarrow> 'a kmem_scheme \<Rightarrow> pfn option \<times> bool
      \<Rightarrow> 'a kmem_scheme \<Rightarrow> bool" where
  "cache_result cap K entry s r s' \<longleftrightarrow>
     (case r of
        (p, False) \<Rightarrow> s' = s
      | (None, True) \<Rightarrow> False
      | (Some p, True) \<Rightarrow>
          \<not> PageSwapCache (frames s p) \<and> (\<exists>v. read_target v \<and> s' = set_frame p v s)
        \<and> sk_entry K p = entry \<and> sk_test K (swp_type entry) (swp_offset entry)
        \<and> slot_fits cap (swp_offset entry))"

definition cache_ok :: "u64 \<Rightarrow> u32 \<Rightarrow> 'a kmem_scheme swap_kernel \<Rightarrow> bool" where
  "cache_ok cap ty K \<longleftrightarrow>
     (\<forall>off s. \<exists>r s'. sk_cache_page K \<lparr>swp_type = ty, swp_offset = off\<rparr> s = Ret r s'
        \<and> cache_result cap K \<lparr>swp_type = ty, swp_offset = off\<rparr> s r s')"

lemma unat_less_max: "x < - 1 \<Longrightarrow> unat (x + 1) = unat x + 1" for x :: u64
proof -
  assume x: "x < - 1"
  have "unat (- 1 :: u64) < 2 ^ 64" using unsigned_less [of "- 1 :: u64", where 'a = nat] by simp
  then have "unat x + 1 < 2 ^ 64" using x by (simp add: word_less_nat_alt)
  then show ?thesis by (simp add: unat_word_ariths)
qed

lemma kernel_okD:
  assumes "kernel_ok B ty K"
  shows "sk_enabled K" "sk_ops K = [sswap_frontswap_ops B]" "sk_swap_info K ty"
    "sk_read_async K = read_cached K" "snd (sk_window K off cmask) < - 1"
    "sk_entry K p = \<lparr>swp_type = ty', swp_offset = i\<rparr> \<Longrightarrow> sk_test K ty' i \<Longrightarrow>
     sk_frontswap_load K p = sswap_load B ty' i p"
proof -
  have "sk_test K (swp_type (sk_entry K p)) (swp_offset (sk_entry K p)) \<longrightarrow>
        sk_frontswap_load K p = sswap_load B (swp_type (sk_entry K p)) (swp_offset (sk_entry K p)) p"
    using assms unfolding kernel_ok_def by blast
  then show "sk_entry K p = \<lparr>swp_type = ty', swp_offset = i\<rparr> \<Longrightarrow> sk_test K ty' i \<Longrightarrow>
     sk_frontswap_load K p = sswap_load B ty' i p" by simp
qed (use assms in \<open>auto simp: kernel_ok_def\<close>)

lemma check_swap_page_pass [simp]:
  "read_target (frames s p) \<Longrightarrow> check_swap_page d p s = Ret () s"
  by (simp add: check_swap_page_def read_target_def)

lemma swap_readpage_calls:
  assumes K: "kernel_ok B ty K" and rt: "read_target (frames s p)"
    and e: "sk_entry K p = \<lparr>swp_type = ty, swp_offset = i\<rparr>" "sk_test K ty i"
    and run: "be_read_async B p (page_off i) s = Ret 0 s'"
  shows "swap_readpage K p s = Ret 0 s'"
proof -
  have "frontswap_load_async K p s = Ret 0 s'"
    using kernel_okD [OF K] rt e run
    by (simp add: frontswap_load_async_def frontswap_load_async_impl_def sswap_frontswap_ops_def
        sswap_load_async_def read_target_def)
  then show ?thesis using rt by (simp add: swap_readpage_def)
qed

lemma swap_readpage_sync_calls:
  assumes K: "kernel_ok B ty K" and rt: "read_target (frames s p)"
    and e: "sk_entry K p = \<lparr>swp_type = ty, swp_offset = i\<rparr>" "sk_test K ty i"
    and run: "be_read_sync B p (page_off i) s = Ret 0 s'"
  shows "swap_readpage_sync K p s = Ret 0 s'"
  using kernel_okD(6) [OF K e] rt run by (simp add: swap_readpage_sync_def sswap_load_def)

lemma poll_load_calls: "kernel_ok B ty K \<Longrightarrow> frontswap_poll_load K cpu = be_poll_load B cpu"
  by (rule ext) (simp add: frontswap_poll_load_def frontswap_poll_load_impl_def kernel_okD
      sswap_frontswap_ops_def sswap_poll_load_def)

text \<open>
  Without read-ahead, on a processor that the task does not leave, a fault on a page that is
  not in the swap cache is the pair of calls by which \<open>Fastswap\<close> specifies a load.
\<close>

lemma swapin_without_readahead:
  assumes K: "kernel_ok B ty K" and one: "sk_nr_pages K i = 1" and stay: "sk_resume K = (\<lambda>s. s)"
    and c: "sk_cache_page K \<lparr>swp_type = ty, swp_offset = i\<rparr> s = Ret (Some p, True) s0"
    and rt: "read_target (frames s0 p)" and e: "sk_entry K p = \<lparr>swp_type = ty, swp_offset = i\<rparr>" "sk_test K ty i"
    and cpu: "sk_processor_id K s0 = sk_processor_id K s"
  shows "swapin_readahead K \<lparr>swp_type = ty, swp_offset = i\<rparr> s =
    kthen (swap_load_page B (sk_processor_id K) ty i p) (kret (Some p)) s0"
proof -
  have r: "readahead K \<lparr>swp_type = ty, swp_offset = i\<rparr> = kret ()" by (simp add: readahead_def one)
  have "read_swap_cache_sync K \<lparr>swp_type = ty, swp_offset = i\<rparr> s =
      kbind (sswap_load B ty i p) (\<lambda>r. kthen (bug_on (r \<noteq> 0)) (kret (Some p))) s0"
    using kernel_okD(6) [OF K e] rt c
    by (simp add: read_swap_cache_sync_def read_cached_def swap_readpage_sync_def)
      (simp add: kthen_def kbind_def bug_on_def split: option.splits sum.splits)
  then show ?thesis
    by (simp add: swapin_readahead_def swap_load_page_def poll_load_calls [OF K] stay cpu r
        sswap_poll_load_def kthen_def kbind_def bug_on_def split: option.splits sum.splits)
qed

section \<open>The contract of a backend with asynchronous reads\<close>

text \<open>
  A step keeps the invariant, far memory, and what earlier reads promised of pages in the
  swap cache.
\<close>

definition backend_keeps ::
    "('s \<Rightarrow> bool) \<Rightarrow> ('s \<Rightarrow> u64 \<Rightarrow> page_data)
      \<Rightarrow> (int \<Rightarrow> pfn \<Rightarrow> u64 \<Rightarrow> page_data \<Rightarrow> page \<Rightarrow> 's \<Rightarrow> bool) \<Rightarrow> 's \<Rightarrow> 's \<Rightarrow> bool" where
  "backend_keeps ok far lands s s' \<longleftrightarrow> ok s' \<and> far s' = far s
     \<and> (\<forall>k p off v g. PageSwapCache g \<longrightarrow> lands k p off v g s \<longrightarrow> lands k p off v g s')"

text \<open>
  \<open>lands k p off v g s\<close>: the page \<open>p\<close>, handed over as \<open>g\<close>, has been or will be filled with \<open>v\<close>,
  the contents of far memory at \<open>off\<close>, by a transfer on the queue that a poll of \<open>k\<close> waits for.
  \<open>cpus\<close> are the processors, \<open>move\<close> takes the task to another one, \<open>idle\<close> says that no transfer
  refers to a page.
\<close>

locale paging_backend =
  fixes B :: "'a kmem_scheme backend_ops"
    and inv :: "'a kmem_scheme \<Rightarrow> bool"
    and far :: "'a kmem_scheme \<Rightarrow> u64 \<Rightarrow> page_data"
    and cap :: u64
    and cpus :: "int set"
    and cpu_of :: "'a kmem_scheme \<Rightarrow> int"
    and move :: "int \<Rightarrow> 'a kmem_scheme \<Rightarrow> 'a kmem_scheme"
    and idle :: "'a kmem_scheme \<Rightarrow> pfn \<Rightarrow> bool"
    and lands :: "int \<Rightarrow> pfn \<Rightarrow> u64 \<Rightarrow> page_data \<Rightarrow> page \<Rightarrow> 'a kmem_scheme \<Rightarrow> bool"
  assumes cpu_ok: "inv s \<Longrightarrow> cpu_of s \<in> cpus"
    and enter_ok: "inv s \<Longrightarrow> \<not> PageSwapCache (frames s p) \<Longrightarrow>
      backend_keeps inv far lands s (set_frame p v s) \<and> cpu_of (set_frame p v s) = cpu_of s \<and> idle (set_frame p v s) p"
    and move_ok: "inv s \<Longrightarrow> c \<in> cpus \<Longrightarrow> backend_keeps inv far lands s (move c s) \<and> frames (move c s) = frames s"
    and read_sync_ok: "inv s \<Longrightarrow> read_target (frames s p) \<Longrightarrow> idle s p \<Longrightarrow>
      unat off + unat PAGE_SIZE \<le> unat cap \<Longrightarrow>
      \<exists>s'. be_read_sync B p off s = Ret 0 s' \<and> backend_keeps inv far lands s s'
        \<and> (\<forall>q. PageSwapCache (frames s' q) = PageSwapCache (frames s q))
        \<and> lands (cpu_of s) p off (far s off) (frames s p) s'"
    and read_async_ok: "inv s \<Longrightarrow> read_target (frames s p) \<Longrightarrow> idle s p \<Longrightarrow>
      unat off + unat PAGE_SIZE \<le> unat cap \<Longrightarrow>
      \<exists>s' k. be_read_async B p off s = Ret 0 s' \<and> backend_keeps inv far lands s s'
        \<and> (\<forall>q. PageSwapCache (frames s' q) = PageSwapCache (frames s q))
        \<and> lands k p off (far s off) (frames s p) s'"
    and poll_ok: "inv s \<Longrightarrow> c \<in> cpus \<Longrightarrow>
      \<exists>r s'. be_poll_load B c s = Ret r s' \<and> backend_keeps inv far lands s s'
        \<and> (\<forall>q. PageSwapCache (frames s' q) = PageSwapCache (frames s q))
        \<and> (\<forall>p off v g. lands c p off v g s \<longrightarrow> frames s' p = page_filled v g)"
begin

abbreviation keeps :: "'a kmem_scheme \<Rightarrow> 'a kmem_scheme \<Rightarrow> bool" where
  "keeps \<equiv> backend_keeps inv far lands"

lemmas keeps_def = backend_keeps_def [of inv far lands]

text \<open>Every page that enters the swap cache on the way from \<open>s\<close> to \<open>s'\<close> is being filled with its slot.\<close>

definition fills :: "'a kmem_scheme swap_kernel \<Rightarrow> 'a kmem_scheme \<Rightarrow> 'a kmem_scheme \<Rightarrow> bool" where
  "fills K s s' \<longleftrightarrow> keeps s s'
     \<and> (\<forall>q. PageSwapCache (frames s' q) \<and> \<not> PageSwapCache (frames s q) \<longrightarrow>
          (\<exists>k g. PageSwapCache g
             \<and> lands k q (page_off (swp_offset (sk_entry K q)))
                 (far s (page_off (swp_offset (sk_entry K q)))) g s'))"

lemma keepsD:
  assumes "keeps s s'"
  shows "inv s'" "far s' = far s" "PageSwapCache g \<Longrightarrow> lands k p off v g s \<Longrightarrow> lands k p off v g s'"
  using assms unfolding keeps_def by blast+

lemma keeps_refl: "inv s \<Longrightarrow> keeps s s"
  by (simp add: keeps_def)

lemma keeps_trans: "keeps s1 s2 \<Longrightarrow> keeps s2 s3 \<Longrightarrow> keeps s1 s3"
  unfolding keeps_def by metis

lemma fills_keeps: "fills K s s' \<Longrightarrow> keeps s s'"
  by (simp add: fills_def)

lemma fills_same:
  "keeps s s' \<Longrightarrow> (\<And>q. PageSwapCache (frames s' q) = PageSwapCache (frames s q)) \<Longrightarrow> fills K s s'"
  by (simp add: fills_def)

lemma fills_refl: "inv s \<Longrightarrow> fills K s s"
  by (simp add: fills_same keeps_refl)

lemma fills_trans:
  assumes A: "fills K s1 s2" and B: "fills K s2 s3"
  shows "fills K s1 s3"
  unfolding fills_def
proof (intro conjI allI impI)
  show "keeps s1 s3" using keeps_trans [OF fills_keeps [OF A] fills_keeps [OF B]] .
next
  fix q assume q: "PageSwapCache (frames s3 q) \<and> \<not> PageSwapCache (frames s1 q)"
  let ?o = "page_off (swp_offset (sk_entry K q))"
  have far: "far s2 = far s1" using A by (simp add: fills_def keepsD(2))
  show "\<exists>k g. PageSwapCache g \<and> lands k q ?o (far s1 ?o) g s3"
  proof (cases "PageSwapCache (frames s2 q)")
    case True
    then obtain k g where "PageSwapCache g" "lands k q ?o (far s1 ?o) g s2"
      using A q by (auto simp: fills_def)
    then show ?thesis using keepsD(3) [OF fills_keeps [OF B]] by blast
  next
    case False
    then show ?thesis using B q far by (simp add: fills_def)
  qed
qed

text \<open>
  A reader that starts a transfer into a new page of the entry, on the current processor's
  queue of synchronous reads if \<open>sync\<close>.
\<close>

definition starts ::
    "bool \<Rightarrow> 'a kmem_scheme swap_kernel \<Rightarrow> u32 \<Rightarrow> u64 \<Rightarrow> (pfn \<Rightarrow> ('a kmem_scheme, int) kmon) \<Rightarrow> bool" where
  "starts sync K ty i rd \<longleftrightarrow>
     (\<forall>p s. inv s \<and> read_target (frames s p) \<and> idle s p \<and> slot_fits cap i
        \<and> sk_entry K p = \<lparr>swp_type = ty, swp_offset = i\<rparr> \<and> sk_test K ty i \<longrightarrow>
        (\<exists>r s' k. rd p s = Ret r s' \<and> keeps s s' \<and> (sync \<longrightarrow> k = cpu_of s)
           \<and> (\<forall>q. PageSwapCache (frames s' q) = PageSwapCache (frames s q))
           \<and> lands k p (page_off i) (far s (page_off i)) (frames s p) s'))"

lemma starts_async: "kernel_ok B ty K \<Longrightarrow> starts False K ty i (swap_readpage K)"
  unfolding starts_def using read_async_ok slot_fitsD(2) swap_readpage_calls by metis

lemma starts_sync: "kernel_ok B ty K \<Longrightarrow> starts True K ty i (swap_readpage_sync K)"
  unfolding starts_def using read_sync_ok slot_fitsD(2) swap_readpage_sync_calls by metis

text \<open>Reading an entry through the swap cache with such a reader.\<close>

lemma read_cached_fills:
  assumes C: "cache_ok cap ty K" and I: "inv s" and rd: "starts sync K ty i rd"
  shows "\<exists>r new s0 s'. sk_cache_page K \<lparr>swp_type = ty, swp_offset = i\<rparr> s = Ret (r, new) s0
    \<and> read_cached K rd \<lparr>swp_type = ty, swp_offset = i\<rparr> s = Ret r s' \<and> fills K s s'
    \<and> (sync \<and> new \<longrightarrow> (\<exists>p. r = Some p \<and> PageSwapCache (frames s0 p)
         \<and> lands (cpu_of s) p (page_off i) (far s (page_off i)) (frames s0 p) s'))"
proof -
  let ?e = "\<lparr>swp_type = ty, swp_offset = i\<rparr>"
  obtain r new s0 where c: "sk_cache_page K ?e s = Ret (r, new) s0" "cache_result cap K ?e s (r, new) s0"
    using C unfolding cache_ok_def by (metis surj_pair)
  show ?thesis
  proof (cases new)
    case False
    then have "s0 = s" using c(2) by (auto simp: cache_result_def split: option.splits)
    then have "read_cached K rd ?e s = Ret r s" using c(1) False by (simp add: read_cached_def)
    then show ?thesis using c(1) False fills_refl [OF I] by blast
  next
    case True
    then obtain p v where r: "r = Some p" "\<not> PageSwapCache (frames s p)" "read_target v"
        "s0 = set_frame p v s" "sk_entry K p = ?e" "sk_test K ty i" "slot_fits cap i"
      using c(2) by (auto simp: cache_result_def split: option.splits)
    have f: "frames s0 = (frames s)(p := v)" by (simp add: r(4) set_frame_def upd_frame_def)
    have s0: "keeps s s0" "cpu_of s0 = cpu_of s" "idle s0 p" using enter_ok [OF I r(2)] r(4) by simp_all
    obtain x s' k where s': "rd p s0 = Ret x s'" "keeps s0 s'" "sync \<longrightarrow> k = cpu_of s0"
        "\<forall>q. PageSwapCache (frames s' q) = PageSwapCache (frames s0 q)"
        "lands k p (page_off i) (far s0 (page_off i)) (frames s0 p) s'"
      using rd [unfolded starts_def, rule_format, of s0 p] keepsD(1) [OF s0(1)] s0(3) r(3,5-7) f by auto
    have L: "lands k p (page_off i) (far s (page_off i)) v s'"
      using s'(5) f keepsD(2) [OF s0(1)] by simp
    have pc: "PageSwapCache v" using r(3) by (simp add: read_target_def)
    have "q = p" if "PageSwapCache (frames s' q)" "\<not> PageSwapCache (frames s q)" for q
      using that s'(4) f by (auto split: if_splits)
    then have "fills K s s'"
      unfolding fills_def using keeps_trans [OF s0(1) s'(2)] L pc r(5)
      by (metis swp_entry.select_convs(2))
    moreover have "read_cached K rd ?e s = Ret r s'"
      using c(1) True r(1) s'(1) by (simp add: read_cached_def)
    ultimately show ?thesis using c(1) True r(1) L pc s'(3) s0(2) f by auto
  qed
qed

lemma readahead_fills:
  assumes K: "kernel_ok B ty K" and C: "cache_ok cap ty K" and I: "inv s"
  shows "\<exists>s'. readahead K \<lparr>swp_type = ty, swp_offset = i\<rparr> s = Ret () s' \<and> fills K s s'"
proof -
  let ?e = "\<lparr>swp_type = ty, swp_offset = i\<rparr>"
  obtain a z where w: "sk_window K i (sk_nr_pages K i - 1) = (a, z)" by (cases "sk_window K i (sk_nr_pages K i - 1)")
  then have z: "z < - 1" using kernel_okD(5) [OF K, of i "sk_nr_pages K i - 1"] by simp
  have "\<exists>x' s'. whileK (\<lambda>offset s. offset \<le> z) (readahead_step K ?e) x s = Ret x' s'
      \<and> fills K s s' \<and> \<not> x' \<le> z" for x
  proof (rule whileK_total [where I = "\<lambda>x u. fills K s u" and m = "\<lambda>x u. unat z + 1 - unat x"
        and r = less_than])
    fix x u assume F: "fills K s u" and x: "x \<le> z"
    have "\<exists>s'. readahead_step K ?e x u = Ret (x + 1) s' \<and> fills K s s'"
    proof (cases "x = i")
      case True
      then show ?thesis using F by (simp add: readahead_step_def)
    next
      case False
      obtain r s' where "sk_read_async K (swap_readpage K) \<lparr>swp_type = ty, swp_offset = x\<rparr> u = Ret r s'"
          "fills K u s'"
        using read_cached_fills [OF C keepsD(1) [OF fills_keeps [OF F]] starts_async [OF K, of x]]
        unfolding kernel_okD(4) [OF K] by (elim exE conjE)
      then show ?thesis using False fills_trans [OF F] by (auto simp: readahead_step_def)
    qed
    moreover have "unat (x + 1) = unat x + 1"
      using unat_less_max [OF order_le_less_trans [OF x z]] .
    moreover have "unat x \<le> unat z" using x by (simp add: word_le_nat_alt)
    ultimately show "\<exists>x' s'. readahead_step K ?e x u = Ret x' s' \<and> fills K s s'
        \<and> (unat z + 1 - unat x', unat z + 1 - unat x) \<in> less_than" by auto
  qed (simp_all add: fills_refl I)
  then have "\<exists>s'. kthen (whileK (\<lambda>offset s. offset \<le> z) (readahead_step K ?e) x) (kret ()) s = Ret () s'
      \<and> fills K s s'" for x
    by (metis kthen_Ret kret_run)
  then show ?thesis using w fills_refl [OF I] by (simp add: readahead_def Let_def)
qed

text \<open>
  A page fault returns the page of the entry. If it was new it is filled, and every page that
  entered the swap cache meanwhile is filled or being filled with its slot.
\<close>

lemma fault_fills:
  assumes K: "kernel_ok B ty K" and C: "cache_ok cap ty K" and I: "inv s"
    and id: "sk_processor_id K = cpu_of" and mv: "sk_resume K = move c" "c \<in> cpus"
  shows "\<exists>r new s0 s'. sk_cache_page K \<lparr>swp_type = ty, swp_offset = i\<rparr> s = Ret (r, new) s0
    \<and> swapin_readahead K \<lparr>swp_type = ty, swp_offset = i\<rparr> s = Ret r s' \<and> fills K s s'
    \<and> (new \<longrightarrow> (\<exists>p. r = Some p \<and> frames s' p = page_filled (far s (page_off i)) (frames s0 p)))"
proof -
  let ?e = "\<lparr>swp_type = ty, swp_offset = i\<rparr>"
  obtain r new s0 s1 where r: "sk_cache_page K ?e s = Ret (r, new) s0"
      "read_swap_cache_sync K ?e s = Ret r s1" "fills K s s1"
      "new \<longrightarrow> (\<exists>p. r = Some p \<and> PageSwapCache (frames s0 p)
         \<and> lands (cpu_of s) p (page_off i) (far s (page_off i)) (frames s0 p) s1)"
    using read_cached_fills [OF C I starts_sync [OF K, of i]]
    unfolding read_swap_cache_sync_def simp_thms by (elim exE conjE)
  note m = move_ok [OF keepsD(1) [OF fills_keeps [OF r(3)]] mv(2)]
  have F2: "fills K s1 (move c s1)" using m by (simp add: fills_same)
  obtain s2 where s2: "readahead K ?e (move c s1) = Ret () s2" "fills K (move c s1) s2"
    using readahead_fills [OF K C keepsD(1) [OF fills_keeps [OF F2]]] by blast
  obtain x s' where s': "be_poll_load B (cpu_of s) s2 = Ret x s'" "keeps s2 s'"
      "\<forall>q. PageSwapCache (frames s' q) = PageSwapCache (frames s2 q)"
      "\<forall>p off v g. lands (cpu_of s) p off v g s2 \<longrightarrow> frames s' p = page_filled v g"
    using poll_ok [OF keepsD(1) [OF fills_keeps [OF s2(2)]] cpu_ok [OF I]] by blast
  note F12 = fills_trans [OF F2 s2(2)]
  have "fills K s s'" using fills_trans [OF r(3) fills_trans [OF F12 fills_same]] s'(2,3) by blast
  moreover have "swapin_readahead K ?e s = Ret r s'"
    using r(2) s2(1) s'(1) by (simp add: swapin_readahead_def id mv(1) poll_load_calls [OF K])
  moreover have "new \<longrightarrow> (\<exists>p. r = Some p \<and> frames s' p = page_filled (far s (page_off i)) (frames s0 p))"
    using r(4) s'(4) keepsD(3) [OF fills_keeps [OF F12]] by blast
  ultimately show ?thesis using r(1) by blast
qed

end

end
