(* ===== verification/Fastswap_Dram.thy ===== *)
theory Fastswap_Dram
  imports Fastswap
begin

text \<open>
  The DRAM backend, \<open>src/code/drivers/fastswap_dram.c\<close>: one 32 GB buffer in the client's
  own memory, pages copied in and out by offset. The state is the page frames and the
  buffer pointer. Whether \<open>vzalloc\<close> succeeds is a parameter of the module's init
  function. The functions carry the suffix \<open>_dram\<close> where the RDMA backend exports the same
  symbol.
\<close>

section \<open>State\<close>

text \<open>
  \<open>drambuf\<close> is null before the module is initialised and after a failed allocation, points
  to a buffer, or dangles after \<open>vfree\<close>. The buffer's bytes are indexed by the offset from
  its start.
\<close>

datatype vbuf = VNull | VLive bytemem | VFreed

record dram_st = kmem +
  drambuf :: vbuf

definition ONEGB :: u64 where
  "ONEGB = 1024 * 1024 * 1024"

definition REMOTE_BUF_SIZE :: u64 where
  "REMOTE_BUF_SIZE = ONEGB * 32"

section \<open>Operations\<close>

text \<open>
  \<open>drambuf + roffset\<close> must address a page inside the buffer: the code does not test it, so
  an offset past the end reads or writes memory that is not the buffer's.
\<close>

definition dram_span :: "u64 \<Rightarrow> bool" where
  "dram_span roffset \<longleftrightarrow> unat roffset + unat PAGE_SIZE \<le> unat REMOTE_BUF_SIZE"

definition dram_page :: "u64 \<Rightarrow> dram_st \<Rightarrow> fault + bytemem" where
  "dram_page roffset s =
     (case drambuf s of
        VNull \<Rightarrow> Inl NullDeref
      | VFreed \<Rightarrow> Inl UseAfterFree
      | VLive m \<Rightarrow> if dram_span roffset then Inr m else Inl OutOfBounds)"

definition sswap_rdma_write_dram :: "pfn \<Rightarrow> u64 \<Rightarrow> (dram_st, int) kmon" where
  "sswap_rdma_write_dram page roffset s =
     (case dram_page roffset s of
        Inl e \<Rightarrow> Crash e
      | Inr m \<Rightarrow>
          Ret 0 (s\<lparr>drambuf := VLive (mem_write m roffset (pg_data (frames s page)))\<rparr>))"

definition sswap_rdma_poll_load_dram :: "int \<Rightarrow> (dram_st, int) kmon" where
  "sswap_rdma_poll_load_dram cpu = kret 0"

definition sswap_rdma_read_async_dram :: "bool \<Rightarrow> pfn \<Rightarrow> u64 \<Rightarrow> (dram_st, int) kmon" where
  "sswap_rdma_read_async_dram debug_vm page roffset =
     kthen (vm_bug_on_page debug_vm (\<lambda>pg. \<not> PageSwapCache pg) page)
    (kthen (vm_bug_on_page debug_vm (\<lambda>pg. \<not> PageLocked pg) page)
    (kthen (vm_bug_on_page debug_vm PageUptodate page)
    (\<lambda>s. case dram_page roffset s of
           Inl e \<Rightarrow> Crash e
         | Inr m \<Rightarrow>
             Ret 0
               (upd_frame page unlock_page
               (upd_frame page SetPageUptodate
               (upd_frame page (\<lambda>pg. pg\<lparr>pg_data := mem_read m roffset\<rparr>) s))))))"

definition sswap_rdma_read_sync_dram :: "bool \<Rightarrow> pfn \<Rightarrow> u64 \<Rightarrow> (dram_st, int) kmon" where
  "sswap_rdma_read_sync_dram debug_vm page roffset =
     sswap_rdma_read_async_dram debug_vm page roffset"

definition sswap_rdma_drain_loads_sync_dram :: "int \<Rightarrow> int \<Rightarrow> (dram_st, int) kmon" where
  "sswap_rdma_drain_loads_sync_dram cpu target = kret 1"

text \<open>\<open>vfree\<close> accepts a null pointer; the pointer is not reset.\<close>

definition sswap_dram_cleanup_module :: "(dram_st, unit) kmon" where
  "sswap_dram_cleanup_module s =
     (case drambuf s of
        VNull \<Rightarrow> Ret () s
      | VLive m \<Rightarrow> Ret () (s\<lparr>drambuf := VFreed\<rparr>)
      | VFreed \<Rightarrow> Crash BadFree)"

text \<open>The result of \<open>vzalloc\<close> is not tested: the module reports success either way.\<close>

definition sswap_dram_init_module :: "bool \<Rightarrow> (dram_st, int) kmon" where
  "sswap_dram_init_module vzalloc_ok =
     kthen (kmodify (\<lambda>s. s\<lparr>drambuf := (if vzalloc_ok then VLive (\<lambda>_. 0) else VNull)\<rparr>))
     (kret 0)"

section \<open>Lemmas\<close>

definition dram_ready :: "dram_st \<Rightarrow> bool" where
  "dram_ready s \<longleftrightarrow> (\<exists>m. drambuf s = VLive m)"

definition dram_far :: "dram_st \<Rightarrow> u64 \<Rightarrow> page_data" where
  "dram_far s a = (case drambuf s of VLive m \<Rightarrow> mem_read m a | _ \<Rightarrow> (\<lambda>_. 0))"

lemma upd_frame_drambuf [simp]: "drambuf (upd_frame p f s) = drambuf s"
  by (simp add: upd_frame_def)

lemma write_dram_ok:
  assumes "dram_ready s" "dram_span off"
  shows "\<exists>s'. sswap_rdma_write_dram p off s = Ret 0 s' \<and> dram_ready s' \<and> frames s' = frames s
    \<and> dram_far s' off = pg_data (frames s p)
    \<and> (\<forall>off'. pages_apart off off' \<longrightarrow> dram_far s' off' = dram_far s off')"
  using assms
  by (auto simp: dram_ready_def sswap_rdma_write_dram_def dram_page_def dram_far_def page_mem)

lemma read_async_dram_ok:
  assumes "dram_ready s" "dram_span off" "debug_vm \<Longrightarrow> read_target (frames s p)"
  shows "\<exists>s'. sswap_rdma_read_async_dram debug_vm p off s = Ret 0 s' \<and> drambuf s' = drambuf s
    \<and> frames s' = (frames s)(p := page_filled (dram_far s off) (frames s p))"
proof -
  obtain m where m: "drambuf s = VLive m" using assms(1) by (auto simp: dram_ready_def)
  have pass: "vm_bug_on_page debug_vm (\<lambda>pg. \<not> PageSwapCache pg) p s = Ret () s"
    "vm_bug_on_page debug_vm (\<lambda>pg. \<not> PageLocked pg) p s = Ret () s"
    "vm_bug_on_page debug_vm PageUptodate p s = Ret () s"
    using assms(3) by (auto simp: vm_bug_on_page_def read_target_def)
  show ?thesis
    using m assms(2)
    by (auto simp: sswap_rdma_read_async_dram_def pass dram_page_def dram_far_def fun_eq_iff)
qed

section \<open>The backend meets the interface\<close>

definition dram_backend :: "bool \<Rightarrow> dram_st backend_ops" where
  "dram_backend debug_vm =
     \<lparr>be_write = sswap_rdma_write_dram, be_read_async = sswap_rdma_read_async_dram debug_vm,
      be_read_sync = sswap_rdma_read_sync_dram debug_vm, be_poll_load = sswap_rdma_poll_load_dram\<rparr>"

lemma dram_far_frames: "drambuf s' = drambuf s \<Longrightarrow> dram_far s' = dram_far s"
  by (rule ext) (simp add: dram_far_def)

interpretation dram: swap_backend "dram_backend debug_vm" dram_ready dram_far frames set_frame
    REMOTE_BUF_SIZE "\<lambda>_. 0" for debug_vm
proof unfold_locales
  fix s :: dram_st and p v
  assume "dram_ready s"
  then show "dram_ready (set_frame p v s) \<and> frames (set_frame p v s) = (frames s)(p := v)
      \<and> dram_far (set_frame p v s) = dram_far s"
    by (auto simp: dram_ready_def set_frame_def fun_eq_iff dram_far_def)
next
  fix s :: dram_st and off :: u64 and p :: pfn
  assume "dram_ready s" "unat off + unat PAGE_SIZE \<le> unat REMOTE_BUF_SIZE"
  then show "\<exists>s'. be_write (dram_backend debug_vm) p off s = Ret 0 s' \<and> dram_ready s'
      \<and> frames s' = frames s \<and> dram_far s' off = pg_data (frames s p)
      \<and> (\<forall>off'. pages_apart off off' \<longrightarrow> dram_far s' off' = dram_far s off')"
    using write_dram_ok [of s off p] by (simp add: dram_backend_def dram_span_def)
next
  fix s :: dram_st and off :: u64 and p :: pfn
  assume "dram_ready s" "unat off + unat PAGE_SIZE \<le> unat REMOTE_BUF_SIZE" "read_target (frames s p)"
  then obtain s' where "sswap_rdma_read_async_dram debug_vm p off s = Ret 0 s'"
      "drambuf s' = drambuf s" "frames s' = (frames s)(p := page_filled (dram_far s off) (frames s p))"
    using read_async_dram_ok [of s off debug_vm p] by (auto simp: dram_span_def)
  then show "\<exists>s1 r s2. be_read_sync (dram_backend debug_vm) p off s = Ret 0 s1
      \<and> be_poll_load (dram_backend debug_vm) 0 s1 = Ret r s2 \<and> dram_ready s2
      \<and> frames s2 = (frames s)(p := page_filled (dram_far s off) (frames s p))
      \<and> (\<forall>off'. dram_far s2 off' = dram_far s off')"
    using \<open>dram_ready s\<close> dram_far_frames [of s' s]
    by (simp add: dram_backend_def sswap_rdma_read_sync_dram_def sswap_rdma_poll_load_dram_def
        dram_ready_def)
qed

end
