(* ===== verification/Kernel_Swap_Props.thy ===== *)
theory Kernel_Swap_Props
  imports Kernel_Swap Fastswap_Dram Rdma_Props
begin

text \<open>
  The swap-in path of the patched kernel over both backends: they meet the contract of
  \<open>Kernel_Swap\<close>, so a page fault ends with its page filled and the pages read ahead on their
  way.
\<close>

section \<open>The RDMA backend\<close>

definition rdma_paging :: "rdma_env \<Rightarrow> u64 \<Rightarrow> int \<Rightarrow> kst \<Rightarrow> bool" where
  "rdma_paging E cap n s \<longleftrightarrow> good_link E cap s \<and> sys_inv s \<and> numcpus s = n"

definition rdma_move :: "int \<Rightarrow> kst \<Rightarrow> kst" where
  "rdma_move c s = s\<lparr>this_cpu := word_of_int c\<rparr>"

definition rdma_lands :: "u64 \<Rightarrow> int \<Rightarrow> pfn \<Rightarrow> u64 \<Rightarrow> page_data \<Rightarrow> page \<Rightarrow> kst \<Rightarrow> bool" where
  "rdma_lands cap k = landing cap (nat k)"

text \<open>Every event that writes no far memory and no page directly keeps what reads promised.\<close>

lemma rdma_step_keeps:
  assumes R: "rdma_paging E cap n s" and st: "rdma_step E s c s'"
    and nw: "\<And>off. writes_apart off c" and np: "\<And>q v. c = CPage q v \<Longrightarrow> \<not> PageSwapCache (frames s q)"
  shows "backend_keeps (rdma_paging E cap n) far_page (rdma_lands cap) s s'"
proof -
  have G: "good_link E cap s" and I: "sys_inv s" and n: "numcpus s = n" using R by (simp_all add: rdma_paging_def)
  have N: "nic_ok E" using G by (simp add: good_link_def)
  note F = step_inv [OF N I st]
  have m: "mr_of s' = mr_of s" "numcpus s' = numcpus s" using F(2) by (simp_all add: call_frame_def)
  have "far_page s' off = far_page s off" for off
    using run_far_page [OF rdma_run.run_snoc [OF rdma_run.run_nil st], of off] N I nw by simp
  then have far: "far_page s' = far_page s" by blast
  have "rdma_lands cap k p off v g s'" if g: "PageSwapCache g" "rdma_lands cap k p off v g s" for k p off v g
  proof -
    have "spares p off c"
      using np g nw [of off] by (cases c) (auto simp: rdma_lands_def landing_def waiting_def)
    then show ?thesis using landing_step [OF G I st] g(2) by (simp add: rdma_lands_def)
  qed
  then show ?thesis using F(1) m G n far by (simp add: backend_keeps_def rdma_paging_def good_link_def)
qed

lemma polled_swapcache:
  assumes "polled E good q s s'" "rdma_core L s" "int q < 2 * numcpus s"
  shows "PageSwapCache (frames s' p) = PageSwapCache (frames s p)"
proof -
  obtain oks where r: "reads_done E s (zip (sq s q) oks) s'" using polled_reads [OF assms] by blast
  show ?thesis
  proof (cases "p \<in> wr_pfn s ` fst ` set (zip (sq s q) oks)")
    case True
    then obtain w ok where "(w, ok) \<in> set (zip (sq s q) oks)" "p = wr_pfn s w" by fastforce
    then show ?thesis using r by (auto simp: reads_done_def)
  next
    case False
    then show ?thesis using r by (simp add: reads_done_def)
  qed
qed

lemma swapcache_idle:
  assumes "sys_inv s" "\<not> PageSwapCache (frames s p)"
  shows "p \<notin> busy s"
proof
  assume "p \<in> busy s"
  have I: "rdma_inv s" using assms(1) by (simp add: sys_inv_def)
  note C = rdma_invD(1) [OF I]
  obtain q w where w: "w \<in> set (sq s q)" "p = wr_pfn s w"
    using \<open>p \<in> busy s\<close> unfolding busy_alt [OF rdma_coreD(8) [OF C]] by blast
  then have "sq s q \<noteq> []" by auto
  then have "int q < 2 * numcpus s" using rdma_invD(2) [OF I, of q] by linarith
  then have "read_target (frames s p)"
    using wr_pfn_ok [OF rdma_coreD(8) [OF C] w(1)] rdma_coreD(9) [OF C w(1)] w(2) by auto
  then show False using assms(2) by (simp add: read_target_def)
qed

lemma rdma_paging_read:
  assumes R: "rdma_paging E cap n s" and pg: "read_target (frames s p)" "p \<notin> busy s"
    and off: "unat off + unat PAGE_SIZE \<le> unat cap"
    and rd: "rd = sswap_rdma_read_sync \<and> qt = QP_READ_SYNC \<and> c = CReadSync p off
           \<or> rd = sswap_rdma_read_async \<and> qt = QP_READ_ASYNC \<and> c = CReadAsync p off"
  shows "\<exists>s' k. rd E p off s = Ret 0 s' \<and> backend_keeps (rdma_paging E cap n) far_page (rdma_lands cap) s s'
    \<and> (\<forall>q. PageSwapCache (frames s' q) = PageSwapCache (frames s q))
    \<and> rdma_lands cap k p off (far_page s off) (frames s p) s' \<and> k = cpu_id s + queue_base (numcpus s) qt"
proof -
  have G: "good_link E cap s" and I: "sys_inv s" using R by (simp_all add: rdma_paging_def)
  have N: "nic_ok E" "nic_outcome E (region_succeeds (mr_of s) (unat cap))"
    using G by (simp_all add: good_link_def)
  have I': "rdma_inv s" "uint (this_cpu s) < numcpus s" using I by (simp_all add: sys_inv_def)
  note C = rdma_invD(1) [OF I'(1)]
  have rd': "rd = sswap_rdma_read_sync \<and> qt = QP_READ_SYNC \<or> rd = sswap_rdma_read_async \<and> qt = QP_READ_ASYNC"
    using rd by blast
  obtain q s1 w where r: "rd E p off s = Ret 0 (enq q p w s1)"
      "int q = uint (this_cpu s) + queue_base (numcpus s) qt"
      "polled E (region_succeeds (mr_of s) (unat cap)) q s s1"
    using rdma_read_ok [OF N I' pg rd'] by blast
  have q: "int q < 2 * numcpus s" using r(2) I'(2) rd rdma_coreD(2) [OF C] by auto
  have st: "rdma_step E s c (enq q p w s1)"
    using rd r(1) pg by (auto intro!: rdma_step.step)
  have nw: "writes_apart off' c" "c \<noteq> CPage q' v" for off' q' v using rd by auto
  obtain q' where q': "int q' = uint (this_cpu s) + queue_base (numcpus s) qt"
      "landing cap q' p off (far_page s off) (frames s p) (enq q p w s1)"
    using read_starts_landing [OF G I pg off rd' r(1)] by blast
  have "q' = q" using q'(1) r(2) by linarith
  then have "rdma_lands cap (int q) p off (far_page s off) (frames s p) (enq q p w s1)"
    using q'(2) by (simp add: rdma_lands_def)
  moreover have "backend_keeps (rdma_paging E cap n) far_page (rdma_lands cap) s (enq q p w s1)"
    by (rule rdma_step_keeps [OF R st]) (use nw in auto)
  ultimately show ?thesis
    using r(1,2) polled_swapcache [OF r(3) C q] by (intro exI [of _ "enq q p w s1"] exI [of _ "int q"])
      (simp add: cpu_id_def)
qed

lemma rdma_paging_enter:
  assumes R: "rdma_paging E cap n s" and sc: "\<not> PageSwapCache (frames s p)"
  shows "backend_keeps (rdma_paging E cap n) far_page (rdma_lands cap) s (set_frame p v s)
    \<and> cpu_id (set_frame p v s) = cpu_id s \<and> p \<notin> busy (set_frame p v s)"
proof -
  have b: "p \<notin> busy s" using swapcache_idle R sc by (simp add: rdma_paging_def)
  have "rdma_step E s (CPage p v) (set_frame p v s)"
    using b by (intro rdma_step.step [where r = 0]) simp_all
  then have "backend_keeps (rdma_paging E cap n) far_page (rdma_lands cap) s (set_frame p v s)"
    by (rule rdma_step_keeps [OF R]) (use sc in auto)
  moreover have "busy (set_frame p v s) = busy s" by (simp add: busy_def set_frame_def)
  ultimately show ?thesis using b by (simp add: cpu_id_def set_frame_def)
qed

lemma rdma_paging_move:
  assumes R: "rdma_paging E cap n s" and c: "c \<in> {0..<n}"
  shows "backend_keeps (rdma_paging E cap n) far_page (rdma_lands cap) s (rdma_move c s)
    \<and> frames (rdma_move c s) = frames s"
proof -
  have "n \<le> 8192" using R rdma_coreD(3) [OF rdma_invD(1)] by (auto simp: rdma_paging_def sys_inv_def)
  then have "uint (word_of_int c :: u32) = c" using c by (intro uint_word_of_int_small) auto
  then have "rdma_step E s (CMigrate (word_of_int c)) (rdma_move c s)"
    using c R by (intro rdma_step.step [where r = 0]) (simp_all add: rdma_move_def rdma_paging_def)
  then have "backend_keeps (rdma_paging E cap n) far_page (rdma_lands cap) s (rdma_move c s)"
    by (rule rdma_step_keeps [OF R]) simp_all
  then show ?thesis by (simp add: rdma_move_def)
qed

lemma rdma_paging_poll:
  assumes R: "rdma_paging E cap n s" and c: "c \<in> {0..<n}"
  shows "\<exists>s'. sswap_rdma_poll_load E c s = Ret 1 s'
    \<and> backend_keeps (rdma_paging E cap n) far_page (rdma_lands cap) s s'
    \<and> (\<forall>q. PageSwapCache (frames s' q) = PageSwapCache (frames s q))
    \<and> (\<forall>p off v g. rdma_lands cap c p off v g s \<longrightarrow> frames s' p = page_filled v g)"
proof -
  have N: "nic_ok E" "nic_outcome E (region_succeeds (mr_of s) (unat cap))" and I: "rdma_inv s"
    and n: "numcpus s = n" and G: "good_link E cap s" and I': "sys_inv s"
    using R by (simp_all add: rdma_paging_def good_link_def sys_inv_def)
  obtain s' where s': "sswap_rdma_poll_load E c s = Ret 1 s'"
      "polled E (region_succeeds (mr_of s) (unat cap)) (nat c) s s'" "sq s' = (sq s)(nat c := [])"
    using rdma_poll_load_ok [OF N I, of c] c n by auto
  have st: "rdma_step E s (CPollLoad c) s'"
    using c n s'(1) by (intro rdma_step.step [where r = 1]) simp_all
  then have K: "backend_keeps (rdma_paging E cap n) far_page (rdma_lands cap) s s'"
    by (rule rdma_step_keeps [OF R]) simp_all
  have "int (nat c) < 2 * numcpus s" using c n by auto
  note S = polled_swapcache [OF s'(2) rdma_invD(1) [OF I] this]
  have "frames s' p = page_filled v g" if L: "rdma_lands cap c p off v g s" for p off v g
    using landed [of cap "nat c" p off v g s'] landing_step [OF G I' st _ L [unfolded rdma_lands_def]] s'(3)
    by simp
  then show ?thesis using s'(1) K S by blast
qed

interpretation rdma_fault: paging_backend "rdma_backend E" "rdma_paging E cap n" far_page cap
    "{0..<n}" cpu_id rdma_move "\<lambda>s p. p \<notin> busy s" "rdma_lands cap" for E cap n
proof unfold_locales
  fix s :: kst and p :: pfn and off :: u64
  assume A: "rdma_paging E cap n s" "read_target (frames s p)" "p \<notin> busy s"
    "unat off + unat PAGE_SIZE \<le> unat cap"
  show "\<exists>s'. be_read_sync (rdma_backend E) p off s = Ret 0 s'
      \<and> backend_keeps (rdma_paging E cap n) far_page (rdma_lands cap) s s'
      \<and> (\<forall>q. PageSwapCache (frames s' q) = PageSwapCache (frames s q))
      \<and> rdma_lands cap (cpu_id s) p off (far_page s off) (frames s p) s'"
    using rdma_paging_read [OF A, of sswap_rdma_read_sync QP_READ_SYNC "CReadSync p off"]
    by (auto simp: rdma_backend_def)
  show "\<exists>s' k. be_read_async (rdma_backend E) p off s = Ret 0 s'
      \<and> backend_keeps (rdma_paging E cap n) far_page (rdma_lands cap) s s'
      \<and> (\<forall>q. PageSwapCache (frames s' q) = PageSwapCache (frames s q))
      \<and> rdma_lands cap k p off (far_page s off) (frames s p) s'"
    using rdma_paging_read [OF A, of sswap_rdma_read_async QP_READ_ASYNC "CReadAsync p off"]
    by (auto simp: rdma_backend_def)
next
  fix s :: kst and c :: int
  assume "rdma_paging E cap n s" "c \<in> {0..<n}"
  then show "\<exists>r s'. be_poll_load (rdma_backend E) c s = Ret r s'
      \<and> backend_keeps (rdma_paging E cap n) far_page (rdma_lands cap) s s'
      \<and> (\<forall>q. PageSwapCache (frames s' q) = PageSwapCache (frames s q))
      \<and> (\<forall>p off v g. rdma_lands cap c p off v g s \<longrightarrow> frames s' p = page_filled v g)"
    using rdma_paging_poll [of E cap n s c] by (auto simp: rdma_backend_def)
qed (simp_all add: rdma_paging_enter rdma_paging_move, simp add: rdma_paging_def sys_inv_def cpu_id_def)

section \<open>The DRAM backend\<close>

definition dram_lands :: "int \<Rightarrow> pfn \<Rightarrow> u64 \<Rightarrow> page_data \<Rightarrow> page \<Rightarrow> dram_st \<Rightarrow> bool" where
  "dram_lands k p off v g s \<longleftrightarrow> dram_far s off = v \<and> frames s p = page_filled v g"

lemma dram_keeps:
  assumes "dram_ready s" "drambuf s' = drambuf s" "frames s' = (frames s)(p := pg)"
    "\<not> PageSwapCache (frames s p) \<or> \<not> PageUptodate (frames s p)"
  shows "backend_keeps dram_ready dram_far dram_lands s s'"
  using assms dram_far_frames [OF assms(2)]
  by (auto simp: backend_keeps_def dram_ready_def dram_lands_def)

interpretation dram_fault: paging_backend "dram_backend d" dram_ready dram_far REMOTE_BUF_SIZE UNIV
    "\<lambda>_. 0" "\<lambda>_ s. s" "\<lambda>_ _. True" dram_lands for d
proof unfold_locales
  fix s :: dram_st and p v
  assume "dram_ready s" "\<not> PageSwapCache (frames s p)"
  then show "backend_keeps dram_ready dram_far dram_lands s (set_frame p v s)
      \<and> (0 :: int) = 0 \<and> True"
    using dram_keeps [of s "set_frame p v s" p v] by (simp add: set_frame_def upd_frame_def)
next
  fix s :: dram_st and p :: pfn and off :: u64
  assume A: "dram_ready s" "read_target (frames s p)" "unat off + unat PAGE_SIZE \<le> unat REMOTE_BUF_SIZE"
  then obtain s' where s': "sswap_rdma_read_async_dram d p off s = Ret 0 s'" "drambuf s' = drambuf s"
      "frames s' = (frames s)(p := page_filled (dram_far s off) (frames s p))"
    using read_async_dram_ok [of s off d p] by (auto simp: dram_span_def)
  have K: "backend_keeps dram_ready dram_far dram_lands s s'"
    using dram_keeps [OF A(1) s'(2,3)] A(2) by (simp add: read_target_def)
  moreover have "dram_lands k p off (dram_far s off) (frames s p) s'" for k
    using s'(3) dram_far_frames [OF s'(2)] by (simp add: dram_lands_def)
  ultimately show "\<exists>s'. be_read_sync (dram_backend d) p off s = Ret 0 s'
      \<and> backend_keeps dram_ready dram_far dram_lands s s'
      \<and> (\<forall>q. PageSwapCache (frames s' q) = PageSwapCache (frames s q))
      \<and> dram_lands 0 p off (dram_far s off) (frames s p) s'"
    "\<exists>s' k. be_read_async (dram_backend d) p off s = Ret 0 s'
      \<and> backend_keeps dram_ready dram_far dram_lands s s'
      \<and> (\<forall>q. PageSwapCache (frames s' q) = PageSwapCache (frames s q))
      \<and> dram_lands k p off (dram_far s off) (frames s p) s'"
    using s'(1,3) by (auto simp: dram_backend_def sswap_rdma_read_sync_dram_def)
next
  fix s :: dram_st and c :: int
  assume "dram_ready s"
  then show "\<exists>r s'. be_poll_load (dram_backend d) c s = Ret r s'
      \<and> backend_keeps dram_ready dram_far dram_lands s s'
      \<and> (\<forall>q. PageSwapCache (frames s' q) = PageSwapCache (frames s q))
      \<and> (\<forall>p off v g. dram_lands c p off v g s \<longrightarrow> frames s' p = page_filled v g)"
    by (auto simp: dram_backend_def sswap_rdma_poll_load_dram_def backend_keeps_def dram_lands_def)
qed (simp_all add: backend_keeps_def)

section \<open>A kernel that meets the assumptions\<close>

text \<open>Eight slots; the page of slot \<open>i\<close> is frame \<open>i\<close>, entered when it is not in the swap cache.\<close>

definition new_page :: page where
  "new_page = \<lparr>pg_data = (\<lambda>_. 0), PageSwapCache = True, PageLocked = True, PageUptodate = False\<rparr>"

definition sample_cache :: "swp_entry \<Rightarrow> ('a kmem_scheme, pfn option \<times> bool) kmon" where
  "sample_cache e s =
     (let p = unat (swp_offset e) in
      if 8 \<le> p then Ret (None, False) s
      else if PageSwapCache (frames s p) then Ret (Some p, False) s
      else Ret (Some p, True) (set_frame p new_page s))"

definition sample_kernel ::
    "'a kmem_scheme backend_ops \<Rightarrow> ('a kmem_scheme \<Rightarrow> int) \<Rightarrow> ('a kmem_scheme \<Rightarrow> 'a kmem_scheme)
      \<Rightarrow> 'a kmem_scheme swap_kernel" where
  "sample_kernel B cpu resume =
     \<lparr>sk_debug_vm = True, sk_enabled = True, sk_ops = [sswap_frontswap_ops B],
      sk_swap_info = (\<lambda>ty. ty = 0), sk_test = (\<lambda>ty i. i < 8),
      sk_entry = (\<lambda>p. \<lparr>swp_type = 0, swp_offset = of_nat p\<rparr>),
      sk_frontswap_load = (\<lambda>p. sswap_load B 0 (of_nat p) p),
      sk_device_read = (\<lambda>p. kret 0), sk_cache_page = sample_cache,
      sk_read_async = (\<lambda>rd e. kbind (sample_cache e) (\<lambda>(r, new).
         if new then (case r of None \<Rightarrow> kcrash NullDeref | Some p \<Rightarrow> kthen (rd p) (kret r)) else kret r)),
      sk_nr_pages = (\<lambda>_. 4), sk_window = (\<lambda>_ _. (0, 3)), sk_processor_id = cpu, sk_resume = resume\<rparr>"

lemma sample_kernel_ok: "kernel_ok B 0 (sample_kernel B cpu resume)"
  by (simp add: kernel_ok_def sample_kernel_def read_cached_def fun_eq_iff)

lemma cache_result_old: "cache_result cap K e s (r, False) s"
  by (cases r) (simp_all add: cache_result_def)

lemma sample_cache_ok:
  assumes "8 * 4096 \<le> unat cap"
  shows "cache_ok cap 0 (sample_kernel B cpu resume)"
proof -
  have rt: "read_target new_page" by (simp add: new_page_def read_target_def)
  have "\<exists>r s'. sample_cache \<lparr>swp_type = 0, swp_offset = off\<rparr> s = Ret r s'
      \<and> cache_result cap (sample_kernel B cpu resume) \<lparr>swp_type = 0, swp_offset = off\<rparr> s r s'" for off s
  proof (cases "8 \<le> unat off \<or> PageSwapCache (frames s (unat off))")
    case True
    then obtain r where "sample_cache \<lparr>swp_type = 0, swp_offset = off\<rparr> s = Ret (r, False) s"
      by (cases "8 \<le> unat off") (simp_all add: sample_cache_def)
    then show ?thesis using cache_result_old by blast
  next
    case False
    have "(unat off + 1) * 4096 \<le> 8 * 4096" using False by (intro mult_le_mono1) simp
    then have "slot_fits cap off" using assms unfolding slot_fits_def by linarith
    then have "cache_result cap (sample_kernel B cpu resume) \<lparr>swp_type = 0, swp_offset = off\<rparr> s
        (Some (unat off), True) (set_frame (unat off) new_page s)"
      using False rt by (auto simp: cache_result_def sample_kernel_def word_less_nat_alt)
    then show ?thesis using False by (simp add: sample_cache_def Let_def)
  qed
  then show ?thesis by (simp add: cache_ok_def sample_kernel_def)
qed

section \<open>Page faults\<close>

text \<open>
  C5: a page fault over RDMA. Whatever transfers are in flight, and on whatever processor the
  task goes on after the first read, \<open>swapin_readahead\<close> returns the page of the faulting entry;
  if it was not in the swap cache before, it is valid and unlocked and holds what far memory
  holds in its slot. Every page that entered the swap cache during the fault holds its slot
  or has a read of its slot posted, far memory is unchanged and the driver's invariant holds.
\<close>

theorem page_fault_rdma:
  assumes "good_link E cap s" "sys_inv s" "kernel_ok (rdma_backend E) ty K" "cache_ok cap ty K"
    and "sk_processor_id K = cpu_id" "sk_resume K = rdma_move c" "0 \<le> c" "c < numcpus s"
  shows "\<exists>r new s0 s'. sk_cache_page K \<lparr>swp_type = ty, swp_offset = i\<rparr> s = Ret (r, new) s0
    \<and> swapin_readahead K \<lparr>swp_type = ty, swp_offset = i\<rparr> s = Ret r s'
    \<and> sys_inv s' \<and> far_page s' = far_page s
    \<and> (new \<longrightarrow> (\<exists>p. r = Some p \<and> frames s' p = page_filled (far_page s (page_off i)) (frames s0 p)))
    \<and> (\<forall>q. PageSwapCache (frames s' q) \<and> \<not> PageSwapCache (frames s q) \<longrightarrow>
         (\<exists>k g. landing cap k q (page_off (swp_offset (sk_entry K q)))
            (far_page s (page_off (swp_offset (sk_entry K q)))) g s'))"
proof -
  have R: "rdma_paging E cap (numcpus s) s" using assms(1,2) by (simp add: rdma_paging_def)
  obtain r new s0 s' where F: "sk_cache_page K \<lparr>swp_type = ty, swp_offset = i\<rparr> s = Ret (r, new) s0"
      "swapin_readahead K \<lparr>swp_type = ty, swp_offset = i\<rparr> s = Ret r s'"
      "paging_backend.fills (rdma_paging E cap (numcpus s)) far_page (rdma_lands cap) K s s'"
      "new \<longrightarrow> (\<exists>p. r = Some p \<and> frames s' p = page_filled (far_page s (page_off i)) (frames s0 p))"
    using rdma_fault.fault_fills [OF assms(3,4) R assms(5,6), of i] assms(7,8) by auto
  have "sys_inv s'" "far_page s' = far_page s"
    using rdma_fault.keepsD(1,2) [OF rdma_fault.fills_keeps [OF F(3)]] by (simp_all add: rdma_paging_def)
  moreover have "\<exists>k g. landing cap k q (page_off (swp_offset (sk_entry K q)))
      (far_page s (page_off (swp_offset (sk_entry K q)))) g s'"
    if "PageSwapCache (frames s' q)" "\<not> PageSwapCache (frames s q)" for q
    using F(3) that unfolding rdma_fault.fills_def rdma_lands_def by blast
  ultimately show ?thesis using F(1,2,4) by blast
qed

text \<open>
  C22: a page fault over DRAM ends with the faulting page and every page read ahead filled with
  their slots, valid and unlocked; the buffer is unchanged.
\<close>

theorem page_fault_dram:
  assumes "dram_ready s" "kernel_ok (dram_backend d) ty K" "cache_ok REMOTE_BUF_SIZE ty K"
    and "sk_processor_id K = (\<lambda>_. 0)" "sk_resume K = (\<lambda>s. s)"
  shows "\<exists>r new s0 s'. sk_cache_page K \<lparr>swp_type = ty, swp_offset = i\<rparr> s = Ret (r, new) s0
    \<and> swapin_readahead K \<lparr>swp_type = ty, swp_offset = i\<rparr> s = Ret r s'
    \<and> dram_ready s' \<and> dram_far s' = dram_far s
    \<and> (new \<longrightarrow> (\<exists>p. r = Some p \<and> frames s' p = page_filled (dram_far s (page_off i)) (frames s0 p)))
    \<and> (\<forall>q. PageSwapCache (frames s' q) \<and> \<not> PageSwapCache (frames s q) \<longrightarrow>
         PageUptodate (frames s' q) \<and> \<not> PageLocked (frames s' q)
         \<and> pg_data (frames s' q) = dram_far s (page_off (swp_offset (sk_entry K q))))"
proof -
  obtain r new s0 s' where F: "sk_cache_page K \<lparr>swp_type = ty, swp_offset = i\<rparr> s = Ret (r, new) s0"
      "swapin_readahead K \<lparr>swp_type = ty, swp_offset = i\<rparr> s = Ret r s'"
      "paging_backend.fills dram_ready dram_far dram_lands K s s'"
      "new \<longrightarrow> (\<exists>p. r = Some p \<and> frames s' p = page_filled (dram_far s (page_off i)) (frames s0 p))"
    using dram_fault.fault_fills [where c = 0 and i = i, OF assms(2,3,1,4)] assms(5) by auto
  have "dram_ready s'" "dram_far s' = dram_far s"
    using dram_fault.keepsD(1,2) [OF dram_fault.fills_keeps [OF F(3)]] by simp_all
  moreover have "PageUptodate (frames s' q) \<and> \<not> PageLocked (frames s' q)
      \<and> pg_data (frames s' q) = dram_far s (page_off (swp_offset (sk_entry K q)))"
    if "PageSwapCache (frames s' q)" "\<not> PageSwapCache (frames s q)" for q
    using F(3) that unfolding dram_fault.fills_def dram_lands_def by auto
  ultimately show ?thesis using F(1,2,4) by blast
qed

text \<open>
  C39: a fault on a page that frontswap does not hold, because its store was refused and the
  page went to the swap device, stops the kernel with \<open>BUG\<close>; the same page read ahead comes
  from the device.
\<close>

theorem device_page_fault_bugs:
  assumes "sk_cache_page K e s = Ret (Some p, True) s0" "read_target (frames s0 p)"
    and "sk_frontswap_load K p s0 = Ret r s1" "r \<noteq> 0"
    and "\<not> sk_test K (swp_type (sk_entry K p)) (swp_offset (sk_entry K p))"
    and "sk_ops K \<noteq> []" "sk_swap_info K (swp_type (sk_entry K p))"
  shows "swapin_readahead K e s = Crash BUG \<and> swap_readpage K p s0 = sk_device_read K p s0"
proof -
  have "read_swap_cache_sync K e s = Crash BUG"
    using assms(1-4) by (simp add: read_swap_cache_sync_def read_cached_def swap_readpage_sync_def)
  moreover have "frontswap_load_async K p s0 = Ret (- 1) s0"
    using assms(2,5-7) by (simp add: frontswap_load_async_def frontswap_load_async_impl_def read_target_def)
  ultimately show ?thesis using assms(2) by (simp add: swapin_readahead_def swap_readpage_def)
qed

section \<open>Instances\<close>

text \<open>The loopback state with no page in the swap cache.\<close>

definition fault_state :: kst where
  "fault_state = loop_state\<lparr>frames := (\<lambda>p. \<lparr>pg_data = (\<lambda>_. 1), PageSwapCache = False,
     PageLocked = False, PageUptodate = False\<rparr>)\<rparr>"

lemma rdma_inv_frames:
  assumes "rdma_inv s" "\<And>q. sq s q = []"
  shows "rdma_inv (s\<lparr>frames := f\<rparr>)"
proof -
  have g: "mr_of (s\<lparr>frames := f\<rparr>) = mr_of s" "dev_of (s\<lparr>frames := f\<rparr>) = dev_of s"
    "qlist (s\<lparr>frames := f\<rparr>) = qlist s" "\<And>q. qof q (s\<lparr>frames := f\<rparr>) = qof q s"
    by (auto intro: dev_of_cong)
  have "pool_ok s" using rdma_coreD(8) [OF rdma_invD(1) [OF assms(1)]] .
  then have "pool_ok (s\<lparr>frames := f\<rparr>)" using assms(2) by (simp add: pool_ok_def) (metis option.distinct(1))
  with g assms show ?thesis by (simp add: rdma_inv_def rdma_core_def queue_ok_def)
qed

lemma fault_state_ok:
  "good_link loop_env (word_of_nat LOOP_SIZE) fault_state" "sys_inv fault_state"
  "numcpus fault_state = 1" "far_page fault_state = (\<lambda>_ _. 0)"
proof -
  have "mr_of fault_state = mr_of loop_state" unfolding fault_state_def by (rule dev_of_cong) simp
  then show "good_link loop_env (word_of_nat LOOP_SIZE) fault_state"
    using loop_good_link by (simp add: good_link_def)
  show "sys_inv fault_state"
    using rdma_inv_frames [OF loop_inv] by (simp add: sys_inv_def fault_state_def loop_state_def)
  show "numcpus fault_state = 1" by (simp add: fault_state_def loop_state_def)
  show "far_page fault_state = (\<lambda>_ _. 0)"
    by (simp add: far_page_def mem_read_def fault_state_def loop_state_def fun_eq_iff)
qed

lemma loop_cap: "8 * 4096 \<le> unat (word_of_nat LOOP_SIZE :: u64)"
  by (simp add: LOOP_SIZE_def)

theorem page_fault_rdma_witness:
  "\<exists>s'. swapin_readahead (sample_kernel (rdma_backend loop_env) cpu_id (rdma_move 0))
      \<lparr>swp_type = 0, swp_offset = 2\<rparr> fault_state = Ret (Some 2) s'
    \<and> frames s' 2 = page_filled (\<lambda>_. 0) new_page"
proof -
  let ?K = "sample_kernel (rdma_backend loop_env) cpu_id (rdma_move 0)"
  have c: "sk_cache_page ?K \<lparr>swp_type = 0, swp_offset = 2\<rparr> fault_state =
      Ret (Some 2, True) (set_frame 2 new_page fault_state)"
    by (simp add: sample_kernel_def sample_cache_def fault_state_def)
  have "sk_processor_id ?K = cpu_id" "sk_resume ?K = rdma_move 0" by (simp_all add: sample_kernel_def)
  from page_fault_rdma [OF fault_state_ok(1,2) sample_kernel_ok sample_cache_ok [OF loop_cap] this, of 2]
  show ?thesis using c fault_state_ok(3,4) by (auto simp: set_frame_def)
qed

theorem page_fault_dram_witness:
  "\<exists>s'. swapin_readahead (sample_kernel (dram_backend True) (\<lambda>_. 0) (\<lambda>s. s))
      \<lparr>swp_type = 0, swp_offset = 2\<rparr>
      \<lparr>frames = (\<lambda>p. \<lparr>pg_data = (\<lambda>_. 1), PageSwapCache = False, PageLocked = False, PageUptodate = False\<rparr>),
       drambuf = VLive (\<lambda>_. 7)\<rparr> = Ret (Some 2) s'
    \<and> frames s' 2 = page_filled (\<lambda>_. 7) new_page"
proof -
  let ?K = "sample_kernel (dram_backend True) (\<lambda>_. 0) (\<lambda>s. s)"
  let ?s = "\<lparr>frames = (\<lambda>p. \<lparr>pg_data = (\<lambda>_. 1), PageSwapCache = False, PageLocked = False,
       PageUptodate = False\<rparr>), drambuf = VLive (\<lambda>_. 7)\<rparr>"
  have c: "sk_cache_page ?K \<lparr>swp_type = 0, swp_offset = 2\<rparr> ?s = Ret (Some 2, True) (set_frame 2 new_page ?s)"
    by (simp add: sample_kernel_def sample_cache_def)
  have cap: "8 * 4096 \<le> unat REMOTE_BUF_SIZE" by (simp add: REMOTE_BUF_SIZE_def ONEGB_def)
  have r: "dram_ready ?s" by (simp add: dram_ready_def)
  have "sk_processor_id ?K = (\<lambda>_. 0)" "sk_resume ?K = (\<lambda>s. s)" by (simp_all add: sample_kernel_def)
  from page_fault_dram [OF r sample_kernel_ok sample_cache_ok [OF cap] this, of 2]
  show ?thesis using c by (auto simp: set_frame_def dram_far_def mem_read_def [abs_def])
qed

theorem device_page_fault_bugs_witness:
  "swapin_readahead ((sample_kernel (dram_backend True) (\<lambda>_. 0) (\<lambda>s. s))
       \<lparr>sk_test := (\<lambda>ty i. False), sk_frontswap_load := (\<lambda>p. kret (- 1))\<rparr>)
      \<lparr>swp_type = 0, swp_offset = 2\<rparr>
      \<lparr>frames = (\<lambda>p. \<lparr>pg_data = (\<lambda>_. 1), PageSwapCache = False, PageLocked = False, PageUptodate = False\<rparr>),
       drambuf = VLive (\<lambda>_. 7)\<rparr> = Crash BUG"
  using device_page_fault_bugs [where K = "(sample_kernel (dram_backend True) (\<lambda>_. 0) (\<lambda>s. s))
       \<lparr>sk_test := (\<lambda>ty i. False), sk_frontswap_load := (\<lambda>p. kret (- 1))\<rparr>"
      and e = "\<lparr>swp_type = 0, swp_offset = 2\<rparr>" and p = 2 and r = "- 1"
      and s = "\<lparr>frames = (\<lambda>p. \<lparr>pg_data = (\<lambda>_. 1), PageSwapCache = False, PageLocked = False,
         PageUptodate = False\<rparr>), drambuf = VLive (\<lambda>_. 7)\<rparr>"]
  by (simp add: sample_kernel_def sample_cache_def set_frame_def new_page_def read_target_def)

end
