(* ===== verification/Fastswap_Props.thy ===== *)
theory Fastswap_Props
  imports Fastswap_Dram
begin

text \<open>
  The properties of the frontswap module over the DRAM backend: it implements the swap
  device, and what it does outside the device's assumptions.
\<close>

section \<open>The module implements the swap device\<close>

definition empty_dev :: "'a kmem_scheme \<Rightarrow> swap_dev" where
  "empty_dev s = \<lparr>slots = Map.empty, memory = frames s\<rparr>"

lemma dev_rel_empty: "dev_rel cap far (frames s) (empty_dev s)"
  by (simp add: dev_rel_def empty_dev_def)

lemma dram_init_ready: "\<exists>s'. sswap_dram_init_module True s = Ret 0 s' \<and> dram_ready s' \<and> frames s' = frames s"
  by (simp add: sswap_dram_init_module_def dram_ready_def)

lemma dram_calls:
  assumes "calls_ok REMOTE_BUF_SIZE cs (empty_dev s)"
  shows "\<exists>s'. kthen (sswap_dram_init_module True) (run_calls (dram_backend dbg) (\<lambda>_. 0) set_frame cs) s
      = Ret (replicate (length cs) 0) s'
    \<and> dev_rel REMOTE_BUF_SIZE (dram_far s') (frames s') (fold dev_call cs (empty_dev s))"
proof -
  obtain s0 where s0: "sswap_dram_init_module True s = Ret 0 s0" "dram_ready s0" "frames s0 = frames s"
    using dram_init_ready by blast
  then have "dev_rel REMOTE_BUF_SIZE (dram_far s0) (frames s0) (empty_dev s)"
    using dev_rel_empty [of REMOTE_BUF_SIZE "dram_far s0" s0] by (simp add: empty_dev_def)
  then show ?thesis using dram.calls_refine [of s0 "empty_dev s" cs dbg] assms s0(1,2) by auto
qed

text \<open>
  C21: loaded with a buffer, the frontswap module over the DRAM backend implements the swap
  device: every sequence of stores and page faults with page identifiers inside 32 GB returns
  0 at each call and leaves pages and buffer as the device has them.
\<close>

theorem dram_refines_device:
  assumes "calls_ok REMOTE_BUF_SIZE cs (empty_dev s)"
  shows "\<exists>s'. kthen (sswap_dram_init_module True) (run_calls (dram_backend dbg) (\<lambda>_. 0) set_frame cs) s
      = Ret (replicate (length cs) 0) s'
    \<and> frames s' = memory (fold dev_call cs (empty_dev s))
    \<and> (\<forall>i v. slots (fold dev_call cs (empty_dev s)) i = Some v \<longrightarrow> dram_far s' (page_off i) = v)"
  using dram_calls [OF assms, of dbg] unfolding dev_rel_def by blast

definition dram_boot :: dram_st where
  "dram_boot = \<lparr>frames = (\<lambda>p. \<lparr>pg_data = (\<lambda>i. of_nat p), PageSwapCache = True, PageLocked = True,
     PageUptodate = False\<rparr>), drambuf = VNull\<rparr>"

lemma dram_size: "unat REMOTE_BUF_SIZE = 2 ^ 35"
  by (simp add: REMOTE_BUF_SIZE_def ONEGB_def)

theorem dram_refines_device_witness:
  "\<exists>s'. kthen (sswap_dram_init_module True)
          (run_calls (dram_backend True) (\<lambda>_. 0) set_frame [Store 0 2 5, Store 0 8388607 6, Load 0 2 7]) dram_boot
      = Ret [0, 0, 0] s' \<and> pg_data (frames s' 7) = (\<lambda>i. 5)"
proof -
  let ?cs = "[Store 0 2 5, Store 0 8388607 6, Load 0 2 7]"
  have "calls_ok REMOTE_BUF_SIZE ?cs (empty_dev dram_boot)"
    by (simp add: slot_fits_def dram_size) (simp add: empty_dev_def dram_boot_def read_target_def)
  then obtain s' where "kthen (sswap_dram_init_module True)
        (run_calls (dram_backend True) (\<lambda>_. 0) set_frame ?cs) dram_boot = Ret (replicate (length ?cs) 0) s'"
      "frames s' = memory (fold dev_call ?cs (empty_dev dram_boot))"
    using dram_refines_device [of ?cs dram_boot True] by blast
  moreover have "replicate (length ?cs) (0 :: int) = [0, 0, 0]" by simp
  moreover have "pg_data (memory (fold dev_call ?cs (empty_dev dram_boot)) 7) = (\<lambda>i. 5)"
    by (simp add: empty_dev_def dram_boot_def)
  ultimately show ?thesis by metis
qed

section \<open>Swap areas\<close>

text \<open>
  The swap area is ignored: two areas share one space of pages, and a page of one area is
  lost when the page with the same identifier of another area is stored.
\<close>

theorem swap_areas_alias:
  assumes "i < 8388608" "PageSwapCache (frames s p)" "PageSwapCache (frames s p')" "read_target (frames s t)"
  shows "\<exists>s'. kthen (sswap_dram_init_module True)
      (run_calls (dram_backend dbg) (\<lambda>_. 0) set_frame [Store ty i p, Store ty' i p', Load ty i t]) s
      = Ret [0, 0, 0] s' \<and> frames s' t = page_filled (pg_data (frames s p')) (frames s t)"
proof -
  let ?cs = "[Store ty i p, Store ty' i p', Load ty i t]"
  have "unat i < 8388608" using assms(1) by (simp add: word_less_nat_alt)
  then have fits: "slot_fits REMOTE_BUF_SIZE i" by (simp add: slot_fits_def dram_size)
  have ok: "calls_ok REMOTE_BUF_SIZE ?cs (empty_dev s)"
    using assms fits by (simp add: empty_dev_def)
  have "memory (fold dev_call ?cs (empty_dev s)) t = page_filled (pg_data (frames s p')) (frames s t)"
    by (simp add: empty_dev_def)
  moreover have "replicate (length ?cs) (0 :: int) = [0, 0, 0]" by simp
  ultimately show ?thesis using dram_calls [OF ok, of dbg] by (auto simp: dev_rel_def)
qed

theorem swap_areas_alias_witness:
  "\<exists>s'. kthen (sswap_dram_init_module True)
      (run_calls (dram_backend True) (\<lambda>_. 0) set_frame [Store 0 3 5, Store 1 3 6, Load 0 3 7]) dram_boot
      = Ret [0, 0, 0] s' \<and> pg_data (frames s' 7) = (\<lambda>i. 6)"
  using swap_areas_alias [of 3 dram_boot 5 6 7 True 0 1]
  by (auto simp: dram_boot_def read_target_def)

section \<open>Outside the buffer\<close>

lemma unat_page_off_mod: "unat (page_off i) = (unat i mod 2 ^ 52) * 4096"
proof -
  have "uint (page_off i) = uint i * 4096 mod (4503599627370496 * 4096)"
    by (simp add: page_off_def PAGE_SHIFT_def push_bit_eq_mult uint_word_ariths(3))
  also have "\<dots> = uint i mod 4503599627370496 * 4096" by (rule mod_mult_mult2)
  finally have "int (unat (page_off i)) = int (unat i mod 2 ^ 52 * 4096)"
    by (simp add: zmod_int)
  then show ?thesis by (simp only: of_nat_eq_iff)
qed

lemma dram_span_iff: "dram_span (page_off i) \<longleftrightarrow> unat i mod 2 ^ 52 < 8388608"
  unfolding dram_span_def unat_page_off_mod dram_size by (auto simp: PAGE_SIZE_def)



text \<open>
  Two page identifiers share their far memory exactly when they agree in the lower 52
  bits.
\<close>

theorem page_off_alias:
  "page_off i = page_off j \<longleftrightarrow> unat i mod 2 ^ 52 = unat j mod 2 ^ 52"
proof -
  have "page_off i = page_off j \<longleftrightarrow> unat (page_off i) = unat (page_off j)" by (simp add: word_unat_eq_iff)
  then show ?thesis by (simp add: unat_page_off_mod)
qed

section \<open>Without a buffer\<close>

text \<open>
  The module does not look at the result of its allocation: without memory it still
  reports success, and the first store or page fault dereferences a null pointer.
\<close>

theorem failed_vzalloc_crashes:
  assumes "read_target (frames s p)"
  shows "\<exists>s'. sswap_dram_init_module False s = Ret 0 s'
    \<and> sswap_store (dram_backend dbg) ty i p s' = Crash NullDeref
    \<and> sswap_load (dram_backend dbg) ty i p s' = Crash NullDeref"
  using assms
  by (simp add: sswap_dram_init_module_def sswap_store_def sswap_load_def dram_backend_def
      sswap_rdma_write_dram_def sswap_rdma_read_sync_dram_def sswap_rdma_read_async_dram_def dram_page_def
      read_target_def)

theorem failed_vzalloc_crashes_witness:
  "\<exists>s'. sswap_dram_init_module False dram_boot = Ret 0 s'
    \<and> sswap_store (dram_backend True) 0 3 5 s' = Crash NullDeref"
  using failed_vzalloc_crashes [of dram_boot 5 True 0 3] by (auto simp: dram_boot_def read_target_def)

end
