(* ===== verification/Kernel_Frontswap.thy ===== *)
theory Kernel_Frontswap
  imports Kernel_Swap_Props Fastswap_Props
begin

text \<open>
  Giving a page of far memory up: \<open>src/code/kernel/kernel.patch\<close> comments the calls of
  \<open>invalidate_page\<close> out of \<open>__frontswap_invalidate_page\<close> and of the beginning of
  \<open>__frontswap_store\<close>. Both versions are defined here, with frontswap's bitmap in the state;
  with the module of this repository registered they are the same.
\<close>

section \<open>State\<close>

text \<open>\<open>fs_map\<close> is the bitmap of the pages held, \<open>fs_mem\<close> what the implementations work on.\<close>

record 's frontswap_st =
  fs_map :: "u32 \<Rightarrow> u64 \<Rightarrow> bool"
  fs_invalidates :: u64
  fs_mem :: 's

definition on_mem :: "('s, 'a) kmon \<Rightarrow> ('s frontswap_st, 'a) kmon" where
  "on_mem m s =
     (case m (fs_mem s) of
        None \<Rightarrow> Hang
      | Some (Inl f) \<Rightarrow> Crash f
      | Some (Inr (r, t)) \<Rightarrow> Ret r (s\<lparr>fs_mem := t\<rparr>))"

definition frontswap_clear :: "u32 \<Rightarrow> u64 \<Rightarrow> ('s frontswap_st, unit) kmon" where
  "frontswap_clear ty off = kmodify (\<lambda>s. s\<lparr>fs_map := (fs_map s)(ty := (fs_map s ty)(off := False))\<rparr>)"

primrec invalidate_each :: "'s frontswap_ops list \<Rightarrow> u32 \<Rightarrow> u64 \<Rightarrow> ('s frontswap_st, unit) kmon" where
  "invalidate_each [] ty off = kret ()"
| "invalidate_each (ops # rest) ty off =
     kthen (on_mem (fo_invalidate_page ops ty off)) (invalidate_each rest ty off)"

section \<open>The functions, without and with the patch\<close>

text \<open>\<open>calls\<close> says whether the implementations are called, as before the patch.\<close>

definition frontswap_invalidate_page_impl ::
    "bool \<Rightarrow> 's swap_kernel \<Rightarrow> u32 \<Rightarrow> u64 \<Rightarrow> ('s frontswap_st, unit) kmon" where
  "frontswap_invalidate_page_impl calls K ty off =
     kthen (vm_bug_on (sk_debug_vm K) (sk_ops K = []))
    (kthen (vm_bug_on (sk_debug_vm K) (\<not> sk_swap_info K ty))
    (kbind (kgets (\<lambda>s. fs_map s ty off)) (\<lambda>held.
     if \<not> held then kret ()
     else kthen (if calls then invalidate_each (sk_ops K) ty off else kret ())
         (kthen (frontswap_clear ty off)
                (kmodify (\<lambda>s. s\<lparr>fs_invalidates := fs_invalidates s + 1\<rparr>))))))"

text \<open>The beginning of \<open>__frontswap_store\<close>: a page stored again is no longer held until it is stored.\<close>

definition frontswap_store_dup ::
    "bool \<Rightarrow> 's swap_kernel \<Rightarrow> u32 \<Rightarrow> u64 \<Rightarrow> ('s frontswap_st, unit) kmon" where
  "frontswap_store_dup calls K ty off =
     kbind (kgets (\<lambda>s. fs_map s ty off)) (\<lambda>held.
     if held then kthen (frontswap_clear ty off) (if calls then invalidate_each (sk_ops K) ty off else kret ())
     else kret ())"

section \<open>Properties\<close>

lemma on_mem_ret [simp]: "on_mem (kret r) = kret r"
  by (simp add: fun_eq_iff on_mem_def kret_def)

lemma invalidate_each_module:
  "\<forall>ops \<in> set opss. \<exists>B. ops = sswap_frontswap_ops B \<Longrightarrow> invalidate_each opss ty off = kret ()"
  by (induction opss)
    (auto simp: sswap_frontswap_ops_def sswap_invalidate_page_def kthen_def kbind_def kret_def fun_eq_iff)

lemma invalidate_page_run:
  "sk_ops K \<noteq> [] \<Longrightarrow> sk_swap_info K ty \<Longrightarrow> fs_map s ty off \<Longrightarrow>
   frontswap_invalidate_page_impl False K ty off s =
     Ret () (s\<lparr>fs_map := (fs_map s)(ty := (fs_map s ty)(off := False)), fs_invalidates := fs_invalidates s + 1\<rparr>)"
  by (simp add: frontswap_invalidate_page_impl_def frontswap_clear_def)

lemma without_calls:
  assumes "\<forall>ops \<in> set (sk_ops K). \<exists>B. ops = sswap_frontswap_ops B"
  shows "frontswap_invalidate_page_impl True K = frontswap_invalidate_page_impl False K"
    "frontswap_store_dup True K = frontswap_store_dup False K"
  by (intro ext, simp only: frontswap_invalidate_page_impl_def frontswap_store_dup_def
      invalidate_each_module [OF assms] if_True if_False)+

text \<open>
  C23: the calls that the patch takes out of frontswap are redundant for this module. If every
  registered implementation is \<open>sswap_frontswap_ops\<close> over some backend, invalidating a page
  and storing it again have the same effect and the same faults without the calls as with
  them; a page that was held is given up, after which a read through frontswap reports that
  it is not there and reads nothing, and every other page is held as before.
\<close>

theorem invalidate_calls_redundant:
  assumes "\<forall>ops \<in> set (sk_ops K). \<exists>B. ops = sswap_frontswap_ops B" "sk_ops K \<noteq> []"
    and "sk_swap_info K ty" "fs_map s ty off"
  shows "frontswap_invalidate_page_impl True K = frontswap_invalidate_page_impl False K
    \<and> frontswap_store_dup True K = frontswap_store_dup False K
    \<and> (\<exists>s'. frontswap_invalidate_page_impl False K ty off s = Ret () s' \<and> fs_mem s' = fs_mem s
         \<and> (\<forall>t i. fs_map s' t i = (fs_map s t i \<and> (t, i) \<noteq> (ty, off)))
         \<and> (\<forall>page. PageLocked (frames (fs_mem s) page) \<and> sk_entry K page = \<lparr>swp_type = ty, swp_offset = off\<rparr> \<longrightarrow>
              frontswap_load_async (K\<lparr>sk_test := fs_map s'\<rparr>) page (fs_mem s) = Ret (- 1) (fs_mem s)))"
proof -
  let ?s = "s\<lparr>fs_map := (fs_map s)(ty := (fs_map s ty)(off := False)), fs_invalidates := fs_invalidates s + 1\<rparr>"
  have "frontswap_load_async (K\<lparr>sk_test := fs_map ?s\<rparr>) page (fs_mem s) = Ret (- 1) (fs_mem s)"
    if "PageLocked (frames (fs_mem s) page)" "sk_entry K page = \<lparr>swp_type = ty, swp_offset = off\<rparr>" for page
    using that assms(2,3)
    by (simp add: frontswap_load_async_def frontswap_load_async_impl_def vm_bug_on_page_def kthen_def kbind_def)
  then show ?thesis
    using invalidate_page_run [OF assms(2-4)] without_calls [OF assms(1)]
    by (intro conjI exI [of _ ?s]) auto
qed

text \<open>The DRAM backend with the first eight pages held.\<close>

definition eight_held :: "dram_st frontswap_st" where
  "eight_held = \<lparr>fs_map = (\<lambda>ty i. ty = 0 \<and> i < 8), fs_invalidates = 0, fs_mem = dram_boot\<rparr>"

theorem invalidate_calls_redundant_witness:
  "\<exists>s'. frontswap_invalidate_page_impl True (sample_kernel (dram_backend True) (\<lambda>_. 0) (\<lambda>s. s)) 0 5 eight_held = Ret () s'
     \<and> fs_map s' 0 4 \<and> \<not> fs_map s' 0 5"
proof -
  let ?K = "sample_kernel (dram_backend True) (\<lambda>_. 0) (\<lambda>s. s)"
  have K: "\<forall>ops \<in> set (sk_ops ?K). \<exists>B. ops = sswap_frontswap_ops B" "sk_ops ?K \<noteq> []" "sk_swap_info ?K 0"
    and h: "fs_map eight_held 0 5" "fs_map eight_held 0 4"
    by (auto simp: sample_kernel_def eight_held_def)
  note R = invalidate_calls_redundant [OF K h(1)]
  then obtain s' where "frontswap_invalidate_page_impl False ?K 0 5 eight_held = Ret () s'"
      "\<forall>t i. fs_map s' t i = (fs_map eight_held t i \<and> (t, i) \<noteq> (0, 5))" by blast
  then show ?thesis using R h(2) by simp
qed

end
