(* ===== verification/Memcg.thy ===== *)
theory Memcg
  imports Prelude
begin

text \<open>
  The changes of \<open>src/code/kernel/kernel.patch\<close> to the kernel's memory controller
  (\<open>mm/memcontrol.c\<close>): a control group above its limit \<open>high\<close> is brought back by a worker on a
  processor of its own, 2048 pages at a time, or by the task itself when it is far above.
  \<open>reclaim_high\<close> is the kernel's and a parameter: asked for a number of pages, it gives the
  number it freed. Each function runs by itself here; \<open>Memcg_System\<close> interleaves them.
\<close>

section \<open>State\<close>

record mem_cgroup =
  cg_high :: u64
  cg_memory :: u64

text \<open>
  The group, whether its work item is queued on the reclaim processor, the number of pages the
  current task has to reclaim when it returns to user space, and whether it was told to.
\<close>

record memcg_st =
  memcg :: mem_cgroup
  work_queued :: bool

record task_st =
  memcg_nr_pages_over_high :: u64
  notify_resume :: bool

definition MAX_RECLAIM_OFFLOAD :: u64 where
  "MAX_RECLAIM_OFFLOAD = 2048"

section \<open>The worker\<close>

text \<open>
  One run of the work item. It is no longer queued when it runs; the environment \<open>freed\<close>
  answers the request with the pages that were freed.
\<close>

definition reclaim_pages :: "mem_cgroup \<Rightarrow> u64" where
  "reclaim_pages g = min (cg_memory g - cg_high g) MAX_RECLAIM_OFFLOAD"

definition high_work_func :: "(u64 \<Rightarrow> mem_cgroup \<Rightarrow> u64) \<Rightarrow> (memcg_st, unit) kmon" where
  "high_work_func freed =
     kthen (kmodify (\<lambda>s. s\<lparr>work_queued := False\<rparr>))
    (kthen (kmodify (\<lambda>s. let g = memcg s in
              if cg_memory g > cg_high g
              then s\<lparr>memcg := g\<lparr>cg_memory := cg_memory g - freed (reclaim_pages g) g\<rparr>\<rparr> else s))
           (kmodify (\<lambda>s. if cg_memory (memcg s) > cg_high (memcg s) then s\<lparr>work_queued := True\<rparr> else s)))"

text \<open>A new limit only queues the work item.\<close>

definition memory_high_write :: "u64 \<Rightarrow> (memcg_st, unit) kmon" where
  "memory_high_write h =
     kthen (kmodify (\<lambda>s. s\<lparr>memcg := (memcg s)\<lparr>cg_high := h\<rparr>\<rparr>)) (kmodify (\<lambda>s. s\<lparr>work_queued := True\<rparr>))"

text \<open>The reclaim processor runs the item as long as it is queued.\<close>

definition reclaim_cpu :: "(u64 \<Rightarrow> mem_cgroup \<Rightarrow> u64) \<Rightarrow> (memcg_st, unit) kmon" where
  "reclaim_cpu freed = whileK (\<lambda>x s. work_queued s) (\<lambda>x. high_work_func freed) ()"

section \<open>Charging a page\<close>

text \<open>
  The end of \<open>try_charge\<close>: the groups from the task's own to the root; at the first one above
  its limit either the task is told to reclaim, or the group's work item is queued, and the
  walk stops.
\<close>

fun charge_high :: "bool \<Rightarrow> memcg_st list \<Rightarrow> task_st \<Rightarrow> memcg_st list \<times> task_st" where
  "charge_high in_interrupt [] t = ([], t)"
| "charge_high in_interrupt (s # ss) t =
     (let high_limit = cg_high (memcg s); curr_pages = cg_memory (memcg s) in
      if curr_pages > high_limit then
        (let excess = curr_pages - high_limit in
         if excess > MAX_RECLAIM_OFFLOAD \<and> \<not> in_interrupt then
           (s # ss, t\<lparr>memcg_nr_pages_over_high := memcg_nr_pages_over_high t + MAX_RECLAIM_OFFLOAD,
                      notify_resume := True\<rparr>)
         else (s\<lparr>work_queued := True\<rparr> # ss, t))
      else (let (ss', t') = charge_high in_interrupt ss t in (s # ss', t')))"

section \<open>Properties\<close>

text \<open>The kernel frees at most what it is asked for, and something when asked for something.\<close>

definition frees_some :: "(u64 \<Rightarrow> mem_cgroup \<Rightarrow> u64) \<Rightarrow> bool" where
  "frees_some freed \<longleftrightarrow> (\<forall>n g. freed n g \<le> n \<and> (0 < n \<longrightarrow> 0 < freed n g))"

lemma reclaim_step:
  assumes "frees_some freed" "cg_high g < cg_memory g"
  shows "unat (cg_high g) \<le> unat (cg_memory g - freed (reclaim_pages g) g)"
    "unat (cg_memory g - freed (reclaim_pages g) g) < unat (cg_memory g)"
    "unat (cg_memory g) - unat (cg_memory g - freed (reclaim_pages g) g) \<le> 2048"
proof -
  let ?f = "freed (reclaim_pages g) g"
  have d: "unat (cg_memory g - cg_high g) = unat (cg_memory g) - unat (cg_high g)" "unat (cg_high g) < unat (cg_memory g)"
    using assms(2) by (simp_all add: unat_sub word_less_nat_alt word_le_nat_alt)
  have "0 < cg_memory g - cg_high g" using d by (simp add: word_less_nat_alt)
  then have f: "?f \<le> reclaim_pages g" "0 < ?f"
    using assms(1) by (auto simp: frees_some_def reclaim_pages_def MAX_RECLAIM_OFFLOAD_def min_def)
  have "unat ?f \<le> unat (reclaim_pages g)" "0 < unat ?f"
    using f by (simp_all add: word_le_nat_alt word_less_nat_alt)
  moreover have "unat (reclaim_pages g) \<le> unat (cg_memory g) - unat (cg_high g)" "unat (reclaim_pages g) \<le> 2048"
    using d(1) by (auto simp: reclaim_pages_def MAX_RECLAIM_OFFLOAD_def min_def word_le_nat_alt)
  moreover have "?f \<le> cg_memory g" using calculation d(2) by (simp add: word_le_nat_alt)
  then have "unat (cg_memory g - ?f) = unat (cg_memory g) - unat ?f" by (simp add: unat_sub)
  ultimately show "unat (cg_high g) \<le> unat (cg_memory g - ?f)" "unat (cg_memory g - ?f) < unat (cg_memory g)"
    "unat (cg_memory g) - unat (cg_memory g - ?f) \<le> 2048" using d(2) by linarith+
qed

text \<open>One run of the item keeps the usage at the limit or above, if it was there.\<close>

lemma high_work_func_run:
  assumes "frees_some freed"
  shows "\<exists>s'. high_work_func freed s = Ret () s' \<and> cg_high (memcg s') = cg_high (memcg s)
    \<and> work_queued s' = (cg_high (memcg s') < cg_memory (memcg s'))
    \<and> (if cg_high (memcg s) < cg_memory (memcg s)
       then unat (cg_high (memcg s)) \<le> unat (cg_memory (memcg s')) \<and> unat (cg_memory (memcg s')) < unat (cg_memory (memcg s))
       else cg_memory (memcg s') = cg_memory (memcg s))"
  using reclaim_step [OF assms, of "memcg s"] by (simp add: high_work_func_def Let_def)



lemma charge_below: "\<forall>u \<in> set pre. \<not> cg_high (memcg u) < cg_memory (memcg u) \<Longrightarrow>
  charge_high i (pre @ ss) t = (let (ss', t') = charge_high i ss t in (pre @ ss', t'))"
  by (induction pre) (auto simp: Let_def split: prod.splits)

text \<open>
  C31: charging a page acts on the first group above its limit and on no other. A task more than
  2048 pages above the limit is told to reclaim 2048 pages itself, unless it runs in an
  interrupt; in every other case the group's work item is queued.
\<close>

theorem charge_first_over:
  assumes "\<forall>u \<in> set pre. \<not> cg_high (memcg u) < cg_memory (memcg u)" "cg_high (memcg s) < cg_memory (memcg s)"
  shows "charge_high in_interrupt (pre @ s # post) t =
    (if unat (cg_memory (memcg s)) > unat (cg_high (memcg s)) + 2048 \<and> \<not> in_interrupt
     then (pre @ s # post, t\<lparr>memcg_nr_pages_over_high := memcg_nr_pages_over_high t + 2048, notify_resume := True\<rparr>)
     else (pre @ s\<lparr>work_queued := True\<rparr> # post, t))"
proof -
  have "2048 < cg_memory (memcg s) - cg_high (memcg s)
      \<longleftrightarrow> unat (cg_memory (memcg s)) > unat (cg_high (memcg s)) + 2048"
    using assms(2) by (auto simp: word_less_nat_alt unat_sub word_le_nat_alt)
  then show ?thesis using assms by (simp add: charge_below Let_def MAX_RECLAIM_OFFLOAD_def)
qed

theorem charge_first_over_witness:
  "charge_high False
     [\<lparr>memcg = \<lparr>cg_high = 10, cg_memory = 5\<rparr>, work_queued = False\<rparr>,
      \<lparr>memcg = \<lparr>cg_high = 10, cg_memory = 15\<rparr>, work_queued = False\<rparr>]
     \<lparr>memcg_nr_pages_over_high = 0, notify_resume = False\<rparr>
   = ([\<lparr>memcg = \<lparr>cg_high = 10, cg_memory = 5\<rparr>, work_queued = False\<rparr>,
       \<lparr>memcg = \<lparr>cg_high = 10, cg_memory = 15\<rparr>, work_queued = True\<rparr>],
      \<lparr>memcg_nr_pages_over_high = 0, notify_resume = False\<rparr>)"
  using charge_first_over [of "[\<lparr>memcg = \<lparr>cg_high = 10, cg_memory = 5\<rparr>, work_queued = False\<rparr>]"
      "\<lparr>memcg = \<lparr>cg_high = 10, cg_memory = 15\<rparr>, work_queued = False\<rparr>" False "[]"
      "\<lparr>memcg_nr_pages_over_high = 0, notify_resume = False\<rparr>"] by simp

end
