(* ===== verification/Memcg_System.thy ===== *)
theory Memcg_System
  imports Memcg
begin

text \<open>
  The memory controller of \<open>src/code/kernel/kernel.patch\<close> with everything that runs at the same
  time: tasks and interrupt handlers that charge pages and then compare the group with its
  limit, pages given back, new limits, and the worker, whose three parts (read the counter,
  reclaim, read the counter again) are steps of their own. A work item that is queued while
  the worker runs makes it run again, and the worker never runs twice at once.
\<close>

section \<open>State and events\<close>

datatype work_phase = Idle | Saw mem_cgroup | Recheck

text \<open>
  \<open>pending\<close> are the charges that have not yet been compared with the limit, by task and whether
  in an interrupt, \<open>kicks\<close> the writers of a new limit that have not yet queued the work item.
\<close>

record memcg_sys =
  grp :: memcg_st
  work_phase :: work_phase
  charges :: "(nat \<times> bool) list"
  kicks :: nat
  tasks :: "nat \<Rightarrow> task_st"

datatype memcg_ev =
    Charge nat bool u64
  | CheckHigh nat
  | Uncharge u64
  | SetHigh u64
  | Kick
  | WorkStart
  | WorkReclaim
  | WorkFinish
  | OwnReclaim nat

definition upd_memory :: "(mem_cgroup \<Rightarrow> u64) \<Rightarrow> memcg_sys \<Rightarrow> memcg_sys" where
  "upd_memory f s = s\<lparr>grp := (grp s)\<lparr>memcg := (memcg (grp s))\<lparr>cg_memory := f (memcg (grp s))\<rparr>\<rparr>\<rparr>"

definition queue_work :: "memcg_sys \<Rightarrow> memcg_sys" where
  "queue_work s = s\<lparr>grp := (grp s)\<lparr>work_queued := True\<rparr>\<rparr>"

definition over_high :: "mem_cgroup \<Rightarrow> bool" where
  "over_high g \<longleftrightarrow> cg_high g < cg_memory g"

text \<open>
  One event; \<open>None\<close> when it cannot happen. The comparison after a charge is \<open>charge_high\<close> for
  the group alone. A task that was told to reclaims when it returns to user space
  (\<open>mem_cgroup_handle_over_high\<close>) and is then no longer notified.
\<close>

fun memcg_do :: "(u64 \<Rightarrow> mem_cgroup \<Rightarrow> u64) \<Rightarrow> memcg_ev \<Rightarrow> memcg_sys \<Rightarrow> memcg_sys option" where
  "memcg_do freed (Charge i intr n) s =
     Some ((upd_memory (\<lambda>g. cg_memory g + n) s)\<lparr>charges := (i, intr) # charges s\<rparr>)"
| "memcg_do freed (CheckHigh k) s =
     (if k < length (charges s) then
        (let (i, intr) = charges s ! k; (gs, t) = charge_high intr [grp s] (tasks s i) in
         Some (s\<lparr>grp := hd gs, tasks := (tasks s)(i := t),
                 charges := take k (charges s) @ drop (Suc k) (charges s)\<rparr>))
      else None)"
| "memcg_do freed (Uncharge n) s =
     (if n \<le> cg_memory (memcg (grp s)) then Some (upd_memory (\<lambda>g. cg_memory g - n) s) else None)"
| "memcg_do freed (SetHigh h) s =
     Some (s\<lparr>grp := (grp s)\<lparr>memcg := (memcg (grp s))\<lparr>cg_high := h\<rparr>\<rparr>, kicks := Suc (kicks s)\<rparr>)"
| "memcg_do freed Kick s =
     (if 0 < kicks s then Some ((queue_work s)\<lparr>kicks := kicks s - 1\<rparr>) else None)"
| "memcg_do freed WorkStart s =
     (if work_queued (grp s) \<and> work_phase s = Idle
      then Some (s\<lparr>grp := (grp s)\<lparr>work_queued := False\<rparr>, work_phase := Saw (memcg (grp s))\<rparr>) else None)"
| "memcg_do freed WorkReclaim s =
     (case work_phase s of
        Saw g \<Rightarrow> Some ((if over_high g then upd_memory (\<lambda>g'. cg_memory g' - freed (reclaim_pages g) g') s else s)
                    \<lparr>work_phase := Recheck\<rparr>)
      | _ \<Rightarrow> None)"
| "memcg_do freed WorkFinish s =
     (if work_phase s = Recheck
      then Some ((if over_high (memcg (grp s)) then queue_work s else s)\<lparr>work_phase := Idle\<rparr>) else None)"
| "memcg_do freed (OwnReclaim i) s =
     (if notify_resume (tasks s i)
      then Some ((upd_memory (\<lambda>g. cg_memory g - freed (memcg_nr_pages_over_high (tasks s i)) g) s)
             \<lparr>tasks := (tasks s)(i := (tasks s i)\<lparr>memcg_nr_pages_over_high := 0, notify_resume := False\<rparr>)\<rparr>)
      else None)"

inductive memcg_run :: "(u64 \<Rightarrow> mem_cgroup \<Rightarrow> u64) \<Rightarrow> memcg_sys \<Rightarrow> memcg_ev list \<Rightarrow> memcg_sys \<Rightarrow> bool"
  for freed where
  mrun_nil: "memcg_run freed s [] s"
| mrun_snoc: "memcg_run freed s evs s1 \<Longrightarrow> memcg_do freed ev s1 = Some s2 \<Longrightarrow> memcg_run freed s (evs @ [ev]) s2"

fun_cases memcg_doE:
  "memcg_do freed (Charge i intr n) s = Some s'"
  "memcg_do freed (CheckHigh k) s = Some s'"
  "memcg_do freed (Uncharge n) s = Some s'"
  "memcg_do freed (SetHigh h) s = Some s'"
  "memcg_do freed Kick s = Some s'"
  "memcg_do freed WorkStart s = Some s'"
  "memcg_do freed WorkReclaim s = Some s'"
  "memcg_do freed WorkFinish s = Some s'"
  "memcg_do freed (OwnReclaim i) s = Some s'"

text \<open>The worker's three steps without anything in between are one run of \<open>high_work_func\<close>.\<close>

lemma worker_steps:
  assumes "work_queued (grp s)" "work_phase s = Idle"
  shows "\<exists>g s'. high_work_func freed (grp s) = Ret () g
    \<and> memcg_run freed s [WorkStart, WorkReclaim, WorkFinish] s' \<and> s' = s\<lparr>grp := g\<rparr>"
proof -
  let ?s1 = "s\<lparr>grp := (grp s)\<lparr>work_queued := False\<rparr>, work_phase := Saw (memcg (grp s))\<rparr>"
  obtain s2 where s2: "memcg_do freed WorkReclaim ?s1 = Some s2" by simp
  obtain s3 where s3: "memcg_do freed WorkFinish s2 = Some s3" using s2 by auto
  have "memcg_run freed s ((([] @ [WorkStart]) @ [WorkReclaim]) @ [WorkFinish]) s3"
    by (rule mrun_snoc [OF mrun_snoc [OF mrun_snoc [OF mrun_nil] s2] s3]) (simp add: assms)
  moreover have "s3 = s\<lparr>grp := grp s3\<rparr>" "high_work_func freed (grp s) = Ret () (grp s3)"
    using s2 s3 assms
    by (auto simp: high_work_func_def over_high_def upd_memory_def queue_work_def Let_def split: if_splits
        intro!: memcg_sys.equality memcg_st.equality)
  ultimately show ?thesis by (intro exI [of _ "grp s3"] exI [of _ s3]) simp
qed

section \<open>No lost wakeup\<close>

text \<open>Somebody will still look at the group.\<close>

definition attended :: "memcg_sys \<Rightarrow> bool" where
  "attended s \<longleftrightarrow> charges s \<noteq> [] \<or> 0 < kicks s \<or> work_queued (grp s) \<or> work_phase s \<noteq> Idle
     \<or> (\<exists>i. notify_resume (tasks s i))"

definition watched :: "memcg_sys \<Rightarrow> bool" where
  "watched s \<longleftrightarrow> (over_high (memcg (grp s)) \<longrightarrow> attended s)"

fun own_reclaim :: "memcg_ev \<Rightarrow> bool" where
  "own_reclaim (OwnReclaim i) = True"
| "own_reclaim _ = False"

lemma over_high_less: "over_high (g\<lparr>cg_memory := cg_memory g - n\<rparr>) \<Longrightarrow> n \<le> cg_memory g \<Longrightarrow> over_high g"
  by (simp add: over_high_def) (meson order_less_le_trans word_sub_le)

text \<open>A comparison leaves a group above its limit with the work item queued or the task notified.\<close>

lemma check_attends:
  assumes "memcg_do freed (CheckHigh k) s = Some s'" "over_high (memcg (grp s'))"
  shows "attended s'"
  using assms
  by (auto simp: attended_def over_high_def Let_def split: if_splits prod.splits)

lemma watched_step:
  assumes "watched s" "memcg_do freed ev s = Some s'" "\<not> own_reclaim ev"
  shows "watched s'"
proof (cases ev)
  case (CheckHigh k)
  then show ?thesis using check_attends assms(2) by (simp add: watched_def)
next
  case (Uncharge n)
  then have "n \<le> cg_memory (memcg (grp s))" "s' = upd_memory (\<lambda>g. cg_memory g - n) s"
    using assms(2) by (auto elim!: memcg_doE split: if_splits)
  then show ?thesis
    using assms(1) over_high_less [of "memcg (grp s)" n] by (simp add: watched_def attended_def upd_memory_def)
qed (use assms in \<open>auto simp: watched_def attended_def queue_work_def upd_memory_def
    split: if_splits work_phase.splits\<close>)

lemma watched_run:
  "memcg_run freed s evs s' \<Longrightarrow> watched s \<Longrightarrow> \<forall>ev \<in> set evs. \<not> own_reclaim ev \<Longrightarrow> watched s'"
  by (induction rule: memcg_run.induct) (auto intro: watched_step)


text \<open>A group at its limit; one charge, another that is still to be compared, and the worker half way.\<close>

definition full_group :: memcg_sys where
  "full_group = \<lparr>grp = \<lparr>memcg = \<lparr>cg_high = 1000, cg_memory = 1000\<rparr>, work_queued = False\<rparr>, work_phase = Idle,
     charges = [], kicks = 0, tasks = (\<lambda>_. \<lparr>memcg_nr_pages_over_high = 0, notify_resume = False\<rparr>)\<rparr>"

fun memcg_runs :: "(u64 \<Rightarrow> mem_cgroup \<Rightarrow> u64) \<Rightarrow> memcg_ev list \<Rightarrow> memcg_sys \<Rightarrow> memcg_sys option" where
  "memcg_runs freed [] s = Some s"
| "memcg_runs freed (ev # evs) s =
     (case memcg_do freed ev s of None \<Rightarrow> None | Some s' \<Rightarrow> memcg_runs freed evs s')"

lemma memcg_runs_run:
  "memcg_run freed s0 evs0 s \<Longrightarrow> memcg_runs freed evs s = Some s' \<Longrightarrow> memcg_run freed s0 (evs0 @ evs) s'"
proof (induction evs arbitrary: evs0 s)
  case (Cons ev evs)
  then obtain s1 where s1: "memcg_do freed ev s = Some s1" "memcg_runs freed evs s1 = Some s'"
    by (auto split: option.splits)
  then show ?case using Cons.IH [OF mrun_snoc [OF Cons.prems(1) s1(1)] s1(2)] by simp
qed simp


text \<open>
  A task that reclaims for itself stops after 2048 pages even when its group is still above its
  limit: until the next charge nobody looks at the group. The theorem leaves such steps out.
\<close>

lemma own_reclaim_unattended:
  "\<exists>s'. memcg_run (\<lambda>n g. n) full_group [Charge 0 False 4000, CheckHigh 0, OwnReclaim 0] s'
    \<and> over_high (memcg (grp s')) \<and> \<not> attended s'"
proof -
  let ?evs = "[Charge 0 False 4000, CheckHigh 0, OwnReclaim 0]"
  obtain s' where s': "memcg_runs (\<lambda>n g. n) ?evs full_group = Some s'"
      "over_high (memcg (grp s')) \<and> \<not> attended s'"
    by (simp add: full_group_def upd_memory_def Let_def MAX_RECLAIM_OFFLOAD_def over_high_def attended_def)
  then show ?thesis using memcg_runs_run [OF mrun_nil s'(1)] by auto
qed

end
