(* ===== verification/Double.thy ===== *)
theory Double
  imports Complex_Main Prelude
begin

text \<open>
  Arithmetic of \<open>double\<close>: the finite values are rational numbers with 53 significant bits, and
  every operation rounds its exact result to the nearest such number, ties to even. The range
  of exponents is not bounded here; the benchmark's values stay far inside it. The facts
  shown are what error analysis needs: small integers are exact, the relative error of
  one operation is at most \<open>2 ^ - 53\<close>.
\<close>

type_synonym double = rat

section \<open>Rounding\<close>

text \<open>The number of binary digits, and powers of two with any exponent.\<close>

fun bits :: "nat \<Rightarrow> nat" where
  "bits n = (if n = 0 then 0 else Suc (bits (n div 2)))"

declare bits.simps [simp del]

definition pow2 :: "int \<Rightarrow> rat" where
  "pow2 k = (if 0 \<le> k then 2 ^ nat k else 1 / 2 ^ nat (- k))"

text \<open>Rounding to the nearest integer, a tie to the even one.\<close>

definition round_even :: "rat \<Rightarrow> int" where
  "round_even q =
     (let f = \<lfloor>q\<rfloor>; r = q - of_int f in
      if r < 1 / 2 then f else if r > 1 / 2 then f + 1 else if even f then f else f + 1)"

text \<open>
  The exponent of the last of \<open>p\<close> significant bits, from the lengths of numerator and
  denominator.
\<close>

definition last_exp :: "nat \<Rightarrow> rat \<Rightarrow> int" where
  "last_exp p x =
     (let (n, d) = quotient_of x; k = int (bits (nat \<bar>n\<bar>)) - int (bits (nat d)) in
      if \<bar>x\<bar> < pow2 k then k - int p else k + 1 - int p)"

definition fl :: "nat \<Rightarrow> rat \<Rightarrow> rat" where
  "fl p x = (if x = 0 then 0 else of_int (round_even (x / pow2 (last_exp p x))) * pow2 (last_exp p x))"

definition dbl :: "rat \<Rightarrow> double" where
  "dbl x = fl 53 x"

definition dadd :: "double \<Rightarrow> double \<Rightarrow> double" where
  "dadd x y = dbl (x + y)"

definition dsub :: "double \<Rightarrow> double \<Rightarrow> double" where
  "dsub x y = dbl (x - y)"

definition dmul :: "double \<Rightarrow> double \<Rightarrow> double" where
  "dmul x y = dbl (x * y)"

definition ddiv :: "double \<Rightarrow> double \<Rightarrow> double" where
  "ddiv x y = dbl (x / y)"

text \<open>
  Conversion to \<open>int\<close> truncates; a value out of range gives the smallest \<open>int\<close>, as the
  processor's conversion does.
\<close>

definition dtoi :: "double \<Rightarrow> int" where
  "dtoi x =
     (let z = (if 0 \<le> x then \<lfloor>x\<rfloor> else \<lceil>x\<rceil>) in
      if - (2 ^ 31) \<le> z \<and> z < 2 ^ 31 then z else - (2 ^ 31))"

section \<open>Facts\<close>

lemma bits_bounds: "0 < n \<Longrightarrow> 2 ^ bits n \<le> 2 * n \<and> n < 2 ^ bits n"
proof (induction n rule: bits.induct)
  case (1 n)
  show ?case
  proof (cases "n div 2 = 0")
    case True
    then have "n = 1" using 1(2) by linarith
    then show ?thesis by (simp add: bits.simps [of "Suc 0"] bits.simps [of 0])
  next
    case False
    then have IH: "2 ^ bits (n div 2) \<le> 2 * (n div 2)" "n div 2 < 2 ^ bits (n div 2)" using 1 by simp_all
    have "bits n = Suc (bits (n div 2))" using 1(2) by (simp add: bits.simps [of n])
    moreover have "2 * (n div 2) \<le> n" "n < 2 * (n div 2) + 2" by simp_all
    ultimately show ?thesis using IH by simp
  qed
qed

lemma pow2_pos [simp]: "0 < pow2 k" "pow2 k \<noteq> 0"
  by (simp_all add: pow2_def)

lemma pow2_add: "pow2 (j + k) = pow2 j * pow2 k"
proof -
  have nn: "pow2 (int m - int n) = 2 ^ m / 2 ^ n" for m n
    by (cases "n \<le> m") (simp_all add: pow2_def nat_diff_distrib power_diff field_simps flip: power_add)
  obtain a b where j: "j = int a - int b" by (metis int_diff_cases)
  obtain c d where k: "k = int c - int d" by (metis int_diff_cases)
  have "j + k = int (a + c) - int (b + d)" by (simp add: j k)
  then have "pow2 (j + k) = 2 ^ (a + c) / 2 ^ (b + d)" by (simp only: nn)
  then show ?thesis by (simp only: j k nn power_add) (simp add: field_simps)
qed

lemma pow2_0 [simp]: "pow2 0 = 1"
  by (simp add: pow2_def)

lemma pow2_nat: "pow2 (int n) = 2 ^ n"
  by (simp add: pow2_def)

lemma round_even_int [simp]: "round_even (of_int z) = z"
  by (simp add: round_even_def)

lemma round_even_error: "\<bar>of_int (round_even q) - q\<bar> \<le> 1 / 2"
proof -
  have "of_int \<lfloor>q\<rfloor> \<le> q" "q < of_int \<lfloor>q\<rfloor> + 1" by linarith+
  then show ?thesis by (simp add: round_even_def Let_def abs_le_iff)
qed

lemma last_exp_range:
  assumes "x \<noteq> 0"
  shows "pow2 (int p - 1 + last_exp p x) \<le> \<bar>x\<bar>" "\<bar>x\<bar> < pow2 (int p + last_exp p x)"
proof -
  obtain n d where nd: "quotient_of x = (n, d)" by (cases "quotient_of x")
  have d: "0 < d" and x: "x = of_int n / of_int d"
    using quotient_of_denom_pos [OF nd] quotient_of_div [OF nd] by simp_all
  have n0: "n \<noteq> 0" using assms x by auto
  let ?bn = "bits (nat \<bar>n\<bar>)" and ?bd = "bits (nat d)"
  let ?k = "int ?bn - int ?bd"
  have N: "(2 :: rat) ^ ?bn \<le> 2 * of_int \<bar>n\<bar>" "of_int \<bar>n\<bar> < (2 :: rat) ^ ?bn"
  proof -
    have "2 ^ ?bn \<le> 2 * nat \<bar>n\<bar>" "nat \<bar>n\<bar> < 2 ^ ?bn" using bits_bounds [of "nat \<bar>n\<bar>"] n0 by simp_all
    then have "of_nat (2 ^ ?bn) \<le> (of_nat (2 * nat \<bar>n\<bar>) :: rat)" "of_nat (nat \<bar>n\<bar>) < (of_nat (2 ^ ?bn) :: rat)"
      by (simp_all only: of_nat_le_iff of_nat_less_iff)
    then show "(2 :: rat) ^ ?bn \<le> 2 * of_int \<bar>n\<bar>" "of_int \<bar>n\<bar> < (2 :: rat) ^ ?bn" by simp_all
  qed
  have D: "(2 :: rat) ^ ?bd \<le> 2 * of_int d" "of_int d < (2 :: rat) ^ ?bd"
  proof -
    have "2 ^ ?bd \<le> 2 * nat d" "nat d < 2 ^ ?bd" using bits_bounds [of "nat d"] d by simp_all
    then have "of_nat (2 ^ ?bd) \<le> (of_nat (2 * nat d) :: rat)" "of_nat (nat d) < (of_nat (2 ^ ?bd) :: rat)"
      by (simp_all only: of_nat_le_iff of_nat_less_iff)
    then show "(2 :: rat) ^ ?bd \<le> 2 * of_int d" "of_int d < (2 :: rat) ^ ?bd" using d by simp_all
  qed
  have k: "pow2 ?k * 2 ^ ?bd = 2 ^ ?bn"
    using pow2_add [of ?k "int ?bd"] by (simp add: pow2_nat)
  have ax: "\<bar>x\<bar> * of_int d = of_int \<bar>n\<bar>" using x d by (simp add: abs_divide)
  have dp: "(0 :: rat) < of_int d" using d by simp
  have hi: "\<bar>x\<bar> < pow2 ?k * 2"
  proof (rule ccontr)
    assume "\<not> ?thesis"
    then have "pow2 ?k * 2 * of_int d \<le> \<bar>x\<bar> * of_int d" using dp by simp
    moreover have "pow2 ?k * 2 ^ ?bd \<le> pow2 ?k * (2 * of_int d)" using D(1) by (intro mult_left_mono) (simp_all add: less_imp_le)
    ultimately show False using N(2) ax k by simp
  qed
  have lo: "pow2 ?k \<le> 2 * \<bar>x\<bar>"
  proof (rule ccontr)
    assume "\<not> ?thesis"
    then have "2 * \<bar>x\<bar> * of_int d < pow2 ?k * of_int d" using dp by simp
    moreover have "pow2 ?k * of_int d < pow2 ?k * 2 ^ ?bd" using D(2) by (intro mult_strict_left_mono) simp_all
    ultimately show False using N(1) ax k by simp
  qed
  have le: "last_exp p x = (if \<bar>x\<bar> < pow2 ?k then ?k - int p else ?k + 1 - int p)"
    by (simp add: last_exp_def nd Let_def)
  have p1: "pow2 (?k - 1) * 2 = pow2 ?k" "pow2 (?k + 1) = pow2 ?k * 2"
    using pow2_add [of "?k - 1" 1] pow2_add [of ?k 1] by (simp_all add: pow2_def)
  have e: "int p - 1 + (?k - int p) = ?k - 1" "int p + (?k - int p) = ?k" "int p - 1 + (?k + 1 - int p) = ?k"
    "int p + (?k + 1 - int p) = ?k + 1" by simp_all
  show "pow2 (int p - 1 + last_exp p x) \<le> \<bar>x\<bar>" "\<bar>x\<bar> < pow2 (int p + last_exp p x)"
    using hi lo p1 by (simp_all only: le e split: if_splits) auto
qed

text \<open>Rounding is a relative error of at most half a unit in the last place.\<close>

lemma fl_error: "\<bar>fl p x - x\<bar> \<le> \<bar>x\<bar> / 2 ^ p"
proof (cases "x = 0")
  case False
  let ?e = "last_exp p x"
  have "\<bar>fl p x - x\<bar> = \<bar>of_int (round_even (x / pow2 ?e)) - x / pow2 ?e\<bar> * pow2 ?e"
  proof -
    have "fl p x - x = (of_int (round_even (x / pow2 ?e)) - x / pow2 ?e) * pow2 ?e"
      using False by (simp add: fl_def left_diff_distrib)
    then show ?thesis by (simp add: abs_mult abs_of_pos)
  qed
  also have "\<dots> \<le> 1 / 2 * pow2 ?e"
    using round_even_error [of "x / pow2 ?e"] by (intro mult_right_mono) (simp_all add: less_imp_le)
  also have "\<dots> = pow2 (int p - 1 + ?e) / 2 ^ p"
    using pow2_add [of "int p - 1" ?e] pow2_add [of "int p - 1" 1] by (simp add: pow2_nat) (simp add: pow2_def)
  also have "\<dots> \<le> \<bar>x\<bar> / 2 ^ p" using last_exp_range(1) [OF False, of p] by (simp add: divide_right_mono)
  finally show ?thesis .
qed (simp add: fl_def)

lemma fl_int:
  assumes "\<bar>z\<bar> < 2 ^ p"
  shows "fl p (of_int z) = of_int z"
proof (cases "z = 0")
  case False
  let ?e = "last_exp p (of_int z)"
  have "?e \<le> 0"
  proof (rule ccontr)
    assume "\<not> ?e \<le> 0"
    then have "pow2 (int p) \<le> pow2 (int p - 1 + ?e)"
      by (auto simp: pow2_def intro!: power_increasing)
    also have "\<dots> \<le> \<bar>of_int z\<bar>" using last_exp_range(1) [of "of_int z" p] False by simp
    finally have "of_int (2 ^ p) \<le> (of_int \<bar>z\<bar> :: rat)" by (simp add: pow2_nat)
    then show False using assms by (simp only: of_int_le_iff)
  qed
  then have "of_int z / pow2 ?e = (of_int (z * 2 ^ nat (- ?e)) :: rat)" by (auto simp: pow2_def)
  then have "round_even (of_int z / pow2 ?e) = z * 2 ^ nat (- ?e)" by (simp only: round_even_int)
  then show ?thesis using False \<open>?e \<le> 0\<close> by (auto simp: fl_def pow2_def)
qed (simp add: fl_def)

section \<open>What a program relies on\<close>

text \<open>
  The interface of a floating-point format with \<open>p\<close> significant bits: the relative error of
  rounding and the exactness of small integers.
\<close>

locale rounding =
  fixes rnd :: "rat \<Rightarrow> rat" and p :: nat
  assumes error: "\<bar>rnd x - x\<bar> \<le> \<bar>x\<bar> / 2 ^ p"
    and exact: "\<bar>z\<bar> < 2 ^ p \<Longrightarrow> rnd (of_int z) = of_int z"
    and precise: "0 < p"
begin

lemma zero: "rnd 0 = 0"
  using exact [of 0] by simp

lemma of_small_nat: "n < 2 ^ p \<Longrightarrow> rnd (of_nat n) = of_nat n"
  using exact [of "int n"] by simp

text \<open>Rounding keeps the sign and changes a number by a factor of at most two.\<close>

lemma within:
  assumes "0 \<le> x"
  shows "x / 2 \<le> rnd x" "rnd x \<le> 2 * x"
proof -
  have "(2 :: rat) \<le> 2 ^ p" using precise by (metis Suc_leI one_le_numeral power_increasing power_one_right One_nat_def)
  then have "x / 2 ^ p \<le> x / 2" using assms by (intro divide_left_mono) simp_all
  moreover have "\<bar>rnd x - x\<bar> \<le> x / 2 ^ p" using error [of x] assms by simp
  ultimately have "\<bar>rnd x - x\<bar> \<le> x / 2" by (rule order_trans [rotated])
  then have "rnd x - x \<le> x / 2" "x - rnd x \<le> x / 2" by (simp_all only: abs_le_iff) simp_all
  then show "x / 2 \<le> rnd x" "rnd x \<le> 2 * x" using assms by (simp_all add: field_simps)
qed

lemma pos: "0 < x \<Longrightarrow> 0 < rnd x"
  using within(1) [of x] by (meson half_gt_zero less_imp_le less_le_trans)

end

interpretation ieee: rounding dbl 53
proof unfold_locales
  show "\<bar>dbl x - x\<bar> \<le> \<bar>x\<bar> / 2 ^ 53" for x unfolding dbl_def by (rule fl_error)
  show "\<bar>z\<bar> < 2 ^ 53 \<Longrightarrow> dbl (of_int z) = of_int z" for z unfolding dbl_def by (rule fl_int)
qed simp

lemma dbl_0 [simp]: "dbl 0 = 0"
  by (rule ieee.zero)

lemma dsub_self [simp]: "dsub x x = 0"
  by (simp add: dsub_def)

end
