(* ===== verification/Stream.thy ===== *)
theory Stream
  imports Double
begin

text \<open>
  The STREAM memory benchmark with which far memory is measured,
  \<open>src/code/eval/stream/stream.c\<close> (and \<open>mysecond.c\<close>, the same clock routine as a separate
  file): three arrays, four kernels run \<open>NTIMES\<close> times, the timing summary and the validation
  of the arrays against values computed on scalars. \<open>STREAM_TYPE\<close> is \<open>double\<close>, its default.
  The array size and \<open>NTIMES\<close> are set when the program is compiled and are parameters; the
  loops run sequentially here and by several threads in \<open>Stream_Omp\<close>. The wall clock is a
  parameter: the values that \<open>gettimeofday\<close> returns, call by call. Of the output the model
  keeps the numbers.
\<close>

section \<open>State\<close>

record timeval =
  tv_sec :: int
  tv_usec :: int

record stream_st =
  arr_a :: "double list"
  arr_b :: "double list"
  arr_c :: "double list"
  avgtime :: "double list"
  maxtime :: "double list"
  mintime :: "double list"
  times :: "double list list"
  tick :: nat

definition NTIMES :: "nat option \<Rightarrow> nat" where
  "NTIMES cmdline = (case cmdline of None \<Rightarrow> 10 | Some n \<Rightarrow> if n \<le> 1 then 10 else n)"

definition sizeof_STREAM_TYPE :: nat where
  "sizeof_STREAM_TYPE = 8"

definition FLT_MAX :: double where
  "FLT_MAX = (2 - 1 / 2 ^ 23) * 2 ^ 127"

definition stream_bytes :: "nat \<Rightarrow> double list" where
  "stream_bytes N = map (\<lambda>k. dbl (of_nat (k * sizeof_STREAM_TYPE * N))) [2, 2, 3, 3]"

definition stream_start :: "nat \<Rightarrow> nat \<Rightarrow> nat \<Rightarrow> stream_st" where
  "stream_start N off K =
     \<lparr>arr_a = replicate (N + off) 0, arr_b = replicate (N + off) 0, arr_c = replicate (N + off) 0,
      avgtime = [0, 0, 0, 0], maxtime = [0, 0, 0, 0], mintime = replicate 4 FLT_MAX,
      times = replicate 4 (replicate K 0), tick = 0\<rparr>"

section \<open>The clock\<close>

text \<open>The literals \<open>1.e-6\<close> and \<open>1.0E6\<close>.\<close>

definition em6 :: double where
  "em6 = dbl (1 / 1000000)"

definition seconds :: "timeval \<Rightarrow> double" where
  "seconds tp = dadd (dbl (of_int (tv_sec tp))) (dmul (dbl (of_int (tv_usec tp))) em6)"

definition mysecond :: "(nat \<Rightarrow> timeval) \<Rightarrow> (stream_st, double) kmon" where
  "mysecond tod = (\<lambda>s. Ret (seconds (tod (tick s))) (s\<lparr>tick := Suc (tick s)\<rparr>))"

text \<open>\<open>while ((t2 = mysecond()) - t1 < 1.0E-6);\<close>\<close>

definition wait_tick :: "(nat \<Rightarrow> timeval) \<Rightarrow> double \<Rightarrow> (stream_st, double) kmon" where
  "wait_tick tod t1 =
     kbind (mysecond tod) (\<lambda>t2. whileK (\<lambda>t2 s. dsub t2 t1 < em6) (\<lambda>t2. mysecond tod) t2)"

fun collect_ticks :: "(nat \<Rightarrow> timeval) \<Rightarrow> nat \<Rightarrow> (stream_st, double list) kmon" where
  "collect_ticks tod 0 = kret []"
| "collect_ticks tod (Suc m) =
     kbind (mysecond tod) (\<lambda>t1.
     kbind (wait_tick tod t1) (\<lambda>t2.
     kbind (collect_ticks tod m) (\<lambda>ts. kret (t2 # ts))))"

fun min_delta :: "int \<Rightarrow> double list \<Rightarrow> int" where
  "min_delta minDelta (t0 # t1 # ts) =
     (let Delta = dtoi (dmul 1000000 (dsub t1 t0));
          m = (if Delta > 0 then Delta else 0)
      in min_delta (if minDelta < m then minDelta else m) (t1 # ts))"
| "min_delta minDelta ts = minDelta"

definition checktick :: "(nat \<Rightarrow> timeval) \<Rightarrow> (stream_st, int) kmon" where
  "checktick tod = kbind (collect_ticks tod 20) (\<lambda>timesfound. kret (min_delta 1000000 timesfound))"

section \<open>The kernels\<close>

text \<open>\<open>for (j = 0; j < n; j++)\<close>.\<close>

definition for_upto :: "nat \<Rightarrow> (nat \<Rightarrow> 's \<Rightarrow> 's) \<Rightarrow> 's \<Rightarrow> 's" where
  "for_upto n body s = fold body [0..<n] s"

definition stream_init :: "nat \<Rightarrow> stream_st \<Rightarrow> stream_st" where
  "stream_init N =
     for_upto N (\<lambda>j s. s\<lparr>arr_a := (arr_a s)[j := 1], arr_b := (arr_b s)[j := 2], arr_c := (arr_c s)[j := 0]\<rparr>)"

definition stream_touch :: "nat \<Rightarrow> stream_st \<Rightarrow> stream_st" where
  "stream_touch N = for_upto N (\<lambda>j s. s\<lparr>arr_a := (arr_a s)[j := dmul 2 (arr_a s ! j)]\<rparr>)"

definition tuned_STREAM_Copy :: "nat \<Rightarrow> stream_st \<Rightarrow> stream_st" where
  "tuned_STREAM_Copy N = for_upto N (\<lambda>j s. s\<lparr>arr_c := (arr_c s)[j := arr_a s ! j]\<rparr>)"

definition tuned_STREAM_Scale :: "nat \<Rightarrow> double \<Rightarrow> stream_st \<Rightarrow> stream_st" where
  "tuned_STREAM_Scale N scalar = for_upto N (\<lambda>j s. s\<lparr>arr_b := (arr_b s)[j := dmul scalar (arr_c s ! j)]\<rparr>)"

definition tuned_STREAM_Add :: "nat \<Rightarrow> stream_st \<Rightarrow> stream_st" where
  "tuned_STREAM_Add N = for_upto N (\<lambda>j s. s\<lparr>arr_c := (arr_c s)[j := dadd (arr_a s ! j) (arr_b s ! j)]\<rparr>)"

definition tuned_STREAM_Triad :: "nat \<Rightarrow> double \<Rightarrow> stream_st \<Rightarrow> stream_st" where
  "tuned_STREAM_Triad N scalar =
     for_upto N (\<lambda>j s. s\<lparr>arr_a := (arr_a s)[j := dadd (arr_b s ! j) (dmul scalar (arr_c s ! j))]\<rparr>)"

section \<open>The main loop and the summary\<close>

definition set_time :: "nat \<Rightarrow> nat \<Rightarrow> double \<Rightarrow> stream_st \<Rightarrow> stream_st" where
  "set_time r k t s = s\<lparr>times := (times s)[r := (times s ! r)[k := t]]\<rparr>"

text \<open>One timed kernel: \<open>times[r][k]\<close> first holds the start, then the duration.\<close>

definition timed :: "(nat \<Rightarrow> timeval) \<Rightarrow> nat \<Rightarrow> nat \<Rightarrow> (stream_st \<Rightarrow> stream_st) \<Rightarrow> (stream_st, unit) kmon" where
  "timed tod r k kern =
     kbind (mysecond tod) (\<lambda>t.
     kthen (kmodify (set_time r k t))
    (kthen (kmodify kern)
    (kbind (mysecond tod) (\<lambda>t'. kmodify (\<lambda>s. set_time r k (dsub t' (times s ! r ! k)) s)))))"

fun stream_loop :: "(nat \<Rightarrow> timeval) \<Rightarrow> nat \<Rightarrow> double \<Rightarrow> nat \<Rightarrow> nat \<Rightarrow> (stream_st, unit) kmon" where
  "stream_loop tod N scalar k 0 = kret ()"
| "stream_loop tod N scalar k (Suc m) =
     kthen (timed tod 0 k (tuned_STREAM_Copy N))
    (kthen (timed tod 1 k (tuned_STREAM_Scale N scalar))
    (kthen (timed tod 2 k (tuned_STREAM_Add N))
    (kthen (timed tod 3 k (tuned_STREAM_Triad N scalar))
           (stream_loop tod N scalar (Suc k) m))))"

definition tally :: "nat \<Rightarrow> nat \<Rightarrow> stream_st \<Rightarrow> stream_st" where
  "tally k j s =
     s\<lparr>avgtime := (avgtime s)[j := dadd (avgtime s ! j) (times s ! j ! k)],
       mintime := (mintime s)[j := (if mintime s ! j < times s ! j ! k then mintime s ! j else times s ! j ! k)],
       maxtime := (maxtime s)[j := (if maxtime s ! j > times s ! j ! k then maxtime s ! j else times s ! j ! k)]\<rparr>"

definition stream_summary :: "nat \<Rightarrow> stream_st \<Rightarrow> stream_st" where
  "stream_summary K s =
     (let s1 = fold (\<lambda>k. for_upto 4 (tally k)) [1..<K] s
      in for_upto 4 (\<lambda>j s. s\<lparr>avgtime := (avgtime s)[j := ddiv (avgtime s ! j) (dbl (of_nat (K - 1)))]\<rparr>) s1)"

text \<open>The rate printed for a kernel, in MB/s.\<close>

definition stream_rate :: "nat \<Rightarrow> nat \<Rightarrow> stream_st \<Rightarrow> double" where
  "stream_rate N j s = ddiv (dmul em6 (stream_bytes N ! j)) (avgtime s ! j)"

section \<open>Validation\<close>

text \<open>The timing loop on scalars.\<close>

fun expected :: "double \<Rightarrow> nat \<Rightarrow> double \<times> double \<times> double \<Rightarrow> double \<times> double \<times> double" where
  "expected scalar 0 abc = abc"
| "expected scalar (Suc k) (aj, bj, cj) =
     (let cj = aj; bj = dmul scalar cj; cj = dadd aj bj; aj = dadd bj (dmul scalar cj)
      in expected scalar k (aj, bj, cj))"

definition sum_err :: "nat \<Rightarrow> double list \<Rightarrow> double \<Rightarrow> double" where
  "sum_err N xs e = for_upto N (\<lambda>j acc. dadd acc \<bar>dsub (xs ! j) e\<bar>) 0"

definition stream_epsilon :: double where
  "stream_epsilon =
     (if sizeof_STREAM_TYPE = 4 then em6
      else if sizeof_STREAM_TYPE = 8 then dbl (1 / 10 ^ 13) else em6)"

text \<open>
  The check of one array: \<open>None\<close> when its average relative error is small enough, otherwise
  the number of elements reported as wrong.
\<close>

definition check_array :: "nat \<Rightarrow> double list \<Rightarrow> double \<Rightarrow> nat option" where
  "check_array N xs e =
     (if \<bar>ddiv (ddiv (sum_err N xs e) (dbl (of_nat N))) e\<bar> > stream_epsilon
      then Some (for_upto N (\<lambda>j ierr. if \<bar>dsub (ddiv (xs ! j) e) 1\<bar> > stream_epsilon then Suc ierr else ierr) 0)
      else None)"

text \<open>The result is the number of arrays that fail, with the count of wrong elements of each.\<close>

definition checkSTREAMresults :: "nat \<Rightarrow> nat \<Rightarrow> stream_st \<Rightarrow> nat \<times> nat option list" where
  "checkSTREAMresults N K s =
     (let aj = 1; bj = 2; cj = 0; aj = dmul 2 aj;
          (aj, bj, cj) = expected 3 K (aj, bj, cj);
          fs = [check_array N (arr_a s) aj, check_array N (arr_b s) bj, check_array N (arr_c s) cj]
      in (length (filter (\<lambda>f. f \<noteq> None) fs), fs))"

section \<open>The program\<close>

record stream_report =
  rep_quantum :: int
  rep_estimate :: int
  rep_ticks :: int
  rep_rates :: "double list"
  rep_errors :: nat

definition stream_main :: "(nat \<Rightarrow> timeval) \<Rightarrow> nat \<Rightarrow> nat \<Rightarrow> (stream_st, int \<times> stream_report) kmon" where
  "stream_main tod N K =
     kthen (kmodify (stream_init N))
    (kbind (checktick tod) (\<lambda>quantum.
     let quantum = (if quantum \<ge> 1 then quantum else 1) in
     kbind (mysecond tod) (\<lambda>t.
     kthen (kmodify (stream_touch N))
    (kbind (mysecond tod) (\<lambda>t'.
     let t = dmul 1000000 (dsub t' t) in
     kthen (stream_loop tod N 3 0 K)
    (kthen (kmodify (stream_summary K))
    (kbind (kgets (\<lambda>s. (map (\<lambda>j. stream_rate N j s) [0..<4], fst (checkSTREAMresults N K s)))) (\<lambda>(rates, err).
     kret (0, \<lparr>rep_quantum = quantum, rep_estimate = dtoi t, rep_ticks = dtoi (ddiv t (of_int quantum)),
               rep_rates = rates, rep_errors = err\<rparr>)))))))))"

end
