(* ===== verification/Stream_Omp.thy ===== *)
theory Stream_Omp
  imports Stream "HOL-Library.Multiset"
begin

text \<open>
  The loops of the STREAM benchmark when it is compiled with OpenMP. A loop under
  \<open>#pragma omp parallel for\<close> distributes its iterations over threads; the threads run
  interleaved, each iteration reading its operands in one step and storing its result in a
  later one, and the loop ends when all threads have ended. The locale \<open>independent_loop\<close>
  states when the schedule does not matter; every loop of the program is an instance.
\<close>

section \<open>Parallel loops\<close>

text \<open>An iteration that has not begun, or one that has read its operands and has to store.\<close>

datatype 'v task = Iter nat | Pending nat 'v

fun task_index :: "'v task \<Rightarrow> nat" where
  "task_index (Iter j) = j"
| "task_index (Pending j v) = j"

inductive omp_step ::
    "(nat \<Rightarrow> 's \<Rightarrow> 'v) \<Rightarrow> (nat \<Rightarrow> 'v \<Rightarrow> 's \<Rightarrow> 's) \<Rightarrow> 'v task list list \<times> 's \<Rightarrow> 'v task list list \<times> 's \<Rightarrow> bool"
  for val put where
  read: "i < length ts \<Longrightarrow> ts ! i = Iter j # r \<Longrightarrow>
    omp_step val put (ts, s) (ts[i := Pending j (val j s) # r], s)"
| store: "i < length ts \<Longrightarrow> ts ! i = Pending j v # r \<Longrightarrow>
    omp_step val put (ts, s) (ts[i := r], put j v s)"

lemma omp_stepE:
  assumes "omp_step val put (ts, s) (ts', s')"
  obtains (read) i j r where "i < length ts" "ts ! i = Iter j # r"
      "ts' = ts[i := Pending j (val j s) # r]" "s' = s"
    | (store) i j v r where "i < length ts" "ts ! i = Pending j v # r" "ts' = ts[i := r]" "s' = put j v s"
  using assms by (cases rule: omp_step.cases) auto

definition omp_done :: "'v task list list \<Rightarrow> bool" where
  "omp_done ts \<longleftrightarrow> (\<forall>t \<in> set ts. t = [])"

text \<open>A distribution of the iterations \<open>0, ..., n - 1\<close> over threads.\<close>

definition omp_distributes :: "nat \<Rightarrow> nat list list \<Rightarrow> bool" where
  "omp_distributes n parts \<longleftrightarrow> mset (concat parts) = mset [0..<n]"

definition omp_start :: "nat list list \<Rightarrow> 'v task list list" where
  "omp_start parts = map (map Iter) parts"

fun task_steps :: "'v task \<Rightarrow> nat" where
  "task_steps (Iter j) = 2"
| "task_steps (Pending j v) = 1"

definition steps_left :: "'v task list list \<Rightarrow> nat" where
  "steps_left ts = sum_list (map task_steps (concat ts))"

lemma mset_concat_update:
  "i < length ts \<Longrightarrow> mset (concat (ts[i := xs])) = mset xs + mset (concat (ts[i := []]))"
proof (induction ts arbitrary: i)
  case (Cons t ts)
  then show ?case by (cases i) simp_all
qed simp

lemma sum_list_mset_eq: "mset xs = mset ys \<Longrightarrow> sum_list (map f xs) = (sum_list (map f ys) :: nat)"
  by (metis mset_map sum_mset_sum_list)

lemma concat_at:
  assumes "i < length ts" "ts ! i = x # r"
  shows "mset (concat ts) = mset (x # concat (ts[i := r]))"
  using mset_concat_update [OF assms(1), of "x # r"] mset_concat_update [OF assms(1), of r]
    list_update_id [of ts i] assms(2) by (simp add: add.assoc)

text \<open>Every step uses up one of the remaining steps, and there is a step until all threads end.\<close>

lemma omp_step_left:
  assumes "omp_step val put (ts, s) (ts', s')"
  shows "steps_left ts = Suc (steps_left ts')"
  using assms
proof (cases rule: omp_stepE)
  case (read i j r)
  have m: "mset (concat ts') = mset (Pending j (val j s) # concat (ts[i := r]))"
    using concat_at [of i ts' "Pending j (val j s)" r] read by simp
  show ?thesis
    using sum_list_mset_eq [OF m, of task_steps] sum_list_mset_eq [OF concat_at [OF read(1,2)], of task_steps]
    by (simp add: steps_left_def)
next
  case (store i j v r)
  then show ?thesis
    using sum_list_mset_eq [OF concat_at [OF store(1,2)], of task_steps] by (simp add: steps_left_def)
qed

lemma omp_progress:
  assumes "\<not> omp_done ts"
  shows "\<exists>ts' s'. omp_step val put (ts, s) (ts', s')"
proof -
  obtain i where i: "i < length ts" "ts ! i \<noteq> []" using assms by (auto simp: omp_done_def in_set_conv_nth)
  then obtain x r where x: "ts ! i = x # r" by (cases "ts ! i") auto
  show ?thesis
  proof (cases x)
    case (Iter j)
    then show ?thesis using omp_step.read [OF i(1), of j r val put s] x by auto
  next
    case (Pending j v)
    then show ?thesis using omp_step.store [OF i(1), of j v r val put s] x by auto
  qed
qed

section \<open>Loops whose iterations are independent\<close>

locale independent_loop =
  fixes val :: "nat \<Rightarrow> 's \<Rightarrow> 'v" and put :: "nat \<Rightarrow> 'v \<Rightarrow> 's \<Rightarrow> 's"
  assumes val_put: "i \<noteq> j \<Longrightarrow> val i (put j v s) = val i s"
    and put_put: "i \<noteq> j \<Longrightarrow> put i v (put j w s) = put j w (put i v s)"
begin

fun exec :: "'v task \<Rightarrow> 's \<Rightarrow> 's" where
  "exec (Iter j) s = put j (val j s) s"
| "exec (Pending j v) s = put j v s"

lemma exec_commute:
  "task_index x \<noteq> task_index y \<Longrightarrow> exec x (exec y s) = exec y (exec x s)"
  using put_put [of "task_index x" "task_index y"] by (cases x; cases y) (auto simp: val_put)

lemma fold_exec_cong:
  assumes "distinct (map task_index xs)" "mset xs = mset ys"
  shows "fold exec xs s = fold exec ys s"
proof -
  have "exec x \<circ> exec y = exec y \<circ> exec x" if "x \<in> set xs" "y \<in> set xs" for x y
    using that assms(1) exec_commute [of x y] by (cases "x = y") (auto simp: distinct_map inj_on_def fun_eq_iff)
  then have "fold exec xs = fold exec ys" using assms(2) by (rule fold_multiset_equiv)
  then show ?thesis by simp
qed

lemma distinct_index_cong: "mset xs = mset ys \<Longrightarrow> distinct (map task_index xs) = distinct (map task_index ys)"
  by (metis mset_eq_imp_distinct_iff mset_map)

text \<open>A step changes nothing of what the remaining tasks will have computed in the end.\<close>

lemma step_result:
  assumes st: "omp_step val put (ts, s) (ts', s')" and d: "distinct (map task_index (concat ts))"
  shows "fold exec (concat ts) s = fold exec (concat ts') s' \<and> distinct (map task_index (concat ts'))"
  using st
proof (cases rule: omp_stepE)
  case (read i j r)
  let ?p = "Pending j (val j s)"
  have m: "mset (concat ts) = mset (Iter j # concat (ts[i := r]))" using concat_at [OF read(1,2)] .
  have m': "mset (concat ts') = mset (?p # concat (ts[i := r]))"
    using concat_at [of i ts' ?p r] read by simp
  have D: "distinct (map task_index (Iter j # concat (ts[i := r])))" using d distinct_index_cong [OF m] by blast
  then have D': "distinct (map task_index (?p # concat (ts[i := r])))" by simp
  have "fold exec (concat ts) s = fold exec (?p # concat (ts[i := r])) s"
    using fold_exec_cong [OF d m, of s] by simp
  also have "\<dots> = fold exec (concat ts') s" using fold_exec_cong [OF D' m' [symmetric]] .
  finally show ?thesis using distinct_index_cong [OF m'] D' read(4) by simp
next
  case (store i j v r)
  note m = concat_at [OF store(1,2)]
  have "distinct (map task_index (Pending j v # concat (ts[i := r])))" using d distinct_index_cong [OF m] by blast
  then show ?thesis using fold_exec_cong [OF d m, of s] store(3,4) by simp
qed

lemma run_result:
  assumes "(omp_step val put ^^ k) (ts, s) (ts', s')" "distinct (map task_index (concat ts))"
  shows "fold exec (concat ts) s = fold exec (concat ts') s' \<and> steps_left ts = k + steps_left ts'"
  using assms
proof (induction k arbitrary: ts s)
  case (Suc k)
  obtain ts1 s1 where st: "omp_step val put (ts, s) (ts1, s1)" "(omp_step val put ^^ k) (ts1, s1) (ts', s')"
    using relpowp_Suc_D2 [OF Suc.prems(1)] by auto
  note R = step_result [OF st(1) Suc.prems(2)]
  show ?case using Suc.IH [OF st(2)] R omp_step_left [OF st(1)] by simp
qed simp

text \<open>Every schedule of every distribution ends after two steps per iteration with the sequential result.\<close>

lemma parallel_loop:
  assumes D: "omp_distributes n parts" and run: "(omp_step val put ^^ k) (omp_start parts, s) (ts, s')"
  shows "k \<le> 2 * n" "omp_done ts \<longleftrightarrow> k = 2 * n"
    "omp_done ts \<Longrightarrow> s' = for_upto n (\<lambda>j s. put j (val j s) s) s"
proof -
  have c: "concat (omp_start parts :: 'v task list list) = map Iter (concat parts)" by (simp add: omp_start_def map_concat)
  have dp: "distinct (concat parts)"
    using D mset_eq_imp_distinct_iff [of "concat parts" "[0..<n]"] by (simp add: omp_distributes_def)
  then have d: "distinct (map task_index (concat (omp_start parts :: 'v task list list)))"
    by (simp add: c comp_def)
  have len: "length (concat parts) = n"
    using D mset_eq_length [of "concat parts" "[0..<n]"] by (simp add: omp_distributes_def)
  have "steps_left (omp_start parts :: 'v task list list) = 2 * n"
    using len by (simp add: steps_left_def c comp_def sum_list_triv)
  then have k: "2 * n = k + steps_left ts" using run_result [OF run d] by simp
  then show "k \<le> 2 * n" by simp
  have left: "steps_left ts = 0 \<longleftrightarrow> omp_done ts"
  proof
    assume "steps_left ts = 0"
    then have "concat ts = []"
      by (cases "concat ts"; cases "hd (concat ts)") (auto simp: steps_left_def simp del: concat_eq_Nil_conv)
    then show "omp_done ts" by (auto simp: omp_done_def)
  qed (auto simp: omp_done_def steps_left_def)
  then show "omp_done ts \<longleftrightarrow> k = 2 * n" using k by auto
  show "s' = for_upto n (\<lambda>j s. put j (val j s) s) s" if "omp_done ts"
  proof -
    have "concat ts = []" using that by (simp add: omp_done_def)
    then have "s' = fold exec (map Iter (concat parts)) s"
      using run_result [OF run d] unfolding c by (simp only: fold_simps)
    also have "\<dots> = fold exec (map Iter [0..<n]) s"
      using D dp arg_cong [of "mset (concat parts)" "mset [0..<n]" "image_mset Iter"]
      by (intro fold_exec_cong) (simp_all add: comp_def omp_distributes_def)
    finally have "s' = fold (exec \<circ> Iter) [0..<n] s" by (simp add: fold_map)
    moreover have "exec \<circ> Iter = (\<lambda>j s. put j (val j s) s)" by (simp add: fun_eq_iff)
    ultimately show ?thesis by (simp add: for_upto_def)
  qed
qed

end

section \<open>The loops of the program\<close>

text \<open>
  The six loops under \<open>#pragma omp parallel for\<close>: for each the value an iteration computes, the
  element it stores it in, and the sequential loop. The loop that fills the arrays stores
  three constants.
\<close>

datatype omp_loop = Fill | Touch | Copy | Scale double | Add | Triad double

fun omp_val :: "omp_loop \<Rightarrow> nat \<Rightarrow> stream_st \<Rightarrow> double" where
  "omp_val Fill j s = 1"
| "omp_val Touch j s = dmul 2 (arr_a s ! j)"
| "omp_val Copy j s = arr_a s ! j"
| "omp_val (Scale scalar) j s = dmul scalar (arr_c s ! j)"
| "omp_val Add j s = dadd (arr_a s ! j) (arr_b s ! j)"
| "omp_val (Triad scalar) j s = dadd (arr_b s ! j) (dmul scalar (arr_c s ! j))"

fun omp_put :: "omp_loop \<Rightarrow> nat \<Rightarrow> double \<Rightarrow> stream_st \<Rightarrow> stream_st" where
  "omp_put Fill j v s =
     s\<lparr>arr_a := (arr_a s)[j := v], arr_b := (arr_b s)[j := 2], arr_c := (arr_c s)[j := 0]\<rparr>"
| "omp_put Touch j v s = s\<lparr>arr_a := (arr_a s)[j := v]\<rparr>"
| "omp_put Copy j v s = s\<lparr>arr_c := (arr_c s)[j := v]\<rparr>"
| "omp_put (Scale scalar) j v s = s\<lparr>arr_b := (arr_b s)[j := v]\<rparr>"
| "omp_put Add j v s = s\<lparr>arr_c := (arr_c s)[j := v]\<rparr>"
| "omp_put (Triad scalar) j v s = s\<lparr>arr_a := (arr_a s)[j := v]\<rparr>"

fun seq_loop :: "nat \<Rightarrow> omp_loop \<Rightarrow> stream_st \<Rightarrow> stream_st" where
  "seq_loop N Fill = stream_init N"
| "seq_loop N Touch = stream_touch N"
| "seq_loop N Copy = tuned_STREAM_Copy N"
| "seq_loop N (Scale scalar) = tuned_STREAM_Scale N scalar"
| "seq_loop N Add = tuned_STREAM_Add N"
| "seq_loop N (Triad scalar) = tuned_STREAM_Triad N scalar"

lemma seq_loop_for: "seq_loop N l s = for_upto N (\<lambda>j s. omp_put l j (omp_val l j s) s) s"
  by (cases l) (simp_all add: stream_init_def stream_touch_def tuned_STREAM_Copy_def tuned_STREAM_Scale_def
      tuned_STREAM_Add_def tuned_STREAM_Triad_def)

interpretation omp: independent_loop "omp_val l" "omp_put l" for l
proof
  fix i j :: nat and v w and s :: stream_st
  assume ij: "i \<noteq> j"
  show "omp_val l i (omp_put l j v s) = omp_val l i s" using ij by (cases l) simp_all
  show "omp_put l i v (omp_put l j w s) = omp_put l j w (omp_put l i v s)"
    using ij by (cases l) (simp_all add: list_update_swap [of i j])
qed

text \<open>Loops one after the other, each with a distribution and a schedule of its own.\<close>

inductive omp_program :: "nat \<Rightarrow> omp_loop list \<Rightarrow> stream_st \<Rightarrow> stream_st \<Rightarrow> bool" for N where
  omp_end: "omp_program N [] s s"
| omp_loop: "omp_distributes N parts \<Longrightarrow>
    (omp_step (omp_val l) (omp_put l) ^^ k) (omp_start parts, s) (ts, s1) \<Longrightarrow> omp_done ts \<Longrightarrow>
    omp_program N ls s1 s2 \<Longrightarrow> omp_program N (l # ls) s s2"

lemma omp_program_result: "omp_program N ls s s' \<Longrightarrow> s' = fold (seq_loop N) ls s"
proof (induction rule: omp_program.induct)
  case (omp_loop parts l k s ts s1 ls s2)
  then show ?case using omp.parallel_loop(3) [OF omp_loop.hyps(1,2)] seq_loop_for by simp
qed simp

text \<open>A schedule can always be continued until the threads have ended.\<close>

lemma omp_runs_on:
  assumes "steps_left ts = n"
  shows "\<exists>k ts' s'. (omp_step val put ^^ k) (ts, s) (ts', s') \<and> omp_done ts'"
  using assms
proof (induction n arbitrary: ts s rule: less_induct)
  case (less n)
  show ?case
  proof (cases "omp_done ts")
    case True
    then show ?thesis by (intro exI [of _ 0]) auto
  next
    case False
    obtain ts1 s1 where st: "omp_step val put (ts, s) (ts1, s1)"
      using omp_progress [OF False, of val put s] by blast
    then have "steps_left ts1 < n" using omp_step_left [OF st] less.prems by simp
    then obtain k ts' s' where "(omp_step val put ^^ k) (ts1, s1) (ts', s')" "omp_done ts'"
      using less.IH [OF _ refl, of ts1 s1] by blast
    then show ?thesis using relpowp_Suc_I2 [of "omp_step val put", OF st] by blast
  qed
qed

lemma omp_program_exists: "omp_distributes N parts \<Longrightarrow> \<exists>s'. omp_program N ls s s'"
proof (induction ls arbitrary: s)
  case Nil
  then show ?case using omp_program.omp_end by blast
next
  case (Cons l ls)
  obtain k ts s1 where "(omp_step (omp_val l) (omp_put l) ^^ k) (omp_start parts, s) (ts, s1)" "omp_done ts"
    using omp_runs_on [OF refl, of "omp_val l" "omp_put l" "omp_start parts" s] by blast
  moreover obtain s2 where "omp_program N ls s1 s2" using Cons by blast
  ultimately show ?case using omp_program.omp_loop [OF Cons.prems] by blast
qed

lemma distributes_one: "omp_distributes N [[0..<N]]"
  by (simp add: omp_distributes_def)

text \<open>
  C34: the loops of the benchmark compute the same with OpenMP as without. For every sequence of
  its loops there are parallel runs, and whatever the distribution of each loop's iterations
  over threads and the interleaving of their reads and stores, a run ends in the state of the
  sequential loops.
\<close>

theorem parallel_program_sequential: "omp_program N ls s s' \<longleftrightarrow> s' = fold (seq_loop N) ls s"
  using omp_program_result omp_program_exists [OF distributes_one, of N ls s] by metis

text \<open>
  A parallel loop ends under every schedule: it has a next step until all threads have
  ended, and they have ended after two steps per iteration.
\<close>

theorem parallel_loop_ends:
  assumes "omp_distributes N parts" "(omp_step (omp_val l) (omp_put l) ^^ k) (omp_start parts, s) (ts, s1)"
  shows "k \<le> 2 * N \<and> (omp_done ts \<longleftrightarrow> k = 2 * N)
    \<and> (\<not> omp_done ts \<longrightarrow> (\<exists>ts' s'. omp_step (omp_val l) (omp_put l) (ts, s1) (ts', s')))"
  using omp.parallel_loop(1,2) [OF assms] omp_progress [of ts "omp_val l" "omp_put l" s1] by auto

text \<open>Two threads of two iterations; the second one begins.\<close>

theorem parallel_loop_ends_witness:
  "\<exists>ts s. (omp_step (omp_val Copy) (omp_put Copy) ^^ 1)
      (omp_start [[0, 2], [1, 3]], stream_start 4 0 2) (ts, s)
    \<and> (\<exists>ts' s'. omp_step (omp_val Copy) (omp_put Copy) (ts, s) (ts', s'))"
proof -
  let ?s = "stream_start 4 0 2"
  let ?ts = "[[Iter 0, Iter 2], [Pending 1 0, Iter 3]]"
  have v: "omp_val Copy 1 ?s = 0" by (simp add: stream_start_def)
  have "omp_step (omp_val Copy) (omp_put Copy) (omp_start [[0, 2], [1, 3]], ?s) (?ts, ?s)"
    using omp_step.read [of 1 "omp_start [[0, 2], [1, 3]]" 1 "[Iter 3]" "omp_val Copy" "omp_put Copy" ?s]
    unfolding v by (simp add: omp_start_def)
  then have r: "(omp_step (omp_val Copy) (omp_put Copy) ^^ 1) (omp_start [[0, 2], [1, 3]], ?s) (?ts, ?s)"
    by (simp only: relpowp_1)
  have "omp_distributes 4 [[0, 2], [1, 3]]" by (simp add: omp_distributes_def upt_rec numeral_eq_Suc)
  from parallel_loop_ends [OF this r] show ?thesis using r by (auto simp: omp_done_def)
qed

end
