(* ===== verification/Stream_Props.thy ===== *)
theory Stream_Props
  imports Stream
begin

text \<open>
  The properties of the STREAM benchmark: the arrays hold what the validation computes on
  scalars, so an undisturbed run validates; the clock test ends when the clock advances, and
  never ends when it stands still; the summary's extremes are those of the iterations after
  the first.
\<close>

section \<open>Loops over arrays\<close>

lemma for_upto_0 [simp]: "for_upto 0 f s = s"
  by (simp add: for_upto_def)

lemma for_upto_Suc [simp]: "for_upto (Suc n) f s = f n (for_upto n f s)"
  by (simp add: for_upto_def)

text \<open>The array after the first \<open>n\<close> elements are set to \<open>v\<close>.\<close>

definition filled :: "nat \<Rightarrow> double \<Rightarrow> double list \<Rightarrow> double list" where
  "filled n v xs = replicate n v @ drop n xs"

lemma filled_0 [simp]: "filled 0 v xs = xs"
  by (simp add: filled_def)

lemma filled_step: "n < length xs \<Longrightarrow> (filled n v xs)[n := v] = filled (Suc n) v xs"
proof -
  assume n: "n < length xs"
  then have "drop n xs = xs ! n # drop (Suc n) xs" by (rule Cons_nth_drop_Suc [symmetric])
  then show ?thesis
    by (simp add: filled_def list_update_append) (metis append_Cons replicate_app_Cons_same replicate_append_same)
qed

lemma filled_nth: "n < length xs \<Longrightarrow> filled n v xs ! n = xs ! n"
  by (simp add: filled_def nth_append)

lemma length_filled [simp]: "n \<le> length xs \<Longrightarrow> length (filled n v xs) = length xs"
  by (simp add: filled_def)

text \<open>Uniform arrays: the first \<open>N\<close> elements of the three arrays.\<close>

definition uni :: "nat \<Rightarrow> double \<Rightarrow> double list \<Rightarrow> bool" where
  "uni N v xs \<longleftrightarrow> N \<le> length xs \<and> (\<forall>j < N. xs ! j = v)"

definition uni3 :: "nat \<Rightarrow> double \<times> double \<times> double \<Rightarrow> stream_st \<Rightarrow> bool" where
  "uni3 N abc s \<longleftrightarrow> uni N (fst abc) (arr_a s) \<and> uni N (fst (snd abc)) (arr_b s) \<and> uni N (snd (snd abc)) (arr_c s)"

lemma uni_filled [simp]: "N \<le> length xs \<Longrightarrow> uni N v (filled N v xs)"
  by (simp add: uni_def filled_def nth_append)

lemma uniD: "uni N v xs \<Longrightarrow> j < N \<Longrightarrow> xs ! j = v" "uni N v xs \<Longrightarrow> N \<le> length xs"
  by (simp_all add: uni_def)

section \<open>The kernels\<close>

lemma init_run:
  assumes "n \<le> length (arr_a s)" "n \<le> length (arr_b s)" "n \<le> length (arr_c s)"
  shows "stream_init n s =
    s\<lparr>arr_a := filled n 1 (arr_a s), arr_b := filled n 2 (arr_b s), arr_c := filled n 0 (arr_c s)\<rparr>"
  using assms by (induction n) (simp_all add: stream_init_def filled_step)

lemma touch_run:
  assumes "uni N v (arr_a s)" "n \<le> N"
  shows "stream_touch n s = s\<lparr>arr_a := filled n (dmul 2 v) (arr_a s)\<rparr>"
  using assms(2)
proof (induction n)
  case (Suc n)
  then show ?case using uniD [OF assms(1)] by (simp add: stream_touch_def filled_step filled_nth)
qed (simp add: stream_touch_def)

lemma copy_run:
  assumes "uni N v (arr_a s)" "N \<le> length (arr_c s)" "n \<le> N"
  shows "tuned_STREAM_Copy n s = s\<lparr>arr_c := filled n v (arr_c s)\<rparr>"
  using assms(3)
proof (induction n)
  case (Suc n)
  then show ?case using uniD [OF assms(1)] assms(2) by (simp add: tuned_STREAM_Copy_def filled_step)
qed (simp add: tuned_STREAM_Copy_def)

lemma scale_run:
  assumes "uni N v (arr_c s)" "N \<le> length (arr_b s)" "n \<le> N"
  shows "tuned_STREAM_Scale n sc s = s\<lparr>arr_b := filled n (dmul sc v) (arr_b s)\<rparr>"
  using assms(3)
proof (induction n)
  case (Suc n)
  then show ?case using uniD [OF assms(1)] assms(2) by (simp add: tuned_STREAM_Scale_def filled_step)
qed (simp add: tuned_STREAM_Scale_def)

lemma add_run:
  assumes "uni N v (arr_a s)" "uni N w (arr_b s)" "N \<le> length (arr_c s)" "n \<le> N"
  shows "tuned_STREAM_Add n s = s\<lparr>arr_c := filled n (dadd v w) (arr_c s)\<rparr>"
  using assms(4)
proof (induction n)
  case (Suc n)
  then show ?case using uniD [OF assms(1)] uniD [OF assms(2)] assms(3)
    by (simp add: tuned_STREAM_Add_def filled_step)
qed (simp add: tuned_STREAM_Add_def)

lemma triad_run:
  assumes "uni N v (arr_b s)" "uni N w (arr_c s)" "N \<le> length (arr_a s)" "n \<le> N"
  shows "tuned_STREAM_Triad n sc s = s\<lparr>arr_a := filled n (dadd v (dmul sc w)) (arr_a s)\<rparr>"
  using assms(4)
proof (induction n)
  case (Suc n)
  then show ?case using uniD [OF assms(1)] uniD [OF assms(2)] assms(3)
    by (simp add: tuned_STREAM_Triad_def filled_step)
qed (simp add: tuned_STREAM_Triad_def)

text \<open>Each kernel takes uniform arrays to uniform arrays.\<close>

lemma kernels_uni:
  assumes "uni3 N (a, b, c) s"
  shows "uni3 N (dmul 2 a, b, c) (stream_touch N s)"
    "uni3 N (a, b, a) (tuned_STREAM_Copy N s)"
    "uni3 N (a, dmul sc c, c) (tuned_STREAM_Scale N sc s)"
    "uni3 N (a, b, dadd a b) (tuned_STREAM_Add N s)"
    "uni3 N (dadd b (dmul sc c), b, c) (tuned_STREAM_Triad N sc s)"
  using assms touch_run [of N a s N] copy_run [of N a s N] scale_run [of N c s N sc]
    add_run [of N a s b N] triad_run [of N b s c N sc]
  by (auto simp: uni3_def dest: uniD(2))

section \<open>The main loop\<close>

lemma set_time_arrays [simp]:
  "arr_a (set_time r k t s) = arr_a s" "arr_b (set_time r k t s) = arr_b s" "arr_c (set_time r k t s) = arr_c s"
  by (simp_all add: set_time_def)

lemma uni3_frame [simp]:
  "uni3 N abc (set_time r k t s) = uni3 N abc s" "uni3 N abc (s\<lparr>tick := i\<rparr>) = uni3 N abc s"
  by (simp_all add: uni3_def)

lemma timed_uni:
  assumes "\<And>s. uni3 N abc s \<Longrightarrow> uni3 N abc' (kern s)" "uni3 N abc s"
  shows "\<exists>s'. timed tod r k kern s = Ret () s' \<and> uni3 N abc' s'"
  using assms by (simp add: timed_def mysecond_def)

lemma timed_kernels:
  assumes "uni3 N (a, b, c) s"
  shows "\<exists>s'. timed tod r k (tuned_STREAM_Copy N) s = Ret () s' \<and> uni3 N (a, b, a) s'"
    "\<exists>s'. timed tod r k (tuned_STREAM_Scale N sc) s = Ret () s' \<and> uni3 N (a, dmul sc c, c) s'"
    "\<exists>s'. timed tod r k (tuned_STREAM_Add N) s = Ret () s' \<and> uni3 N (a, b, dadd a b) s'"
    "\<exists>s'. timed tod r k (tuned_STREAM_Triad N sc) s = Ret () s' \<and> uni3 N (dadd b (dmul sc c), b, c) s'"
  by (rule timed_uni [OF _ assms], erule kernels_uni)+

lemma loop_uni:
  "uni3 N abc s \<Longrightarrow> \<exists>s'. stream_loop tod N sc k m s = Ret () s' \<and> uni3 N (expected sc m abc) s'"
proof (induction m arbitrary: k abc s)
  case (Suc m)
  obtain a b c where abc: "abc = (a, b, c)" by (cases abc)
  let ?b = "dmul sc a" let ?c = "dadd a ?b" let ?a = "dadd ?b (dmul sc ?c)"
  obtain s1 where s1: "timed tod 0 k (tuned_STREAM_Copy N) s = Ret () s1" "uni3 N (a, b, a) s1"
    using timed_kernels(1) Suc.prems abc by blast
  obtain s2 where s2: "timed tod 1 k (tuned_STREAM_Scale N sc) s1 = Ret () s2" "uni3 N (a, ?b, a) s2"
    using timed_kernels(2) [OF s1(2)] by blast
  obtain s3 where s3: "timed tod 2 k (tuned_STREAM_Add N) s2 = Ret () s3" "uni3 N (a, ?b, ?c) s3"
    using timed_kernels(3) [OF s2(2)] by blast
  obtain s4 where s4: "timed tod 3 k (tuned_STREAM_Triad N sc) s3 = Ret () s4" "uni3 N (?a, ?b, ?c) s4"
    using timed_kernels(4) [OF s3(2)] by blast
  show ?case using Suc.IH [OF s4(2), of "Suc k"] s1(1) s2(1) s3(1) s4(1) by (simp add: abc Let_def)
qed simp

section \<open>Validation\<close>

lemma epsilon_nonneg: "0 \<le> stream_epsilon"
  using ieee.pos [of "1 / 10 ^ 13"] by (simp add: stream_epsilon_def sizeof_STREAM_TYPE_def)

lemma em6_bounds: "0 < em6" "em6 \<le> 1"
proof -
  show "0 < em6" unfolding em6_def by (rule ieee.pos) simp
  have "em6 \<le> 2 * (1 / 1000000)" unfolding em6_def by (rule ieee.within(2)) simp
  then show "em6 \<le> 1" by simp
qed

lemma dmul_2_1: "dmul 2 1 = 2"
  using ieee.of_small_nat [of 2] by (simp add: dmul_def)

lemma sum_err_uni: "uni N e xs \<Longrightarrow> sum_err N xs e = 0"
proof -
  assume u: "uni N e xs"
  have "for_upto n (\<lambda>j acc. dadd acc \<bar>dsub (xs ! j) e\<bar>) 0 = 0" if "n \<le> N" for n
    using that by (induction n) (simp_all add: uniD(1) [OF u] dadd_def)
  then show ?thesis by (simp add: sum_err_def)
qed

lemma check_array_uni: "uni N e xs \<Longrightarrow> check_array N xs e = None"
  using epsilon_nonneg by (simp add: check_array_def sum_err_uni ddiv_def)

lemma check_uni:
  assumes "uni3 N (expected 3 K (2, 2, 0)) s"
  shows "fst (checkSTREAMresults N K s) = 0"
proof -
  obtain a b c where e: "expected 3 K (2, 2, 0) = (a, b, c)" by (cases "expected 3 K (2, 2, 0)")
  show ?thesis
    using assms check_array_uni by (simp add: dmul_2_1 checkSTREAMresults_def e uni3_def Let_def)
qed

text \<open>In the range of exact integers the scalars have a closed form.\<close>

lemma dop_nat:
  "x * y < 2 ^ 53 \<Longrightarrow> dmul (of_nat x) (of_nat y) = of_nat (x * y)"
  "x + y < 2 ^ 53 \<Longrightarrow> dadd (of_nat x) (of_nat y) = of_nat (x + y)"
  by (simp_all add: dmul_def dadd_def ieee.of_small_nat flip: of_nat_mult of_nat_add)

lemma expected_exact:
  assumes "a * 15 ^ K < 2 ^ 53" "0 < K"
  shows "expected 3 K (of_nat a, b, c) =
    (of_nat (a * 15 ^ K), of_nat (3 * a * 15 ^ (K - 1)), of_nat (4 * a * 15 ^ (K - 1)))"
  using assms
proof (induction K arbitrary: a b c)
  case (Suc K)
  have "a * 15 \<le> a * 15 ^ Suc K" by simp
  then have "a * 15 < 2 ^ 53" using Suc.prems(1) by (rule le_less_trans)
  then have v: "dmul 3 (of_nat a) = of_nat (3 * a)" "dadd (of_nat a) (of_nat (3 * a)) = of_nat (4 * a)"
      "dmul 3 (of_nat (4 * a)) = of_nat (12 * a)" "dadd (of_nat (3 * a)) (of_nat (12 * a)) = of_nat (15 * a)"
    using dop_nat(1) [of 3 a] dop_nat(2) [of a "3 * a"] dop_nat(1) [of 3 "4 * a"] dop_nat(2) [of "3 * a" "12 * a"]
    by simp_all
  then have step: "expected 3 (Suc K) (of_nat a, b, c) = expected 3 K (of_nat (15 * a), of_nat (3 * a), of_nat (4 * a))"
    by (simp only: expected.simps Let_def v)
  show ?case
  proof (cases K)
    case 0
    then show ?thesis using step by simp
  next
    case (Suc K')
    have "15 * a * 15 ^ K < 2 ^ 53" using Suc.prems(1) by (simp add: ac_simps)
    then show ?thesis using step Suc.IH [of "15 * a"] Suc by (simp add: ac_simps)
  qed
qed simp

section \<open>The clock\<close>

text \<open>The clock keeps advancing: every time is passed by at least a microsecond.\<close>

definition clock_live :: "(nat \<Rightarrow> timeval) \<Rightarrow> bool" where
  "clock_live tod \<longleftrightarrow> (\<forall>k t. \<exists>k' \<ge> k. em6 \<le> dsub (seconds (tod k')) t)"

lemma mysecond_run [simp]: "mysecond tod s = Ret (seconds (tod (tick s))) (s\<lparr>tick := Suc (tick s)\<rparr>)"
  by (simp add: mysecond_def)

text \<open>What the clock test leaves alone: everything but the number of clock readings.\<close>

definition only_tick :: "stream_st \<Rightarrow> stream_st \<Rightarrow> bool" where
  "only_tick s s' \<longleftrightarrow> s'\<lparr>tick := tick s\<rparr> = s"

lemma only_tick_trans: "only_tick s s' \<Longrightarrow> only_tick s' s'' \<Longrightarrow> only_tick s s''"
  unfolding only_tick_def by (metis stream_st.surjective stream_st.update_convs(8))

lemma only_tick_read: "only_tick s (s\<lparr>tick := i\<rparr>)"
  by (simp add: only_tick_def)

lemma wait_tick_returns:
  assumes "clock_live tod"
  shows "\<exists>t s'. wait_tick tod t1 s = Ret t s' \<and> only_tick s s'"
proof -
  let ?P = "\<lambda>k. em6 \<le> dsub (seconds (tod k)) t1"
  let ?I = "\<lambda>t2 u. only_tick s u \<and> (\<exists>c. tick u = Suc c \<and> t2 = seconds (tod c))"
  let ?s1 = "s\<lparr>tick := Suc (tick s)\<rparr>"
  have init: "?I (seconds (tod (tick s))) ?s1" by (simp add: only_tick_read)
  have "\<exists>x' s'. whileK (\<lambda>t2 u. dsub t2 t1 < em6) (\<lambda>t2. mysecond tod) (seconds (tod (tick s))) ?s1 = Ret x' s'
      \<and> ?I x' s' \<and> \<not> dsub x' t1 < em6"
  proof (rule whileK_total [where m = "\<lambda>x u. LEAST k. ?P (tick u - 1 + k)" and I = ?I, OF wf_less init])
    fix x u
    assume I: "?I x u" and b: "dsub x t1 < em6"
    then obtain c where c: "tick u = Suc c" "x = seconds (tod c)" by blast
    have np: "\<not> ?P c" using b c(2) by simp
    obtain k' where "k' \<ge> c" "?P k'" using assms by (auto simp: clock_live_def)
    then have ex: "\<exists>k. ?P (c + k)" by (metis le_Suc_ex)
    have "(LEAST k. ?P (Suc c + k)) < (LEAST k. ?P (c + k))" using Least_shift [of ?P c] np ex by blast
    then show "\<exists>x' s'. mysecond tod u = Ret x' s' \<and> ?I x' s'
        \<and> ((LEAST k. ?P (tick s' - 1 + k)), (LEAST k. ?P (tick u - 1 + k))) \<in> {(x, y). x < y}"
      using I c only_tick_trans [OF _ only_tick_read] by auto
  qed
  then show ?thesis by (auto simp: wait_tick_def)
qed

lemma collect_ticks_returns:
  assumes "clock_live tod"
  shows "\<exists>ts s'. collect_ticks tod m s = Ret ts s' \<and> only_tick s s'"
proof (induction m arbitrary: s)
  case 0
  then show ?case by (simp add: only_tick_def)
next
  case (Suc m)
  let ?s1 = "s\<lparr>tick := Suc (tick s)\<rparr>"
  obtain t s2 where s2: "wait_tick tod (seconds (tod (tick s))) ?s1 = Ret t s2" "only_tick ?s1 s2"
    using wait_tick_returns [OF assms] by blast
  obtain ts s3 where s3: "collect_ticks tod m s2 = Ret ts s3" "only_tick s2 s3" using Suc.IH by blast
  have "only_tick s s3" using only_tick_trans [OF only_tick_trans [OF only_tick_read s2(2)] s3(2)] .
  then show ?case using s2(1) s3(1) by simp
qed

lemma min_delta_bounds: "0 \<le> m \<Longrightarrow> 0 \<le> min_delta m ts \<and> min_delta m ts \<le> m"
proof (induction m ts rule: min_delta.induct)
  case (1 m t0 t1 ts)
  let ?d = "dtoi (dmul 1000000 (dsub t1 t0))"
  let ?x = "if ?d > 0 then ?d else 0"
  have "0 \<le> (if m < ?x then m else ?x)" "(if m < ?x then m else ?x) \<le> m" using 1(2) by auto
  then show ?case using 1(1) [OF refl refl] by (auto simp: Let_def)
qed simp_all

lemma checktick_run:
  assumes "clock_live tod"
  shows "\<exists>q s'. checktick tod s = Ret q s' \<and> only_tick s s' \<and> 0 \<le> q \<and> q \<le> 1000000"
proof -
  obtain ts s' where "collect_ticks tod 20 s = Ret ts s'" "only_tick s s'"
    using collect_ticks_returns [OF assms] by blast
  then show ?thesis using min_delta_bounds [of 1000000 ts] by (simp add: checktick_def)
qed

lemma wait_tick_stuck:
  assumes "\<And>k. tod k = tv"
  shows "wait_tick tod (seconds tv) s = Hang"
proof -
  have "whileK (\<lambda>t2 u. dsub t2 (seconds tv) < em6) (\<lambda>t2. mysecond tod) (seconds tv) u = Hang" for u
    by (rule whileK_hangs [where I = "\<lambda>x u. x = seconds tv"]) (use em6_bounds(1) assms in simp_all)
  then show ?thesis using assms by (simp add: wait_tick_def)
qed

text \<open>
  C36: the clock test returns when the clock keeps advancing, changes nothing but the clock's
  count of readings, and its estimate of the granularity lies between 0 and a second.
\<close>

theorem checktick_returns:
  assumes "clock_live tod"
  shows "\<exists>q s'. checktick tod s = Ret q s' \<and> 0 \<le> q \<and> q \<le> 1000000
    \<and> arr_a s' = arr_a s \<and> arr_b s' = arr_b s \<and> arr_c s' = arr_c s \<and> times s' = times s"
proof -
  obtain q s' where "checktick tod s = Ret q s'" "only_tick s s'" "0 \<le> q" "q \<le> 1000000"
    using checktick_run [OF assms] by blast
  moreover have "s'\<lparr>tick := tick s\<rparr> = s" using \<open>only_tick s s'\<close> by (simp add: only_tick_def)
  then have "arr_a (s'\<lparr>tick := tick s\<rparr>) = arr_a s" "arr_b (s'\<lparr>tick := tick s\<rparr>) = arr_b s"
      "arr_c (s'\<lparr>tick := tick s\<rparr>) = arr_c s" "times (s'\<lparr>tick := tick s\<rparr>) = times s"
    by (simp_all only:)
  ultimately show ?thesis by simp
qed

text \<open>A clock that gains a second with every reading.\<close>

definition second_clock :: "nat \<Rightarrow> timeval" where
  "second_clock k = \<lparr>tv_sec = int k, tv_usec = 0\<rparr>"

lemma second_clock_live: "clock_live second_clock"
  unfolding clock_live_def
proof (intro allI)
  fix k t
  obtain m :: nat where m: "4 * (\<bar>t\<bar> + 2) \<le> rat_of_nat m" using reals_Archimedean2 less_imp_le by blast
  let ?k = "max k m"
  have "rat_of_nat m \<le> rat_of_nat ?k" by simp
  then have big: "4 * (\<bar>t\<bar> + 2) \<le> rat_of_nat ?k" using m by linarith
  have s: "seconds (second_clock ?k) = dbl (dbl (rat_of_nat ?k))"
    by (simp add: seconds_def second_clock_def dadd_def dmul_def)
  have h1: "rat_of_nat ?k / 2 \<le> dbl (rat_of_nat ?k)" by (rule ieee.within(1)) simp
  then have "0 \<le> dbl (rat_of_nat ?k)" by (meson of_nat_0_le_iff divide_nonneg_pos order_trans zero_less_numeral)
  then have h2: "dbl (rat_of_nat ?k) / 2 \<le> seconds (second_clock ?k)" unfolding s by (rule ieee.within(1))
  have "y / 2 \<le> d \<Longrightarrow> d / 2 \<le> v \<Longrightarrow> 4 * (u + 2) \<le> y \<Longrightarrow> t \<le> u \<Longrightarrow> 2 \<le> v - t" for y d v u :: rat
    by (simp add: field_simps)
  then have far: "2 \<le> seconds (second_clock ?k) - t" using h1 h2 big abs_ge_self by blast
  then have "1 \<le> dsub (seconds (second_clock ?k)) t"
    using ieee.within(1) [of "seconds (second_clock ?k) - t"] unfolding dsub_def by (simp add: field_simps)
  then have "em6 \<le> dsub (seconds (second_clock ?k)) t" using em6_bounds(2) by linarith
  then show "\<exists>k' \<ge> k. em6 \<le> dsub (seconds (second_clock k')) t" by (intro exI [of _ ?k]) simp
qed

theorem checktick_returns_witness:
  "\<exists>q s'. checktick second_clock (stream_start 2 0 3) = Ret q s' \<and> 0 \<le> q \<and> q \<le> 1000000
     \<and> arr_a s' = [0, 0]"
proof -
  have "arr_a (stream_start 2 0 3) = [0, 0]" by (simp add: stream_start_def numeral_2_eq_2)
  then show ?thesis using checktick_returns [OF second_clock_live, of "stream_start 2 0 3"] by auto
qed

text \<open>
  When the wall clock stands still the benchmark never ends: the clock test waits forever.
\<close>

theorem stuck_clock_hangs:
  assumes "\<forall>k. tod k = tv"
  shows "stream_main tod N K s = Hang"
proof -
  have "checktick tod u = Hang" for u
    using wait_tick_stuck [of tod tv] assms by (simp add: checktick_def numeral_eq_Suc)
  then show ?thesis by (simp add: stream_main_def)
qed

theorem stuck_clock_hangs_witness:
  "stream_main (\<lambda>k. \<lparr>tv_sec = 7, tv_usec = 0\<rparr>) 2 3 (stream_start 2 0 3) = Hang"
  by (rule stuck_clock_hangs) simp

section \<open>A run of the benchmark\<close>

lemma summary_arrays:
  "arr_a (stream_summary K s) = arr_a s" "arr_b (stream_summary K s) = arr_b s" "arr_c (stream_summary K s) = arr_c s"
proof -
  let ?eq = "\<lambda>s u. arr_a u = arr_a s \<and> arr_b u = arr_b s \<and> arr_c u = arr_c s"
  have f: "?eq s (fold g xs u)" if "?eq s u" "\<And>x u. ?eq u (g x u)" for g :: "nat \<Rightarrow> stream_st \<Rightarrow> stream_st" and xs u s
    using that by (induction xs arbitrary: u) auto
  have t: "?eq u (for_upto 4 (tally k) u)" for k u
    unfolding for_upto_def by (rule f) (simp_all add: tally_def)
  have "?eq s (fold (\<lambda>k. for_upto 4 (tally k)) [1..<K] s)" by (rule f) (simp_all add: t)
  then have "?eq s (stream_summary K s)"
    unfolding stream_summary_def Let_def for_upto_def by (rule f) simp
  then show "arr_a (stream_summary K s) = arr_a s" "arr_b (stream_summary K s) = arr_b s"
    "arr_c (stream_summary K s) = arr_c s" by simp_all
qed

lemma uni3_summary [simp]: "uni3 N abc (stream_summary K s) = uni3 N abc s"
  by (simp add: uni3_def summary_arrays)

lemma uni3_only_tick: "only_tick s s' \<Longrightarrow> uni3 N abc s' = uni3 N abc s"
  unfolding only_tick_def by (metis uni3_frame(2))

lemma init_uni: "uni3 N (1, 2, 0) (stream_init N (stream_start N off K))"
  by (simp add: init_run uni3_def stream_start_def)

lemma stream_main_uni:
  assumes "clock_live tod"
  shows "\<exists>rep s'. stream_main tod N K (stream_start N off K) = Ret (0, rep) s'
    \<and> uni3 N (expected 3 K (2, 2, 0)) s' \<and> rep_errors rep = fst (checkSTREAMresults N K s')"
proof -
  let ?s0 = "stream_init N (stream_start N off K)"
  obtain q s1 where s1: "checktick tod ?s0 = Ret q s1" "only_tick ?s0 s1" using checktick_run [OF assms] by blast
  let ?s2 = "stream_touch N (s1\<lparr>tick := Suc (tick s1)\<rparr>)"
  have "uni3 N (1, 2, 0) s1" using init_uni uni3_only_tick [OF s1(2)] by simp
  then have "uni3 N (dmul 2 1, 2, 0) ?s2" by (intro kernels_uni(1)) simp
  then have "uni3 N (2, 2, 0) (?s2\<lparr>tick := Suc (tick ?s2)\<rparr>)" by (simp add: dmul_2_1)
  then obtain s3 where s3: "stream_loop tod N 3 0 K (?s2\<lparr>tick := Suc (tick ?s2)\<rparr>) = Ret () s3"
      "uni3 N (expected 3 K (2, 2, 0)) s3"
    using loop_uni by blast
  then show ?thesis using s1(1) by (simp add: stream_main_def Let_def)
qed

text \<open>
  C32: on a clock that advances, an undisturbed run with up to 13 iterations ends with exit
  code 0 and reports no error: all elements of the three arrays hold exactly the values that
  the validation computes on scalars, powers of 15 that \<open>double\<close> represents without rounding.
\<close>

theorem stream_validates:
  assumes "clock_live tod" "0 < K" "K \<le> 13"
  shows "\<exists>rep s'. stream_main tod N K (stream_start N off K) = Ret (0, rep) s' \<and> rep_errors rep = 0
    \<and> (\<forall>j < N. arr_a s' ! j = 2 * 15 ^ K \<and> arr_b s' ! j = 6 * 15 ^ (K - 1) \<and> arr_c s' ! j = 8 * 15 ^ (K - 1))"
proof -
  obtain rep s' where s': "stream_main tod N K (stream_start N off K) = Ret (0, rep) s'"
      "uni3 N (expected 3 K (2, 2, 0)) s'" "rep_errors rep = fst (checkSTREAMresults N K s')"
    using stream_main_uni [OF assms(1)] by blast
  have "(15 :: nat) ^ K \<le> 15 ^ 13" using assms(3) by (intro power_increasing) simp_all
  then have "2 * 15 ^ K < (2 ^ 53 :: nat)" by simp
  then have "expected 3 K (2, 2, 0) = (2 * 15 ^ K, 6 * 15 ^ (K - 1), 8 * 15 ^ (K - 1))"
    using expected_exact [of 2 K 2 0] assms(2) by simp
  then show ?thesis using s' check_uni [OF s'(2)] by (auto simp: uni3_def uni_def)
qed

theorem stream_validates_witness:
  "\<exists>rep s'. stream_main second_clock 4 (NTIMES None) (stream_start 4 0 (NTIMES None)) = Ret (0, rep) s'
     \<and> rep_errors rep = 0 \<and> arr_a s' ! 3 = 2 * 15 ^ 10"
  using stream_validates [OF second_clock_live, of 10 4 0] by (auto simp: NTIMES_def)

section \<open>The summary\<close>

lemma tally_upto:
  assumes "length (mintime s) = 4" "length (maxtime s) = 4" "n \<le> 4"
  shows "times (for_upto n (tally k) s) = times s
    \<and> length (mintime (for_upto n (tally k) s)) = 4 \<and> length (maxtime (for_upto n (tally k) s)) = 4
    \<and> (\<forall>j < 4. mintime (for_upto n (tally k) s) ! j =
         (if j < n then min (mintime s ! j) (times s ! j ! k) else mintime s ! j))
    \<and> (\<forall>j < 4. maxtime (for_upto n (tally k) s) ! j =
         (if j < n then max (maxtime s ! j) (times s ! j ! k) else maxtime s ! j))"
  using assms(3)
proof (induction n)
  case (Suc n)
  then show ?case using assms(1,2)
    by (auto simp: tally_def nth_list_update min_def max_def less_Suc_eq)
qed (use assms in simp)

lemma tally_fold:
  assumes "length (mintime s) = 4" "length (maxtime s) = 4" "j < 4"
  shows "times (fold (\<lambda>k. for_upto 4 (tally k)) ks s) = times s
    \<and> mintime (fold (\<lambda>k. for_upto 4 (tally k)) ks s) ! j =
        Min (insert (mintime s ! j) ((\<lambda>k. times s ! j ! k) ` set ks))
    \<and> maxtime (fold (\<lambda>k. for_upto 4 (tally k)) ks s) ! j =
        Max (insert (maxtime s ! j) ((\<lambda>k. times s ! j ! k) ` set ks))"
  using assms(1,2)
proof (induction ks arbitrary: s)
  case (Cons k ks)
  let ?u = "for_upto 4 (tally k) s"
  have u: "times ?u = times s" "length (mintime ?u) = 4" "length (maxtime ?u) = 4"
      "mintime ?u ! j = min (mintime s ! j) (times s ! j ! k)"
      "maxtime ?u ! j = max (maxtime s ! j) (times s ! j ! k)"
    using tally_upto [OF Cons.prems order_refl, of k] assms(3) by auto
  have "Min (insert (min a b) X) = Min (insert a (insert b X))"
    "Max (insert (max a b) X) = Max (insert a (insert b X))" if "finite X" for a b :: double and X
    using that by (cases "X = {}"; simp add: min.assoc max.assoc)+
  then show ?case using Cons.IH [OF u(2,3)] u by simp
qed simp

text \<open>
  The summary leaves out the first iteration: the minimum and the maximum reported for a
  kernel are those of its later times, starting from the largest \<open>float\<close> and from 0, and they
  enclose each of them.
\<close>

theorem summary_extremes:
  assumes "mintime s = replicate 4 FLT_MAX" "maxtime s = [0, 0, 0, 0]" "j < 4"
  shows "mintime (stream_summary K s) ! j = Min (insert FLT_MAX ((\<lambda>k. times s ! j ! k) ` {1..<K}))
    \<and> maxtime (stream_summary K s) ! j = Max (insert 0 ((\<lambda>k. times s ! j ! k) ` {1..<K}))
    \<and> (\<forall>k \<in> {1..<K}. mintime (stream_summary K s) ! j \<le> times s ! j ! k
         \<and> times s ! j ! k \<le> maxtime (stream_summary K s) ! j)"
proof -
  let ?f = "\<lambda>j s. s\<lparr>avgtime := (avgtime s)[j := ddiv (avgtime s ! j) (dbl (of_nat (K - 1)))]\<rparr>"
  have avg: "mintime (for_upto n ?f u) = mintime u \<and> maxtime (for_upto n ?f u) = maxtime u" for n u
    by (induction n) simp_all
  have z: "[0, 0, 0, 0] ! j = (0 :: double)" using assms(3) by (auto simp: less_Suc_eq numeral_eq_Suc)
  have mm: "mintime (stream_summary K s) ! j = Min (insert FLT_MAX ((\<lambda>k. times s ! j ! k) ` {1..<K}))"
    "maxtime (stream_summary K s) ! j = Max (insert 0 ((\<lambda>k. times s ! j ! k) ` {1..<K}))"
    using tally_fold [of s j "[1..<K]"] assms z by (simp_all add: stream_summary_def Let_def avg [simplified])
  have "mintime (stream_summary K s) ! j \<le> times s ! j ! k" "times s ! j ! k \<le> maxtime (stream_summary K s) ! j"
    if "k \<in> {1..<K}" for k
    unfolding mm by (rule Min_le, simp, use that in blast) (rule Max_ge, simp, use that in blast)
  then show ?thesis unfolding mm by blast
qed

theorem summary_extremes_witness:
  "mintime (stream_summary 3 ((stream_start 1 0 3)\<lparr>times := [[9, 2, 5], [1, 1, 1], [1, 1, 1], [1, 1, 1]]\<rparr>)) ! 0 = 2
   \<and> maxtime (stream_summary 3 ((stream_start 1 0 3)\<lparr>times := [[9, 2, 5], [1, 1, 1], [1, 1, 1], [1, 1, 1]]\<rparr>)) ! 0 = 5"
proof -
  have i: "{Suc 0..<3} = {Suc 0, 2 :: nat}" by auto
  have "(5 :: double) \<le> FLT_MAX" by (simp add: FLT_MAX_def)
  then show ?thesis
    using summary_extremes [of "(stream_start 1 0 3)\<lparr>times := [[9, 2, 5], [1, 1, 1], [1, 1, 1], [1, 1, 1]]\<rparr>" 0 3]
    by (simp add: stream_start_def i)
qed

end
