(* ===== verification/Stream_Types.thy ===== *)
theory Stream_Types
  imports Stream_Props
begin

text \<open>
  The types of the STREAM benchmark's data: every number it keeps is one that \<open>double\<close> has, and
  its arrays keep their sizes, so that no loop leaves them.
\<close>

section \<open>Numbers that double has\<close>

definition is_double :: "rat \<Rightarrow> bool" where
  "is_double x \<longleftrightarrow> (\<exists>m e. \<bar>m\<bar> \<le> 2 ^ 53 \<and> x = of_int m * pow2 e)"

lemma is_double_int: "\<bar>m\<bar> \<le> 2 ^ 53 \<Longrightarrow> is_double (of_int m)"
  unfolding is_double_def by (intro exI [of _ m] exI [of _ 0]) simp

lemma is_double_num [simp]: "is_double 0" "is_double 1" "is_double 2" "is_double 3"
  using is_double_int [of 0] is_double_int [of 1] is_double_int [of 2] is_double_int [of 3] by simp_all

lemma is_double_dbl [simp]: "is_double (dbl x)"
proof (cases "x = 0")
  case False
  let ?e = "last_exp 53 x"
  let ?m = "round_even (x / pow2 ?e)"
  have "\<bar>x\<bar> < pow2 (53 + ?e)" using last_exp_range(2) [OF False, of 53] by simp
  then have "\<bar>x\<bar> < 2 ^ 53 * pow2 ?e" using pow2_add [of 53 ?e] pow2_nat [of 53] by simp
  then have "\<bar>x / pow2 ?e\<bar> < 2 ^ 53" using pow2_pos(1) [of ?e] by (simp add: abs_divide field_simps)
  then have "\<bar>of_int ?m :: rat\<bar> < 2 ^ 53 + 1" using round_even_error [of "x / pow2 ?e"] by linarith
  then have "(of_int \<bar>?m\<bar> :: rat) < of_int (2 ^ 53 + 1)" by simp
  then have "\<bar>?m\<bar> < 2 ^ 53 + 1" by (simp only: of_int_less_iff)
  then show ?thesis
    using False unfolding is_double_def dbl_def fl_def by (intro exI [of _ ?m] exI [of _ ?e]) simp
qed simp

lemma is_double_ops [simp]: "is_double (dadd x y)" "is_double (dsub x y)" "is_double (dmul x y)" "is_double (ddiv x y)"
  by (simp_all add: dadd_def dsub_def dmul_def ddiv_def)

lemma is_double_FLT_MAX [simp]: "is_double FLT_MAX"
proof -
  have "FLT_MAX = of_int (2 ^ 24 - 1) * pow2 104" by (simp add: FLT_MAX_def pow2_def)
  then show ?thesis unfolding is_double_def by (intro exI [of _ "2 ^ 24 - 1"] exI [of _ 104]) simp
qed

section \<open>The benchmark's data\<close>

definition doubles :: "nat \<Rightarrow> double list \<Rightarrow> bool" where
  "doubles n xs \<longleftrightarrow> length xs = n \<and> (\<forall>x \<in> set xs. is_double x)"

definition stream_typed :: "nat \<Rightarrow> nat \<Rightarrow> stream_st \<Rightarrow> bool" where
  "stream_typed M K s \<longleftrightarrow>
     doubles M (arr_a s) \<and> doubles M (arr_b s) \<and> doubles M (arr_c s)
   \<and> doubles 4 (avgtime s) \<and> doubles 4 (maxtime s) \<and> doubles 4 (mintime s)
   \<and> length (times s) = 4 \<and> (\<forall>row \<in> set (times s). doubles K row)"

lemma doubles_nth: "doubles n xs \<Longrightarrow> j < n \<Longrightarrow> is_double (xs ! j)"
  by (simp add: doubles_def)

lemma doubles_update [simp]: "doubles n xs \<Longrightarrow> is_double v \<Longrightarrow> doubles n (xs[j := v])"
  using set_update_subset_insert [of xs j v] by (auto simp: doubles_def)

lemma stream_typed_start: "stream_typed (N + off) K (stream_start N off K)"
  by (auto simp: stream_typed_def stream_start_def doubles_def)

lemma stream_typed_tick [simp]: "stream_typed M K (s\<lparr>tick := i\<rparr>) = stream_typed M K s"
  by (simp add: stream_typed_def)

lemma for_upto_keeps:
  assumes "\<And>j s. j < n \<Longrightarrow> P s \<Longrightarrow> P (f j s)" "P s"
  shows "P (for_upto n f s)"
  using assms by (induction n) simp_all

text \<open>Every loop of the program stores numbers that \<open>double\<close> has, inside the arrays.\<close>

lemma loops_typed:
  assumes "N \<le> M" "stream_typed M K s"
  shows "stream_typed M K (stream_init N s)" "stream_typed M K (stream_touch N s)"
    "stream_typed M K (tuned_STREAM_Copy N s)" "stream_typed M K (tuned_STREAM_Scale N sc s)"
    "stream_typed M K (tuned_STREAM_Add N s)" "stream_typed M K (tuned_STREAM_Triad N sc s)"
  unfolding stream_init_def stream_touch_def tuned_STREAM_Copy_def tuned_STREAM_Scale_def
    tuned_STREAM_Add_def tuned_STREAM_Triad_def
  by (rule for_upto_keeps [where P = "stream_typed M K", OF _ assms(2)],
      (use assms(1) doubles_nth in \<open>auto simp: stream_typed_def\<close>)[1])+

lemma set_time_typed:
  assumes "stream_typed M K s" "is_double t" "r < 4"
  shows "stream_typed M K (set_time r k t s)"
proof -
  have "doubles K (times s ! r)" using assms by (simp add: stream_typed_def)
  then show ?thesis
    using assms set_update_subset_insert [of "times s" r "(times s ! r)[k := t]"]
    by (auto simp: stream_typed_def set_time_def)
qed

lemma timed_typed:
  assumes "stream_typed M K s" "r < 4" "\<And>s. stream_typed M K s \<Longrightarrow> stream_typed M K (kern s)"
  shows "\<exists>s'. timed tod r k kern s = Ret () s' \<and> stream_typed M K s'"
  using assms by (simp add: timed_def seconds_def set_time_typed)

lemma stream_loop_typed:
  assumes "N \<le> M"
  shows "stream_typed M K s \<Longrightarrow> \<exists>s'. stream_loop tod N sc k m s = Ret () s' \<and> stream_typed M K s'"
proof (induction m arbitrary: k s)
  case (Suc m)
  note L = loops_typed [OF assms]
  obtain s1 where s1: "timed tod 0 k (tuned_STREAM_Copy N) s = Ret () s1" "stream_typed M K s1"
    using timed_typed [OF Suc.prems, of 0 "tuned_STREAM_Copy N" tod k] L(3) by auto
  obtain s2 where s2: "timed tod 1 k (tuned_STREAM_Scale N sc) s1 = Ret () s2" "stream_typed M K s2"
    using timed_typed [OF s1(2), of 1 "tuned_STREAM_Scale N sc" tod k] L(4) by auto
  obtain s3 where s3: "timed tod 2 k (tuned_STREAM_Add N) s2 = Ret () s3" "stream_typed M K s3"
    using timed_typed [OF s2(2), of 2 "tuned_STREAM_Add N" tod k] L(5) by auto
  obtain s4 where s4: "timed tod 3 k (tuned_STREAM_Triad N sc) s3 = Ret () s4" "stream_typed M K s4"
    using timed_typed [OF s3(2), of 3 "tuned_STREAM_Triad N sc" tod k] L(6) by auto
  show ?case using Suc.IH [OF s4(2), of "Suc k"] s1(1) s2(1) s3(1) s4(1) by simp
qed simp

lemma tally_typed:
  assumes "stream_typed M K s" "k < K" "j < 4"
  shows "stream_typed M K (tally k j s)"
proof -
  have "doubles K (times s ! j)" using assms by (simp add: stream_typed_def)
  then show ?thesis
    using assms doubles_nth [of K "times s ! j" k] doubles_nth [of 4 "mintime s" j]
      doubles_nth [of 4 "maxtime s" j] by (simp add: stream_typed_def tally_def)
qed

lemma summary_typed:
  assumes "stream_typed M K s"
  shows "stream_typed M K (stream_summary K s)"
proof -
  have "stream_typed M K (fold (\<lambda>k. for_upto 4 (tally k)) ks s)" if "\<forall>k \<in> set ks. k < K" for ks
    using that assms
    by (induction ks arbitrary: s) (simp_all add: for_upto_keeps tally_typed)
  then have "stream_typed M K (fold (\<lambda>k. for_upto 4 (tally k)) [1..<K] s)" by simp
  then show ?thesis unfolding stream_summary_def Let_def
    by (rule for_upto_keeps [rotated]) (simp add: stream_typed_def)
qed



end
