(* ===== verification/Stream_Check.thy ===== *)
theory Stream_Check
  imports Stream_Types
begin

text \<open>
  What the validation of the STREAM benchmark detects. A page of an array that far memory has
  lost comes back with old contents; the theorem shows that a single element that is off by
  half of its value makes the check of its array fail, for arrays of up to \<open>10 ^ 11\<close> elements. It
  rests on rounding being monotone: the sum of the errors never falls below one of them.
\<close>

section \<open>Rounding is monotone\<close>

lemma round_even_ge: "of_int z \<le> q \<Longrightarrow> z \<le> round_even q"
proof -
  assume "of_int z \<le> q"
  then have "z \<le> \<lfloor>q\<rfloor>" by (simp add: le_floor_iff)
  then show ?thesis by (simp add: round_even_def Let_def)
qed

lemma pow2_le: "j \<le> k \<Longrightarrow> pow2 j \<le> pow2 k"
proof -
  assume "j \<le> k"
  then have "pow2 k = pow2 j * 2 ^ nat (k - j)" using pow2_add [of j "k - j"] pow2_nat [of "nat (k - j)"] by simp
  moreover have "(1 :: rat) \<le> 2 ^ nat (k - j)" by simp
  ultimately show ?thesis using mult_left_mono [of 1 "2 ^ nat (k - j)" "pow2 j"] pow2_pos(1) [of j] by simp
qed

lemma pow2_nonneg [simp]: "0 \<le> pow2 k"
  by (simp add: less_imp_le)

lemma dbl_ge:
  assumes "is_double y" "0 \<le> y" "y \<le> x"
  shows "y \<le> dbl x"
proof (cases "x = 0")
  case False
  let ?e = "last_exp 53 x"
  have x: "0 < x" using assms(2,3) False by simp
  obtain m e where y: "\<bar>m\<bar> \<le> 2 ^ 53" "y = of_int m * pow2 e" using assms(1) by (auto simp: is_double_def)
  have dx: "dbl x = of_int (round_even (x / pow2 ?e)) * pow2 ?e" using False by (simp add: dbl_def fl_def)
  show ?thesis
  proof (cases "?e \<le> e")
    case True
    let ?z = "m * 2 ^ nat (e - ?e)"
    have z: "y = of_int ?z * pow2 ?e"
      using pow2_add [of ?e "e - ?e"] pow2_nat [of "nat (e - ?e)"] True y(2) by simp
    then have "of_int ?z \<le> x / pow2 ?e" using assms(3) pow2_pos(1) [of ?e] by (simp only: pos_le_divide_eq)
    then have "(of_int ?z :: rat) \<le> of_int (round_even (x / pow2 ?e))" using round_even_ge by (simp only: of_int_le_iff)
    then show ?thesis unfolding dx z using pow2_pos(1) [of ?e] by (intro mult_right_mono) simp_all
  next
    case False
    have "of_int m \<le> (2 :: rat) ^ 53" using y(1) by (metis abs_le_D1 of_int_le_iff of_int_numeral of_int_power)
    then have "y \<le> 2 ^ 53 * pow2 e" unfolding y(2) using pow2_pos(1) [of e] by (intro mult_right_mono) simp_all
    also have "\<dots> \<le> 2 ^ 53 * pow2 (?e - 1)" using False by (intro mult_left_mono pow2_le) simp_all
    also have "\<dots> = of_int (2 ^ 52) * pow2 ?e" using pow2_add [of "?e - 1" 1] by (simp add: pow2_def)
    finally have a: "y \<le> of_int (2 ^ 52) * pow2 ?e" .
    have "of_int (2 ^ 52) * pow2 ?e \<le> x"
      using last_exp_range(1) [of x 53] x pow2_add [of 52 ?e] pow2_nat [of 52] by simp
    then have "of_int (2 ^ 52) \<le> x / pow2 ?e" using pow2_pos(1) [of ?e] by (simp only: pos_le_divide_eq)
    then have "(of_int (2 ^ 52) :: rat) \<le> of_int (round_even (x / pow2 ?e))"
      using round_even_ge by (simp only: of_int_le_iff)
    then have "of_int (2 ^ 52) * pow2 ?e \<le> dbl x"
      unfolding dx using pow2_pos(1) [of ?e] by (intro mult_right_mono) simp_all
    with a show ?thesis by simp
  qed
qed (use assms in simp)

lemma is_double_abs: "is_double x \<Longrightarrow> is_double \<bar>x\<bar>"
proof -
  assume "is_double x"
  then obtain m e where "\<bar>m\<bar> \<le> 2 ^ 53" "x = of_int m * pow2 e" by (auto simp: is_double_def)
  then have "\<bar>\<bar>m\<bar>\<bar> \<le> 2 ^ 53 \<and> \<bar>x\<bar> = of_int \<bar>m\<bar> * pow2 e" by (simp add: abs_mult)
  then show ?thesis unfolding is_double_def by blast
qed

text \<open>
  The interface: the format's numbers are those that rounding gives, and rounding takes a number
  not below one of them.
\<close>

locale monotone_rounding = rounding +
  fixes repr :: "rat \<Rightarrow> bool"
  assumes closed: "repr (rnd x)"
    and above: "repr y \<Longrightarrow> 0 \<le> y \<Longrightarrow> y \<le> x \<Longrightarrow> y \<le> rnd x"
begin

lemma nonneg: "0 \<le> x \<Longrightarrow> 0 \<le> rnd x"
  using pos [of x] zero by (cases "x = 0") auto

lemma sum_ge_part:
  assumes "\<And>j. 0 \<le> d j" "\<And>j. repr (d j)" "j < n"
  shows "d j \<le> for_upto n (\<lambda>j acc. rnd (acc + d j)) 0"
  using assms(3)
proof (induction n)
  case (Suc n)
  let ?S = "\<lambda>n. for_upto n (\<lambda>j acc. rnd (acc + d j)) 0"
  have S: "0 \<le> ?S n" for n using assms(1) by (induction n) (simp_all add: nonneg)
  show ?case
  proof (cases "j = n")
    case True
    then show ?thesis using above [OF assms(2,1), of n "?S n + d n"] S [of n] by simp
  next
    case False
    then have "0 < n" "d j \<le> ?S n" using Suc by simp_all
    moreover have "repr (?S n)" using closed \<open>0 < n\<close> by (cases n) simp_all
    ultimately have "?S n \<le> rnd (?S n + d n)" using above S [of n] assms(1) [of n] by simp
    then show ?thesis using \<open>d j \<le> ?S n\<close> by simp
  qed
qed simp

end

interpretation ieee: monotone_rounding dbl 53 is_double
  by unfold_locales (simp_all add: dbl_ge)

section \<open>One wrong element\<close>

lemma epsilon_small: "stream_epsilon \<le> 1 / 5000000000000"
  using ieee.within(2) [of "1 / 10 ^ 13"] by (simp add: stream_epsilon_def sizeof_STREAM_TYPE_def)

lemma within_abs: "\<bar>x\<bar> / 2 \<le> \<bar>dbl x\<bar>"
proof -
  have "\<bar>dbl x - x\<bar> \<le> \<bar>x\<bar> / 2 ^ 53" using ieee.error [of x] .
  also have "\<dots> \<le> \<bar>x\<bar> / 2" by (intro divide_left_mono) simp_all
  finally show ?thesis by linarith
qed

text \<open>An element is badly wrong when it is off by at least half of the expected value.\<close>

definition badly_wrong :: "double \<Rightarrow> double \<Rightarrow> bool" where
  "badly_wrong e x \<longleftrightarrow> e \<noteq> 0 \<and> \<bar>e\<bar> / 2 \<le> \<bar>x - e\<bar>"

lemma sum_err_ge:
  assumes "badly_wrong e (xs ! j)" "j < N"
  shows "\<bar>e\<bar> / 4 \<le> sum_err N xs e"
proof -
  have "\<bar>e\<bar> / 4 \<le> \<bar>xs ! j - e\<bar> / 2" using assms(1) by (simp add: badly_wrong_def)
  also have "\<dots> \<le> \<bar>dsub (xs ! j) e\<bar>" unfolding dsub_def by (rule within_abs)
  also have "\<dots> \<le> for_upto N (\<lambda>j acc. dbl (acc + \<bar>dsub (xs ! j) e\<bar>)) 0"
    by (rule ieee.sum_ge_part [OF _ _ assms(2)]) (simp_all add: is_double_abs)
  finally show ?thesis by (simp add: sum_err_def dadd_def)
qed

lemma mean_err_ge:
  assumes "badly_wrong e (xs ! j)" "j < N" "N \<le> 10 ^ 11"
  shows "stream_epsilon < \<bar>ddiv (ddiv (sum_err N xs e) (dbl (of_nat N))) e\<bar>"
proof -
  let ?S = "sum_err N xs e" and ?n = "of_nat N :: rat"
  have "?n \<le> of_nat (10 ^ 11)" using assms(3) by (simp only: of_nat_le_iff)
  then have n: "0 < ?n" "?n \<le> 10 ^ 11" using assms(2) by simp_all
  have e: "0 < \<bar>e\<bar>" using assms(1) by (simp add: badly_wrong_def)
  have N: "dbl ?n = ?n" using assms(3) by (intro ieee.of_small_nat) simp
  have S: "\<bar>e\<bar> / 4 \<le> ?S" using sum_err_ge [OF assms(1,2)] .
  have "\<bar>e\<bar> / (8 * ?n) = (\<bar>e\<bar> / 4) / ?n / 2" using n(1) by simp
  also have "\<dots> \<le> ?S / ?n / 2" using S n(1) by (intro divide_right_mono) simp_all
  also have "\<dots> \<le> dbl (?S / ?n)" using S e n(1) by (intro ieee.within(1) divide_nonneg_pos) auto
  finally have A: "\<bar>e\<bar> / (8 * ?n) \<le> ddiv ?S (dbl ?n)" by (simp add: ddiv_def N)
  have "stream_epsilon < 1 / (16 * 10 ^ 11)" using epsilon_small by simp
  also have "\<dots> \<le> 1 / (16 * ?n)" using n by (intro divide_left_mono) simp_all
  also have "\<dots> = \<bar>e\<bar> / (8 * ?n) / \<bar>e\<bar> / 2" using e n(1) by simp
  also have "\<dots> \<le> \<bar>ddiv ?S (dbl ?n)\<bar> / \<bar>e\<bar> / 2" using A e by (intro divide_right_mono) auto
  also have "\<dots> \<le> \<bar>ddiv (ddiv ?S (dbl ?n)) e\<bar>"
    using within_abs [of "ddiv ?S (dbl ?n) / e"] by (simp add: ddiv_def [of _ e] abs_divide)
  finally show ?thesis .
qed

text \<open>The wrong element is also counted.\<close>

lemma wrong_counted:
  assumes "badly_wrong e x"
  shows "stream_epsilon < \<bar>dsub (ddiv x e) 1\<bar>"
proof -
  let ?q = "x / e"
  have e: "e \<noteq> 0" "\<bar>e\<bar> / 2 \<le> \<bar>x - e\<bar>" using assms by (simp_all add: badly_wrong_def)
  have "?q - 1 = (x - e) / e" using e(1) by (simp add: diff_divide_distrib)
  then have q: "1 / 2 \<le> \<bar>?q - 1\<bar>" using e by (simp add: abs_divide field_simps)
  have "\<bar>dbl ?q - ?q\<bar> \<le> \<bar>?q\<bar> / 2 ^ 53" by (rule ieee.error)
  also have "\<dots> \<le> \<bar>?q\<bar> / 12" by (intro divide_left_mono) simp_all
  finally have d: "12 * \<bar>dbl ?q - ?q\<bar> \<le> \<bar>?q\<bar>" by simp
  have "1 \<le> 4 * \<bar>d - 1\<bar>" if "12 * \<bar>d - r\<bar> \<le> \<bar>r\<bar>" "1 \<le> 2 * \<bar>r - 1\<bar>" for d r :: rat
    using that by (simp add: abs_if split: if_splits)
  from this [OF d] have "1 / 4 \<le> \<bar>dbl ?q - 1\<bar>" using q by simp
  then have "1 / 8 \<le> \<bar>dbl ?q - 1\<bar> / 2" by simp
  also have "\<dots> \<le> \<bar>dsub (ddiv x e) 1\<bar>" unfolding dsub_def ddiv_def by (rule within_abs)
  finally show ?thesis using epsilon_small by simp
qed

lemma check_array_detects:
  assumes "badly_wrong e (xs ! j)" "j < N" "N \<le> 10 ^ 11"
  shows "\<exists>c. check_array N xs e = Some c \<and> 0 < c"
proof -
  let ?b = "\<lambda>j ierr. if \<bar>dsub (ddiv (xs ! j) e) 1\<bar> > stream_epsilon then Suc ierr else ierr"
  have "0 < for_upto n ?b 0" if "j < n" for n
    using that wrong_counted [OF assms(1)] by (induction n) (auto simp: less_Suc_eq)
  then show ?thesis using mean_err_ge [OF assms] assms(2) by (simp add: check_array_def)
qed


text \<open>One zero in an array that is otherwise as it should be, after the default of 10 iterations.\<close>

definition one_lost :: stream_st where
  "one_lost = (stream_start 1000 0 10)\<lparr>arr_a := (replicate 1000 (2 * 15 ^ 10))[417 := 0],
     arr_b := replicate 1000 (6 * 15 ^ 9), arr_c := replicate 1000 (8 * 15 ^ 9)\<rparr>"


end
