(* ===== verification/Quicksort.thy ===== *)
theory Quicksort
  imports Clib "HOL-Library.Multiset"
begin

text \<open>
  The sorting benchmark, \<open>src/code/eval/quicksort/quicksort.cpp\<close>: it fills as many megabytes
  of integers as its argument says with random numbers and sorts them in descending order.
  The random numbers and the success of the allocation are parameters; the times it prints
  are not modelled. The exceptions of the library end the program.
\<close>

datatype qs_error = Usage | Stoi_invalid | Stoi_range | Length_error | Bad_alloc

definition MB :: u64 where
  "MB = 1024 * 1024"

text \<open>The largest number of elements of a \<open>vector<int>\<close>.\<close>

definition vector_max_size :: u64 where
  "vector_max_size = 2 ^ 61 - 1"

text \<open>
  \<open>std::stoi(argv[1]) * MB\<close> is a product of 64-bit unsigned numbers, and so is the quotient
  \<open>size / sizeof(int)\<close>.
\<close>

definition qs_size :: "int \<Rightarrow> u64" where
  "qs_size m = word_of_int m * MB"

definition qs_numInts :: "int \<Rightarrow> u64" where
  "qs_numInts m = qs_size m div 4"

text \<open>\<open>std::sort\<close> with \<open>std::greater<int>\<close>.\<close>

definition sort_greater :: "int list \<Rightarrow> int list" where
  "sort_greater v = rev (sort v)"

definition qs_main :: "(nat \<Rightarrow> int) \<Rightarrow> (u64 \<Rightarrow> bool) \<Rightarrow> string list \<Rightarrow> qs_error + int list" where
  "qs_main rand alloc argv =
     (if length argv \<noteq> 2 then Inl Usage
      else
        (case stoi (argv ! 1) of
           InvalidArgument \<Rightarrow> Inl Stoi_invalid
         | OutOfRange \<Rightarrow> Inl Stoi_range
         | Value m \<Rightarrow>
             (let n = qs_numInts m in
              if n > vector_max_size then Inl Length_error
              else if \<not> alloc n then Inl Bad_alloc
              else Inr (sort_greater (map rand [0..<unat n])))))"

section \<open>Properties\<close>

lemma stoi_range: "stoi str = Value m \<Longrightarrow> - (2 ^ 31) \<le> m \<and> m < 2 ^ 31"
  by (auto simp: stoi_def Let_def split: if_splits)

lemma numInts_pos: "0 \<le> m \<Longrightarrow> m < 2 ^ 31 \<Longrightarrow> unat (qs_numInts m) = nat m * 262144"
proof -
  assume m: "0 \<le> m" "m < 2 ^ 31"
  have "uint (qs_size m) = m * 1048576"
    using m by (simp add: qs_size_def MB_def uint_word_ariths uint_word_of_int)
  then have "uint (qs_numInts m) = m * 262144" by (simp add: qs_numInts_def uint_div)
  then show ?thesis using m by (simp add: unat_eq_nat_uint nat_mult_distrib)
qed

lemma numInts_neg: "- (2 ^ 31) \<le> m \<Longrightarrow> m < 0 \<Longrightarrow> vector_max_size < qs_numInts m"
proof -
  assume m: "- (2 ^ 31) \<le> m" "m < 0"
  have "uint (qs_size m) = (m * 1048576) mod 2 ^ 64"
    by (simp add: qs_size_def MB_def uint_word_ariths uint_word_of_int mod_mult_left_eq)
  also have "\<dots> = m * 1048576 + 2 ^ 64"
    using m by (intro mod_pos_pos_trivial [of "m * 1048576 + 2 ^ 64" "2 ^ 64", simplified mod_add_self2]) simp_all
  finally have "uint (qs_numInts m) = (m * 1048576 + 2 ^ 64) div 4" by (simp add: qs_numInts_def uint_div)
  then show ?thesis using m by (simp add: word_less_def vector_max_size_def)
qed

text \<open>
  C37: for a positive number of megabytes and enough memory, the benchmark sorts exactly that
  many megabytes of integers: the result is a descending permutation of the random numbers.
\<close>

theorem quicksort_sorts:
  assumes "length argv = 2" "stoi (argv ! 1) = Value m" "0 \<le> m" "alloc (qs_numInts m)"
  shows "\<exists>v. qs_main rand alloc argv = Inr v \<and> sorted_wrt (\<ge>) v
    \<and> mset v = image_mset rand (mset_set {0..<nat m * 262144})"
proof -
  have n: "unat (qs_numInts m) = nat m * 262144" using numInts_pos stoi_range [OF assms(2)] assms(3) by blast
  have "nat m < 2 ^ 31" using stoi_range [OF assms(2)] assms(3) by (simp add: nat_less_iff)
  then have "\<not> vector_max_size < qs_numInts m"
    using n by (simp add: word_less_nat_alt vector_max_size_def)
  then have "qs_main rand alloc argv = Inr (sort_greater (map rand [0..<nat m * 262144]))"
    using assms n by (simp add: qs_main_def Let_def)
  moreover have "sorted_wrt (\<ge>) (sort_greater v)" for v
    by (simp add: sort_greater_def sorted_wrt_rev)
  moreover have "mset (sort_greater (map rand [0..<k])) = image_mset rand (mset_set {0..<k})" for k
    by (simp add: sort_greater_def mset_map mset_upt)
  ultimately show ?thesis by blast
qed

theorem quicksort_sorts_witness:
  "\<exists>v. qs_main (\<lambda>i. int i mod 7) (\<lambda>n. True) [''quicksort'', ''2''] = Inr v \<and> sorted_wrt (\<ge>) v"
proof -
  have "stoi ''2'' = Value 2" by code_simp
  then show ?thesis using quicksort_sorts [of "[''quicksort'', ''2'']" 2 "\<lambda>n. True" "\<lambda>i. int i mod 7"] by auto
qed

text \<open>
  A negative argument is not rejected: the size wraps around to more elements than a
  vector can have, and the constructor throws.
\<close>

theorem quicksort_negative_throws:
  assumes "length argv = 2" "stoi (argv ! 1) = Value m" "m < 0"
  shows "qs_main rand alloc argv = Inl Length_error"
  using assms numInts_neg [of m] stoi_range [OF assms(2)] by (simp add: qs_main_def Let_def)

theorem quicksort_negative_throws_witness:
  "qs_main (\<lambda>i. 0) (\<lambda>n. True) [''quicksort'', ''-1''] = Inl Length_error"
proof -
  have "stoi ''-1'' = Value (- 1)" by code_simp
  then show ?thesis using quicksort_negative_throws [of "[''quicksort'', ''-1'']" "- 1"] by simp
qed

end
