(* ===== verification/Spec2Isabelle.thy ===== *)
theory Spec2Isabelle
  imports Rdma_Faults Rdma_Unwind Rmserver_Safe Handshake Kernel_Frontswap Memcg_System
    Stream_Omp Stream_Check Quicksort
begin

text \<open>
  Verification of the far-memory swap system xDM / fastswap.

  The system swaps the pages of a client machine to the memory of another machine. A page that
  the kernel evicts is handed by its frontswap layer to the module \<open>fastswap.c\<close>, which writes it
  to one of two backends, far memory over RDMA (\<open>fastswap_rdma.c\<close>) or a buffer in local memory
  (\<open>fastswap_dram.c\<close>); a page fault reads it back. The server of the RDMA backend,
  \<open>rmserver.c\<close>, registers the memory, accepts one connection per queue and sends its address
  and key, after which it takes no part in the transfers. A kernel patch adds asynchronous
  reads and read-ahead to the swap-in path and moves reclaim to a processor of its own. Two of
  the workloads, the STREAM benchmark and a sorting program, are part of the repository.

  \<^bold>\<open>Theories and sources\<close> (paths under \<open>src/code/\<close>).

  \<^item> \<open>Prelude\<close>, \<open>Kernel_Page\<close>: outcomes of code (\<open>Ret\<close>, \<open>Crash\<close>, \<open>Hang\<close>), sequencing, the loop
    \<open>whileK\<close> with its rules for total correctness and for divergence, byte memory, page frames,
    completions. \<open>Clib\<close>: \<open>strtol\<close>, \<open>atoi\<close>, \<open>stoi\<close>. \<open>Cm_Event\<close>: the events of the connection
    manager, shared by client and server.
  \<^item> \<open>Fastswap\<close>: \<open>drivers/fastswap.c\<close>, one definition per function (\<open>sswap_store\<close>, \<open>sswap_load\<close>, ...).
    A backend is a record of the functions it exports. The abstract swap device \<open>swap_dev\<close> maps
    page identifiers to contents; the locale \<open>swap_backend\<close> states what the module needs of a
    backend and proves that module and backend implement the device.
  \<^item> \<open>Fastswap_Dram\<close>: \<open>drivers/fastswap_dram.c\<close>, with the interpretation of \<open>swap_backend\<close>.
    \<open>Fastswap_Props\<close>: its properties.
  \<^item> \<open>Rdma_State\<close>, \<open>Rdma_Data\<close>: \<open>drivers/fastswap_rdma.h\<close> and the data path of
    \<open>drivers/fastswap_rdma.c\<close> (requests, posting, completion handlers, polling, back pressure,
    reads, writes). The state \<open>kst\<close> holds the driver's globals and, for the environment, live
    requests, DMA mappings, posted work requests and far memory. \<open>Rdma_Inv\<close>, \<open>Rdma_Poll\<close>,
    \<open>Rdma_Ops\<close>, \<open>Rdma_Effect\<close>: the invariant \<open>rdma_inv\<close>, termination and effect of polling, the
    contract of each operation. \<open>Rdma_Backend\<close>: the interpretation of \<open>swap_backend\<close>.
    \<open>Rdma_System\<close>: interleavings of all processors and softirqs as a step relation, with
    invariant and progress. \<open>Rdma_Loopback\<close>: an environment in which every assumption holds.
    \<open>Rdma_Props\<close>, \<open>Rdma_Faults\<close>: correctness, and where each error path of the code ends.
  \<^item> \<open>Rdma_Cm\<close>: the rest of \<open>fastswap_rdma.c\<close>: connection manager handler, queues, controller,
    module init and exit. \<open>Rdma_Setup\<close>, \<open>Rdma_Setup_Props\<close>: loading establishes the data-path
    invariant and unloading releases what the code releases. \<open>Rdma_Unwind\<close>: how far a load that
    fails at some queue unwinds, and what it leaves behind.
  \<^item> \<open>Rmserver\<close>: \<open>farmemserver/rmserver.c\<close>. \<open>Rmserver_Ref\<close>: its contract, an abstract server that
    lists the requested and established connections, refined by the handlers for every order of
    events. \<open>Rmserver_Props\<close>: the properties. \<open>Rmserver_Safe\<close>: memory safety with any
    library call failing and any order of events that the connection manager may deliver, by a
    calculus of rules (\<open>dies_rules\<close>) for code that may end the process. \<open>Handshake\<close>: the connections a client asks for, with
    their parameters, as the events that the server handles.
  \<^item> \<open>Kernel_Swap\<close>: the swap-in path of \<open>kernel/kernel.patch\<close> (\<open>__frontswap_load_async\<close>,
    \<open>__frontswap_poll_load\<close>, \<open>swap_readpage\<close>, \<open>swap_readpage_sync\<close>, \<open>read_swap_cache_sync\<close>,
    \<open>swapin_readahead\<close>) and the locale \<open>paging_backend\<close>, what it needs of a backend.
    \<open>Kernel_Swap_Props\<close>: both backends meet it, and page faults are served. \<open>Kernel_Frontswap\<close>:
    \<open>__frontswap_invalidate_page\<close> and the beginning of \<open>__frontswap_store\<close>, without the calls
    that the patch comments out.
  \<^item> \<open>Memcg\<close>: the memory controller of the patch (\<open>high_work_func\<close>, the end of \<open>try_charge\<close>,
    \<open>memory_high_write\<close>), each function by itself. \<open>Memcg_System\<close>: their interleaving with
    charges and releases on other processors; no wakeup of the worker is lost.
  \<^item> \<open>Double\<close>, \<open>Stream\<close>, \<open>Stream_Props\<close>: \<open>eval/stream/stream.c\<close> and \<open>mysecond.c\<close>; the locale
    \<open>rounding\<close> carries the facts on rounded arithmetic. \<open>Stream_Types\<close>: every value a run
    computes is a rounded number. \<open>Stream_Check\<close>: the validation notices an array that lost an
    element, by the locale \<open>monotone_rounding\<close>, which extends \<open>rounding\<close>. \<open>Stream_Omp\<close>: the loops run by threads, as with OpenMP; the
    locale \<open>independent_loop\<close> states when the schedule does not matter, and every loop of the
    program is an instance. \<open>Quicksort\<close>: \<open>eval/quicksort/quicksort.cpp\<close>.
  \<^item> This theory: the backends are interchangeable, and server and client together implement a
    swap device of the size given to the server.

  \<^bold>\<open>What is assumed.\<close> Code outside the repository is a parameter, and what is relied on is a named
  predicate: \<open>nic_ok\<close> (completions come in order and eventually, a queue with room accepts a
  request, allocators and the DMA layer give fresh objects), \<open>nic_outcome\<close> and \<open>good_link\<close>
  (requests inside the region succeed, the DMA layer lets the device write), \<open>cm_good\<close> and
  \<open>recv_delivers\<close> (the connection is set up, the server's message arrives), \<open>handshake\<close> (the
  server sees the client's requests, in their order), \<open>srv_good\<close> (the server's library calls
  succeed), \<open>cm_protocol\<close> (an event concerns a connection in a state that allows it),
  \<open>kernel_ok\<close> and \<open>cache_ok\<close> (the unpatched swap code), \<open>frees_some\<close> (reclaim frees at least one page and no more than it is asked for). Every such
  predicate is met by a concrete instance in the witnesses. The error theorems drop the
  predicate they are about.

  \<^bold>\<open>Loops.\<close> There is no fuel. A loop that may not end is \<open>whileK\<close>, whose value is \<open>Hang\<close> when it
  does not; the theorems show that it returns. Polling ends because outstanding requests
  complete (\<open>nic_live\<close>), the clock test of the benchmark because the clock advances
  (\<open>clock_live\<close>), reclaim because it frees something, the read-ahead because its window ends
  before the largest offset. Where the code can spin forever, a theorem shows \<open>Hang\<close>.

  \<^bold>\<open>Integers.\<close> Offsets, addresses and keys are words of their width, and \<open>atomic_t\<close> counters wrap at
  32 bits. A \<open>double\<close> is a rational number with 53 significant bits and every operation rounds to
  the nearest; exponents are not bounded, and the runs considered stay far inside their range.

  \<^bold>\<open>Not modelled.\<close> Log output and debug counters; \<open>sswap_rdma_addone\<close>, \<open>sswap_rdma_removeone\<close> and the
  queue pair event handler, which only log; the count of threads that STREAM prints, other
  printed text and the measured time of the sorting program; page flags and reference counts
  that the drivers never read; of the patch, the \<open>debugfs\<close> file that shows a counter,
  \<open>SWAP_CLUSTER_MAX\<close>, the removed \<open>cond_resched\<close> calls and white space.
  The evaluation harness (Python, shell) starts processes and collects files; Linpack is a
  binary; the Fortran STREAM is an unused copy; the rest is configuration and prose.
\<close>

section \<open>The two backends\<close>

lemma rdma_calls:
  assumes "cm_good C" "nic_ok (base_env C)" "recv_delivers (base_env C) 0" "fresh_module s"
    and "uint (this_cpu (drv s)) < num_online_cpus C" "\<not> iommu_strict (base_env C)"
    and "nic_outcome (base_env C)
           (region_succeeds (memregion_of_bytes (recv_message (base_env C))) (unat cap))"
    and "calls_ok cap cs (empty_dev (drv s))"
  shows "\<exists>s1 s2. sswap_rdma_init_module C s = Ret 0 s1
    \<and> run_calls (rdma_backend (base_env C)) cpu_id set_frame cs (drv s1) = Ret (replicate (length cs) 0) s2
    \<and> dev_rel cap (far_page s2) (frames s2) (fold dev_call cs (empty_dev (drv s)))"
proof -
  have "mem_ok (base_env C)" using assms(2) by (simp add: nic_ok_def)
  then obtain s1 where s1: "sswap_rdma_init_module C s = Ret 0 s1" "rdma_inv (drv s1)"
      "\<forall>q. sq (drv s1) q = []" "numcpus (drv s1) = num_online_cpus C"
      "mr_of (drv s1) = memregion_of_bytes (recv_message (base_env C))"
      "this_cpu (drv s1) = this_cpu (drv s)" "frames (drv s1) = frames (drv s)"
    using init_module_ok [OF assms(1) _ assms(3,4)] by blast
  then have "rdma_quiet (base_env C) cap (drv s1)"
    using assms(2,5-7) by (simp add: rdma_quiet_def good_link_def)
  moreover have "dev_rel cap (far_page (drv s1)) (frames (drv s1)) (empty_dev (drv s))"
    using dev_rel_empty [of cap "far_page (drv s1)" "drv s1"] s1(7) by (simp add: empty_dev_def)
  ultimately show ?thesis
    using rdma.calls_refine [of "base_env C" cap "drv s1" "empty_dev (drv s)" cs] assms(8) s1(1) by auto
qed

lemma recv_env_loop: "recv_env 0 = loop_env"
proof -
  have "(\<lambda>t q ws rs n. if ws = [] then map (\<lambda>r. \<lparr>wc_cqe = rwr_cqe r, wc_status = 0\<rparr>) (take n rs)
      else ib_poll_cq loop_env t q ws rs n) = ib_poll_cq loop_env"
    by (intro ext) (simp add: loop_env_def loop_env_of_def)
  then show ?thesis by (simp add: recv_env_def)
qed

lemma calls_ok_mono: "calls_ok cap cs d \<Longrightarrow> cap \<le> cap' \<Longrightarrow> calls_ok cap' cs d"
proof (induction cs arbitrary: d)
  case (Cons c cs)
  have "slot_fits cap i \<Longrightarrow> slot_fits cap' i" for i
    using Cons.prems(2) by (auto simp: slot_fits_def word_le_nat_alt)
  then have "call_ok cap' c d" using Cons.prems(1) by (cases c) auto
  then show ?case using Cons by simp
qed simp


lemma loop_client:
  "cm_good (loop_cm loop_env good_events)" "nic_ok (base_env (loop_cm loop_env good_events))"
  "recv_delivers (base_env (loop_cm loop_env good_events)) 0"
  "uint (this_cpu (drv loop_boot)) < num_online_cpus (loop_cm loop_env good_events)"
  "\<not> iommu_strict (base_env (loop_cm loop_env good_events))"
  "base_env (loop_cm loop_env good_events) = loop_env"
  using loop_cm_good loop_nic_ok recv_env_delivers [of 0] unfolding recv_env_loop
  by (simp_all add: loop_cm_def loop_boot_def loop_state_def)
    (simp add: loop_env_def loop_env_of_def)

lemma loop_message:
  "recv_message loop_env = [0, 16, 0, 0, 0, 0, 0, 0, 7, 0, 0, 0, 0, 0, 0, 0]"
  "memregion_of_bytes (recv_message loop_env) = loop_mr"
  by (simp_all add: memregion_of_bytes_def le_word_def loop_env_def loop_env_of_def loop_mr_def)

lemma loop_outcome:
  "nic_outcome (base_env (loop_cm loop_env good_events)) (region_succeeds
     (memregion_of_bytes (recv_message (base_env (loop_cm loop_env good_events)))) (unat (1073741824 :: u64)))"
  using loop_reliable by (simp add: loop_client(6) loop_message(2) LOOP_SIZE_def)

abbreviation some_calls :: "swap_call list" where
  "some_calls \<equiv> [Store 0 2 5, Store 0 3 6, Load 0 2 7]"

lemma some_calls_ok:
  "calls_ok 1073741824 some_calls \<lparr>slots = Map.empty, memory = frames loop_state\<rparr>"
  "pg_data (memory (fold dev_call some_calls \<lparr>slots = Map.empty, memory = frames loop_state\<rparr>) 7) = (\<lambda>i. 5)"
  by (simp_all add: slot_fits_def) (simp_all add: loop_state_def read_target_def)


section \<open>Server and client\<close>

text \<open>
  C3: far memory end to end. A client loads and asks for one connection per queue; a server
  started for at least as many queues, to which the connection manager hands the client's
  requests, accepts each of them with the parameters the client has asked for, and sends one
  message, on the client's first connection. If this is the message the client has received,
  its frontswap module implements over the connection a swap device of the size given to the
  server, starting empty.
\<close>

theorem far_memory_end_to_end:
  assumes server: "srv_good S" "args_ok argv" "num_online_cpus C * 3 \<le> int (srv_queues_for (argv ! 3))"
    and client: "cm_good C" "nic_ok (base_env C)" "recv_delivers (base_env C) 0" "fresh_module s"
      "uint (this_cpu (drv s)) < num_online_cpus C" "\<not> iommu_strict (base_env C)"
    and manager: "inj sid" "listener_id S \<notin> range sid"
      "\<forall>s1. sswap_rdma_init_module C s = Ret 0 s1 \<longrightarrow> handshake sid (connects s1) evs"
    and message: "\<forall>srv. main S argv evs srv_start = Ret 0 srv
      \<longrightarrow> recv_message (base_env C) = snd (hd (srv_sent srv))"
    and region: "nic_outcome (base_env C) (region_succeeds
        \<lparr>baseaddr = srv_baseaddr (srv_region S (srv_size_for (argv ! 2))),
         key = srv_key (srv_region S (srv_size_for (argv ! 2)))\<rparr> (unat (srv_size_for (argv ! 2))))"
    and calls: "calls_ok (srv_size_for (argv ! 2)) cs (empty_dev (drv s))"
  shows "\<exists>srv s1 s2. sswap_rdma_init_module C s = Ret 0 s1
    \<and> length (connects s1) = nat (num_online_cpus C * 3)
    \<and> main S argv evs srv_start = Ret 0 srv
    \<and> srv_accepted srv = map (\<lambda>c. (sid c, peer_param (connect_params c))) (map fst (connects s1))
    \<and> srv_sent srv = [(sid (fst (hd (connects s1))), recv_message (base_env C))]
    \<and> run_calls (rdma_backend (base_env C)) cpu_id set_frame cs (drv s1) = Ret (replicate (length cs) 0) s2
    \<and> frames s2 = memory (fold dev_call cs (empty_dev (drv s)))
    \<and> (\<forall>i v. slots (fold dev_call cs (empty_dev (drv s))) i = Some v \<longrightarrow> far_page s2 (page_off i) = v)"
proof -
  let ?n = "srv_queues_for (argv ! 3)" and ?mr = "srv_region S (srv_size_for (argv ! 2))"
  have mem: "mem_ok (base_env C)" using client(2) by (simp add: nic_ok_def)
  obtain s1 where s1: "sswap_rdma_init_module C s = Ret 0 s1"
    using init_module_ok [OF client(1) mem client(3,4)] by blast
  obtain cids where conns: "connects s1 = map conn_of cids" "distinct cids"
      "length cids = nat (num_online_cpus C * 3)" "cids \<noteq> []"
    using client_connects [OF client(1) mem client(3,4) s1] by blast
  have "handshake sid (connects s1) evs" "connects s1 \<noteq> []" "length (connects s1) \<le> ?n"
    "distinct (map fst (connects s1))" using manager(3) s1 server(3) by (simp_all add: conns comp_def)
  then obtain srv where run: "main S argv evs srv_start = Ret 0 srv"
      "srv_accepted srv = map (at_server sid) (connects s1)"
      "srv_sent srv = [(sid (fst (hd (connects s1))), memregion_bytes ?mr)]"
    using handshake_run [OF server(1,2) _ _ _ manager(1,2)] by blast
  then have msg: "recv_message (base_env C) = memregion_bytes ?mr"
    using message run(1,3) by simp
  then have o: "nic_outcome (base_env C) (region_succeeds (memregion_of_bytes (recv_message (base_env C)))
      (unat (srv_size_for (argv ! 2))))"
    using region by (simp add: memregion_decode)
  obtain s2 where "run_calls (rdma_backend (base_env C)) cpu_id set_frame cs (drv s1) = Ret (replicate (length cs) 0) s2"
      and D: "dev_rel (srv_size_for (argv ! 2)) (far_page s2) (frames s2) (fold dev_call cs (empty_dev (drv s)))"
    using rdma_calls [OF client o calls] s1 by auto
  moreover have "frames s2 = memory (fold dev_call cs (empty_dev (drv s)))"
    "\<forall>i v. slots (fold dev_call cs (empty_dev (drv s))) i = Some v \<longrightarrow> far_page s2 (page_off i) = v"
    using D by (auto simp: dev_rel_def)
  ultimately show ?thesis
    using s1 conns run msg by (intro exI [of _ srv] exI [of _ s1] exI [of _ s2]) (simp add: comp_def)
qed

text \<open>A server for the six queues of a client with two processors.\<close>

definition srv_args6 :: "string list" where
  "srv_args6 = [''rmserver'', ''50000'', ''1'', ''2'']"

lemma srv_args6_ok: "args_ok srv_args6" "srv_queues_for (srv_args6 ! 3) = 6"
  "srv_size_for (srv_args6 ! 2) = 1073741824"
proof -
  have "atoi ''2'' = 2" by code_simp
  then show "args_ok srv_args6" "srv_queues_for (srv_args6 ! 3) = 6"
    "srv_size_for (srv_args6 ! 2) = 1073741824"
    by (simp_all add: args_ok_def srv_args6_def srv_queues_for_def srv_size_for_def atoi_1)
qed

lemma loop_srv_region:
  "srv_region loop_srv 1073741824 = \<lparr>srv_baseaddr = 4096, srv_key = 7\<rparr>"
  "memregion_bytes \<lparr>srv_baseaddr = 4096, srv_key = 7\<rparr> = recv_message loop_env"
proof -
  show "srv_region loop_srv 1073741824 = \<lparr>srv_baseaddr = 4096, srv_key = 7\<rparr>"
    by (simp add: srv_region_def loop_srv_def)
  show "memregion_bytes \<lparr>srv_baseaddr = 4096, srv_key = 7\<rparr> = recv_message loop_env"
    by (simp add: memregion_bytes_def le_bytes_def upt_rec loop_message)
qed

theorem far_memory_end_to_end_witness:
  "\<exists>evs srv s1 s2. length evs = 12
    \<and> sswap_rdma_init_module (loop_cm loop_env good_events) loop_boot = Ret 0 s1
    \<and> main loop_srv srv_args6 evs srv_start = Ret 0 srv \<and> map snd (srv_accepted srv) = replicate 6 a_param
    \<and> run_calls (rdma_backend loop_env) cpu_id set_frame some_calls (drv s1) = Ret [0, 0, 0] s2
    \<and> pg_data (frames s2 7) = (\<lambda>i. 5)"
proof -
  let ?C = "loop_cm loop_env good_events" and ?sid = "Suc"
  have cpus: "num_online_cpus ?C = 2" by (simp add: loop_cm_def)
  have mem: "mem_ok (base_env ?C)" using loop_client(2) by (simp add: nic_ok_def)
  obtain s1 where s1: "sswap_rdma_init_module ?C loop_boot = Ret 0 s1"
    using init_module_ok [OF loop_client(1) mem loop_client(3) loop_boot_fresh] by blast
  obtain cids where conns: "connects s1 = map conn_of cids" "distinct cids" "length cids = 6"
    using client_connects [OF loop_client(1) mem loop_client(3) loop_boot_fresh s1] cpus by auto
  let ?evs = "in_order (map (at_server ?sid) (connects s1))"
  have ne: "connects s1 \<noteq> []" "length (connects s1) \<le> srv_queues_for (srv_args6 ! 3)" "distinct (map fst (connects s1))"
    using conns by (auto simp: srv_args6_ok comp_def)
  have hs: "handshake ?sid (connects s1) ?evs" by (rule in_order_handshake [OF ne(1) inj_Suc ne(3)])
  have l: "listener_id loop_srv \<notin> range ?sid" by (auto simp: loop_srv_def)
  obtain srv where run: "main loop_srv srv_args6 ?evs srv_start = Ret 0 srv"
      "srv_sent srv = [(?sid (fst (hd (connects s1))), memregion_bytes (srv_region loop_srv 1073741824))]"
    using handshake_run [OF loop_srv_good srv_args6_ok(1) hs ne(1,2) inj_Suc l ne(3)]
    unfolding srv_args6_ok(3) by blast
  have message: "\<forall>srv. main loop_srv srv_args6 ?evs srv_start = Ret 0 srv
      \<longrightarrow> recv_message (base_env ?C) = snd (hd (srv_sent srv))"
    using run by (simp add: loop_client(6) loop_srv_region)
  have region: "nic_outcome (base_env ?C) (region_succeeds
        \<lparr>baseaddr = srv_baseaddr (srv_region loop_srv (srv_size_for (srv_args6 ! 2))),
         key = srv_key (srv_region loop_srv (srv_size_for (srv_args6 ! 2)))\<rparr>
        (unat (srv_size_for (srv_args6 ! 2))))"
    using loop_reliable by (simp add: srv_args6_ok loop_srv_region loop_client(6) loop_mr_def LOOP_SIZE_def)
  have b: "frames (drv loop_boot) = frames loop_state" by (simp add: loop_state_def loop_boot_def)
  have calls: "calls_ok (srv_size_for (srv_args6 ! 2)) some_calls (empty_dev (drv loop_boot))"
    using some_calls_ok(1) by (simp only: empty_dev_def b srv_args6_ok(3))
  have q: "num_online_cpus ?C * 3 \<le> int (srv_queues_for (srv_args6 ! 3))"
    by (simp add: cpus srv_args6_ok)
  have m: "\<forall>s'. sswap_rdma_init_module ?C loop_boot = Ret 0 s' \<longrightarrow> handshake ?sid (connects s') ?evs"
    using hs s1 by simp
  obtain srv s1' s2 where *: "sswap_rdma_init_module ?C loop_boot = Ret 0 s1'"
      "main loop_srv srv_args6 ?evs srv_start = Ret 0 srv"
      "srv_accepted srv = map (\<lambda>c. (?sid c, peer_param (connect_params c))) (map fst (connects s1'))"
      "run_calls (rdma_backend (base_env ?C)) cpu_id set_frame some_calls (drv s1')
         = Ret (replicate (length some_calls) 0) s2"
      "frames s2 = memory (fold dev_call some_calls (empty_dev (drv loop_boot)))"
    using far_memory_end_to_end [OF loop_srv_good srv_args6_ok(1) q loop_client(1-3) loop_boot_fresh
        loop_client(4,5) inj_Suc l m message region calls] by blast
  have "length (in_order cs) = 2 * length cs" for cs by (induction cs rule: in_order.induct) simp_all
  then have "length ?evs = 12" using conns by simp
  moreover have "map snd (srv_accepted srv) = replicate 6 a_param"
    using *(1,3) s1 conns
    by (simp add: map_eq_conv comp_def map_replicate_const peer_param_def connect_params_def a_param_def)
  moreover have "replicate (length some_calls) (0 :: int) = [0, 0, 0]" by simp
  moreover have "pg_data (frames s2 7) = (\<lambda>i. 5)"
    using some_calls_ok(2) by (simp only: *(5) empty_dev_def b)
  ultimately show ?thesis
    using *(1,2,4) unfolding loop_client(6) by (intro exI [of _ ?evs] exI [of _ srv] exI [of _ s1'] exI [of _ s2]) simp
qed

end
